(* ===== verification/Adapter_Prelude.thy ===== *)
theory Adapter_Prelude
  imports Main "HOL-Library.Word"
begin

text \<open>
  What every component of the ROS1 tools adapter shares: the exceptions of
  \<^verbatim>\<open>error.hpp\<close> as values of a sum type, sequencing of fallible code, and the parts of
  the C++ string library the sources use (decimal digits, \<^verbatim>\<open>std::to_string\<close>,
  \<^verbatim>\<open>find\<close>, \<^verbatim>\<open>rfind\<close>) with their laws.
\<close>

section \<open>Exceptions as values\<close>

text \<open>
  A thrown C++ object is a \<^verbatim>\<open>Ros1ToolsError\<close> (with its code, its class and its
  message), some other \<^verbatim>\<open>std::exception\<close> (with its message) or anything else.
\<close>

datatype exn =
    Ros1ToolsError (exn_code: string) (exn_class: string) (exn_message: string)
  | StdException (exn_what: string)
  | UnknownException

type_synonym 'a result = "exn + 'a"

definition permanentError :: "string \<Rightarrow> string \<Rightarrow> 'a result" where
  "permanentError code message = Inl (Ros1ToolsError code ''permanent'' message)"

definition transientError :: "string \<Rightarrow> string \<Rightarrow> 'a result" where
  "transientError code message = Inl (Ros1ToolsError code ''transient'' message)"

definition uncertainError :: "string \<Rightarrow> string \<Rightarrow> 'a result" where
  "uncertainError code message = Inl (Ros1ToolsError code ''uncertain'' message)"

definition cancelledError :: "string \<Rightarrow> string \<Rightarrow> 'a result" where
  "cancelledError code message = Inl (Ros1ToolsError code ''cancelled'' message)"

definition deadlineError :: "string \<Rightarrow> string \<Rightarrow> 'a result" where
  "deadlineError code message = Inl (Ros1ToolsError code ''deadline'' message)"

definition rejectedError :: "string \<Rightarrow> string \<Rightarrow> 'a result" where
  "rejectedError code message = Inl (Ros1ToolsError code ''rejected'' message)"

definition resourceExhaustedError :: "string \<Rightarrow> string \<Rightarrow> 'a result" where
  "resourceExhaustedError code message =
     Inl (Ros1ToolsError code ''resource-exhausted'' message)"

definition stdError :: "string \<Rightarrow> 'a result" where
  "stdError message = Inl (StdException message)"

text \<open>Sequencing: the first exception ends the computation.\<close>

definition bindE :: "'a result \<Rightarrow> ('a \<Rightarrow> 'b result) \<Rightarrow> 'b result" where
  "bindE m f = (case m of Inl e \<Rightarrow> Inl e | Inr x \<Rightarrow> f x)"

text \<open>A loop that calls a fallible body on every element, in order.\<close>

fun forE :: "('a \<Rightarrow> 'b result) \<Rightarrow> 'a list \<Rightarrow> 'b list result" where
  "forE f [] = Inr []"
| "forE f (x # xs) = bindE (f x) (\<lambda>y. bindE (forE f xs) (\<lambda>ys. Inr (y # ys)))"

section \<open>Decimal text\<close>

definition is_digit :: "char \<Rightarrow> bool" where
  "is_digit c \<longleftrightarrow> 48 \<le> (of_char c :: nat) \<and> (of_char c :: nat) \<le> 57"

definition digit_val :: "char \<Rightarrow> nat" where
  "digit_val c = of_char c - 48"

definition digit_char :: "nat \<Rightarrow> char" where
  "digit_char d = char_of (48 + d)"

definition digits_val :: "string \<Rightarrow> nat" where
  "digits_val s = foldl (\<lambda>a c. 10 * a + digit_val c) 0 s"

text \<open>\<^verbatim>\<open>std::to_string\<close> of an unsigned and of a signed integer.\<close>

fun nat_to_string :: "nat \<Rightarrow> string" where
  "nat_to_string n =
     (if n < 10 then [digit_char n]
      else nat_to_string (n div 10) @ [digit_char (n mod 10)])"

declare nat_to_string.simps [simp del]

definition int_to_string :: "int \<Rightarrow> string" where
  "int_to_string i =
     (if i < 0 then CHR ''-'' # nat_to_string (nat (- i)) else nat_to_string (nat i))"

section \<open>Reading integers\<close>

text \<open>
  What \<^verbatim>\<open>strtol\<close> and its kin read in base ten: white space, an optional sign, the
  longest run of digits. The result is the number of characters before and including the
  digits, the sign and the digits.
\<close>

definition is_space :: "char \<Rightarrow> bool" where
  "is_space c \<longleftrightarrow> (let n = of_char c :: nat in n = 32 \<or> (9 \<le> n \<and> n \<le> 13))"

definition scan_integer :: "string \<Rightarrow> nat \<times> bool \<times> string" where
  "scan_integer s =
     (let spaces = takeWhile is_space s;
          rest = dropWhile is_space s;
          signed = (rest \<noteq> [] \<and> (hd rest = CHR ''-'' \<or> hd rest = CHR ''+''));
          digits = takeWhile is_digit (if signed then tl rest else rest)
      in (length spaces + (if signed then 1 else 0) + length digits,
          signed \<and> hd rest = CHR ''-'', digits))"

text \<open>
  \<^verbatim>\<open>std::stoll\<close> and \<^verbatim>\<open>std::stoull\<close>: no digits is \<^verbatim>\<open>invalid_argument\<close>, a
  value outside the type is \<^verbatim>\<open>out_of_range\<close>; otherwise the value and the number of
  characters consumed. The unsigned conversion negates modulo the type's range.
\<close>

definition stoll :: "string \<Rightarrow> (int \<times> nat) result" where
  "stoll s =
     (case scan_integer s of (consumed, neg, digits) \<Rightarrow>
        if digits = [] then stdError ''stoll''
        else let v = (if neg then - int (digits_val digits) else int (digits_val digits))
             in if v < - 9223372036854775808 \<or> v > 9223372036854775807
                then stdError ''stoll'' else Inr (v, consumed))"

definition stoull :: "string \<Rightarrow> (nat \<times> nat) result" where
  "stoull s =
     (case scan_integer s of (consumed, neg, digits) \<Rightarrow>
        if digits = [] then stdError ''stoull''
        else if digits_val digits > 18446744073709551615 then stdError ''stoull''
        else Inr (if neg then (18446744073709551616 - digits_val digits) mod 18446744073709551616
                  else digits_val digits, consumed))"

section \<open>String searches\<close>

text \<open>
  \<^verbatim>\<open>std::string::find\<close> and \<^verbatim>\<open>rfind\<close> of one character: \<^term>\<open>None\<close> is
  \<^verbatim>\<open>npos\<close>.
\<close>

fun find_char :: "char \<Rightarrow> string \<Rightarrow> nat option" where
  "find_char c [] = None"
| "find_char c (x # xs) = (if x = c then Some 0 else map_option Suc (find_char c xs))"

fun rfind_char :: "char \<Rightarrow> string \<Rightarrow> nat option" where
  "rfind_char c [] = None"
| "rfind_char c (x # xs) =
     (case rfind_char c xs of
        Some i \<Rightarrow> Some (Suc i)
      | None \<Rightarrow> (if x = c then Some 0 else None))"

section \<open>Laws of the shared definitions\<close>

named_theorems error_defs \<open>the constructors of thrown errors\<close>
named_theorems result_simps \<open>case analysis of sequenced fallible code\<close>

lemmas [error_defs] =
  permanentError_def transientError_def uncertainError_def cancelledError_def
  deadlineError_def rejectedError_def resourceExhaustedError_def stdError_def

lemma bindE_Inl [simp]: "bindE (Inl e) f = Inl e"
  by (simp add: bindE_def)

lemma bindE_Inr [simp]: "bindE (Inr x) f = f x"
  by (simp add: bindE_def)

lemma bindE_eq_Inr [result_simps]: "bindE m f = Inr y \<longleftrightarrow> (\<exists>x. m = Inr x \<and> f x = Inr y)"
  by (cases m) simp_all

lemma bindE_eq_Inl [result_simps]:
  "bindE m f = Inl e \<longleftrightarrow> m = Inl e \<or> (\<exists>x. m = Inr x \<and> f x = Inl e)"
  by (cases m) simp_all

lemma bindE_cong [fundef_cong]:
  "m = m' \<Longrightarrow> (\<And>x. m' = Inr x \<Longrightarrow> f x = f' x) \<Longrightarrow> bindE m f = bindE m' f'"
  by (cases m') simp_all

lemma forE_length: "forE f xs = Inr ys \<Longrightarrow> length ys = length xs"
  by (induction xs arbitrary: ys) (auto simp: result_simps)

lemma forE_Inr_nth: "forE f xs = Inr ys \<Longrightarrow> i < length xs \<Longrightarrow> f (xs ! i) = Inr (ys ! i)"
  by (induction xs arbitrary: ys i) (auto simp: result_simps nth_Cons split: nat.splits)

lemma forE_Inr_iff: "forE f xs = Inr ys \<longleftrightarrow> list_all2 (\<lambda>x y. f x = Inr y) xs ys"
  by (induction xs arbitrary: ys) (auto simp: bindE_eq_Inr list_all2_Cons1)

lemma forE_Inl: "forE f xs = Inl e \<Longrightarrow> \<exists>x \<in> set xs. f x = Inl e"
  by (induction xs) (auto simp: bindE_eq_Inl)

lemma forE_total: "(\<exists>ys. forE f xs = Inr ys) \<longleftrightarrow> (\<forall>x \<in> set xs. \<exists>y. f x = Inr y)"
  by (induction xs) (auto simp: bindE_eq_Inr)

lemma forE_map: "(\<And>x. x \<in> set xs \<Longrightarrow> f x = Inr (g x)) \<Longrightarrow> forE f xs = Inr (map g xs)"
  by (induction xs) auto

lemma forE_cong [fundef_cong]:
  "xs = ys \<Longrightarrow> (\<And>x. x \<in> set ys \<Longrightarrow> f x = g x) \<Longrightarrow> forE f xs = forE g ys"
proof (induction ys arbitrary: xs)
  case Nil
  then show ?case by simp
next
  case (Cons y ys)
  have "f y = g y" using Cons.prems(2) by simp
  moreover have "forE f ys = forE g ys" using Cons by simp
  ultimately show ?case using Cons.prems(1) by simp
qed

subsection \<open>Digits\<close>

lemma digit_char_digit [simp]: "d < 10 \<Longrightarrow> is_digit (digit_char d)"
  by (simp add: is_digit_def digit_char_def)

lemma digit_val_digit_char [simp]: "d < 10 \<Longrightarrow> digit_val (digit_char d) = d"
  by (simp add: digit_val_def digit_char_def)

lemma digit_val_less [simp]: "is_digit c \<Longrightarrow> digit_val c < 10"
  by (auto simp: is_digit_def digit_val_def)

lemma digit_char_digit_val [simp]: "is_digit c \<Longrightarrow> digit_char (digit_val c) = c"
  by (auto simp: is_digit_def digit_val_def digit_char_def)

lemma minus_not_digit [simp]: "\<not> is_digit CHR ''-''"
  by (simp add: is_digit_def)

lemma dot_not_digit [simp]: "\<not> is_digit CHR ''.''"
  by (simp add: is_digit_def)

lemma digits_val_Nil [simp]: "digits_val [] = 0"
  by (simp add: digits_val_def)

lemma digits_val_snoc [simp]: "digits_val (s @ [c]) = 10 * digits_val s + digit_val c"
  by (simp add: digits_val_def)

lemma foldl_digits:
  "foldl (\<lambda>a c. 10 * a + digit_val c) a s = a * 10 ^ length s + digits_val s"
proof (induction s rule: rev_induct)
  case Nil
  then show ?case by simp
next
  case (snoc c s)
  then show ?case by (simp add: algebra_simps)
qed

lemma digits_val_append: "digits_val (s @ t) = digits_val s * 10 ^ length t + digits_val t"
  using foldl_digits [of "digits_val s" t] by (simp add: digits_val_def)

lemma digits_val_Cons: "digits_val (c # s) = digit_val c * 10 ^ length s + digits_val s"
  using digits_val_append [of "[c]" s] by (simp add: digits_val_def)

lemma digits_val_less: "list_all is_digit s \<Longrightarrow> digits_val s < 10 ^ length s"
proof (induction s rule: rev_induct)
  case Nil
  then show ?case by simp
next
  case (snoc c s)
  then have "digits_val s + 1 \<le> 10 ^ length s" and "digit_val c < 10" by auto
  then show ?case by simp
qed

lemma nat_to_string_digits [simp]: "list_all is_digit (nat_to_string n)"
proof (induction n rule: nat_to_string.induct)
  case (1 n)
  then show ?case by (subst nat_to_string.simps) simp
qed

lemma nat_to_string_not_Nil [simp]: "nat_to_string n \<noteq> []"
  by (subst nat_to_string.simps) simp

lemma digits_val_nat_to_string [simp]: "digits_val (nat_to_string n) = n"
proof (induction n rule: nat_to_string.induct)
  case (1 n)
  then show ?case
    by (subst nat_to_string.simps) (auto simp: digits_val_def)
qed

text \<open>A digit string with no superfluous leading zero is what \<^verbatim>\<open>to_string\<close> prints.\<close>

definition canonical_digits :: "string \<Rightarrow> bool" where
  "canonical_digits s \<longleftrightarrow>
     s \<noteq> [] \<and> list_all is_digit s \<and> (hd s = CHR ''0'' \<longrightarrow> length s = 1)"

lemma digit_char_simps [simp]:
  "digit_char 0 = CHR ''0''" "digit_char 1 = CHR ''1''" "digit_char (Suc 0) = CHR ''1''"
  "digit_char 2 = CHR ''2''" "digit_char 3 = CHR ''3''" "digit_char 4 = CHR ''4''"
  "digit_char 5 = CHR ''5''" "digit_char 6 = CHR ''6''" "digit_char 7 = CHR ''7''"
  "digit_char 8 = CHR ''8''" "digit_char 9 = CHR ''9''"
  by code_simp+

lemma digit_val_eq_0: "is_digit c \<Longrightarrow> digit_val c = 0 \<longleftrightarrow> c = CHR ''0''"
proof
  assume "is_digit c" and "digit_val c = 0"
  then have "c = digit_char 0" using digit_char_digit_val by metis
  then show "c = CHR ''0''" by simp
qed (simp add: digit_val_def)

lemma digits_val_eq_0:
  "list_all is_digit s \<Longrightarrow> digits_val s = 0 \<longleftrightarrow> (\<forall>c \<in> set s. c = CHR ''0'')"
  by (induction s) (auto simp: digits_val_Cons digit_val_eq_0)

lemma canonical_digits_pos:
  assumes "canonical_digits s" and "length s > 1"
  shows "digits_val s > 0"
proof -
  obtain c t where s: "s = c # t" using assms(1) by (cases s) (auto simp: canonical_digits_def)
  then have "is_digit c" and "c \<noteq> CHR ''0''" using assms by (auto simp: canonical_digits_def)
  then have "digit_val c > 0" using digit_val_eq_0 by blast
  then show ?thesis by (simp add: s digits_val_Cons)
qed

lemma nat_to_string_hd:
  "0 < n \<Longrightarrow> hd (nat_to_string n) \<noteq> CHR ''0''"
proof (induction n rule: nat_to_string.induct)
  case (1 n)
  show ?case
  proof (cases "n < 10")
    case True
    then have "nat_to_string n = [digit_char n]" by (subst nat_to_string.simps) simp
    moreover have "digit_char n \<noteq> CHR ''0''"
      using True "1.prems" digit_val_digit_char [of n] by (auto simp: digit_val_def)
    ultimately show ?thesis by simp
  next
    case False
    then have "hd (nat_to_string (n div 10)) \<noteq> CHR ''0''" using "1.IH" by simp
    then show ?thesis using False by (subst nat_to_string.simps) simp
  qed
qed

lemma nat_to_string_canonical: "canonical_digits (nat_to_string n)"
proof (cases "n = 0")
  case True
  then show ?thesis
    by (subst nat_to_string.simps) (simp add: canonical_digits_def is_digit_def)
next
  case False
  then show ?thesis using nat_to_string_hd [of n] by (simp add: canonical_digits_def)
qed

lemma nat_to_string_digits_val:
  "canonical_digits s \<Longrightarrow> nat_to_string (digits_val s) = s"
proof (induction s rule: rev_induct)
  case Nil
  then show ?case by (simp add: canonical_digits_def)
next
  case (snoc c s)
  then have c: "is_digit c" by (simp add: canonical_digits_def)
  show ?case
  proof (cases "s = []")
    case True
    with c show ?thesis by (subst nat_to_string.simps) (simp add: digits_val_def)
  next
    case False
    with snoc.prems have can: "canonical_digits s"
      by (cases s) (auto simp: canonical_digits_def)
    have "digits_val s > 0"
    proof (cases "length s > 1")
      case True
      with can show ?thesis by (rule canonical_digits_pos)
    next
      case short: False
      with False obtain d where "s = [d]" by (cases s) auto
      with snoc.prems show ?thesis
        by (auto simp: canonical_digits_def digits_val_def digit_val_eq_0 [symmetric])
    qed
    moreover have "digit_val c < 10" using c by simp
    ultimately have "\<not> digits_val (s @ [c]) < 10"
      and "digits_val (s @ [c]) div 10 = digits_val s"
      and "digits_val (s @ [c]) mod 10 = digit_val c" by auto
    then show ?thesis using snoc.IH [OF can] c by (subst nat_to_string.simps) simp
  qed
qed

subsection \<open>Integers\<close>

lemma digit_not_space: "is_digit c \<Longrightarrow> \<not> is_space c"
  by (auto simp: is_digit_def is_space_def Let_def)

lemma digit_not_sign: "is_digit c \<Longrightarrow> c \<noteq> CHR ''-'' \<and> c \<noteq> CHR ''+''"
  by (auto simp: is_digit_def)

lemma scan_digits:
  assumes "s \<noteq> []" and "list_all is_digit s"
  shows "scan_integer s = (length s, False, s)"
proof -
  obtain c t where s: "s = c # t" using assms(1) by (cases s) auto
  have c: "is_digit c" using assms(2) s by simp
  have all: "takeWhile is_digit s = s" using assms(2) by (simp only: takeWhile_eq_all_conv list_all_iff)
  have head: "dropWhile is_space s = s" "takeWhile is_space s = []" "hd s = c"
    using digit_not_space [OF c] s by simp_all
  show ?thesis using digit_not_sign [OF c]
    by (simp add: scan_integer_def Let_def head all)
qed

lemma scan_negative:
  assumes "s \<noteq> []" and "list_all is_digit s"
  shows "scan_integer (CHR ''-'' # s) = (Suc (length s), True, s)"
proof -
  have "takeWhile is_digit s = s" using assms(2) by (simp only: takeWhile_eq_all_conv list_all_iff)
  note all = this
  show ?thesis by (simp add: scan_integer_def Let_def is_space_def all)
qed

text \<open>The canonical text of an integer, and that it determines the integer.\<close>

definition canonical_integer :: "string \<Rightarrow> bool" where
  "canonical_integer s \<longleftrightarrow>
     canonical_digits s \<or>
     (\<exists>t. s = CHR ''-'' # t \<and> canonical_digits t \<and> t \<noteq> ''0'')"

lemma canonical_digits_zero: "canonical_digits s \<Longrightarrow> digits_val s = 0 \<longleftrightarrow> s = ''0''"
  using nat_to_string_digits_val [of s] by (auto simp: nat_to_string.simps digits_val_def digit_val_def)

lemma int_to_string_canonical: "canonical_integer (int_to_string i)"
proof (cases "i < 0")
  case True
  have "nat_to_string (nat (- i)) \<noteq> ''0''"
    using canonical_digits_zero [OF nat_to_string_canonical, of "nat (- i)"] True by simp
  then show ?thesis using True nat_to_string_canonical
    by (simp add: int_to_string_def canonical_integer_def)
next
  case False
  then show ?thesis using nat_to_string_canonical
    by (simp add: int_to_string_def canonical_integer_def)
qed

lemma canonical_integer_exists:
  assumes "canonical_integer s"
  shows "\<exists>i. s = int_to_string i"
  using assms unfolding canonical_integer_def
proof (elim disjE exE conjE)
  assume "canonical_digits s"
  then have "s = int_to_string (int (digits_val s))"
    by (simp add: int_to_string_def nat_to_string_digits_val)
  then show ?thesis ..
next
  fix t assume t: "s = CHR ''-'' # t" "canonical_digits t" "t \<noteq> ''0''"
  then have "digits_val t \<noteq> 0" using canonical_digits_zero by blast
  then have "s = int_to_string (- int (digits_val t))"
    using t by (simp add: int_to_string_def nat_to_string_digits_val)
  then show ?thesis ..
qed

lemma scan_int_to_string:
  "scan_integer (int_to_string i) =
     (length (int_to_string i), i < 0, nat_to_string (nat \<bar>i\<bar>))"
  by (cases "i < 0") (simp_all add: int_to_string_def scan_digits scan_negative)

lemma stoll_int_to_string:
  "stoll (int_to_string i) =
     (if - 9223372036854775808 \<le> i \<and> i \<le> 9223372036854775807
      then Inr (i, length (int_to_string i)) else stdError ''stoll'')"
  by (cases "i < 0") (auto simp: stoll_def scan_int_to_string)

lemma stoull_nat_to_string:
  "stoull (nat_to_string n) =
     (if n \<le> 18446744073709551615 then Inr (n, length (nat_to_string n)) else stdError ''stoull'')"
  by (simp add: stoull_def scan_digits)

lemma int_to_string_inject: "int_to_string i = int_to_string j \<longleftrightarrow> i = j"
proof
  assume eq: "int_to_string i = int_to_string j"
  then have neg: "i < 0 \<longleftrightarrow> j < 0" and "nat_to_string (nat \<bar>i\<bar>) = nat_to_string (nat \<bar>j\<bar>)"
    using scan_int_to_string [of i] scan_int_to_string [of j] by simp_all
  then have "nat \<bar>i\<bar> = nat \<bar>j\<bar>" using digits_val_nat_to_string by metis
  with neg show "i = j" by auto
qed simp

lemma int_to_string_nonneg: "0 \<le> i \<Longrightarrow> int_to_string i = nat_to_string (nat i)"
  by (simp add: int_to_string_def)

lemma int_to_string_minus:
  "hd (int_to_string i) = CHR ''-'' \<longleftrightarrow> i < 0"
proof -
  have "hd (nat_to_string n) \<noteq> CHR ''-''" for n
    using nat_to_string_digits [of n] nat_to_string_not_Nil [of n]
    by (cases "nat_to_string n") (auto dest: digit_not_sign)
  then show ?thesis by (simp add: int_to_string_def)
qed

lemma int_to_string_not_Nil [simp]: "int_to_string i \<noteq> []"
  by (simp add: int_to_string_def)

subsection \<open>Words\<close>

lemma unat8_less: "unat (w :: 8 word) < 256"
  using unsigned_less [where ?'a = nat, of w] by simp

lemma unat16_less: "unat (w :: 16 word) < 65536"
  using unsigned_less [where ?'a = nat, of w] by simp

lemma unat32_less: "unat (w :: 32 word) < 4294967296"
  using unsigned_less [where ?'a = nat, of w] by simp

lemma unat64_less: "unat (w :: 64 word) < 18446744073709551616"
  using unsigned_less [where ?'a = nat, of w] by simp

subsection \<open>Searches\<close>

lemma find_char_None: "find_char c s = None \<longleftrightarrow> c \<notin> set s"
  by (induction s) auto

lemma find_char_Some:
  "find_char c s = Some i \<longleftrightarrow> i < length s \<and> s ! i = c \<and> c \<notin> set (take i s)"
proof (induction s arbitrary: i)
  case Nil
  then show ?case by simp
next
  case (Cons x xs)
  then show ?case by (cases i) auto
qed

lemma find_char_split:
  "find_char c s = Some i \<Longrightarrow> s = take i s @ c # drop (Suc i) s"
  using id_take_nth_drop [of i s] by (auto simp: find_char_Some)

lemma find_char_append: "c \<notin> set s \<Longrightarrow> find_char c (s @ c # t) = Some (length s)"
  by (simp add: find_char_Some)

lemma rfind_char_None: "rfind_char c s = None \<longleftrightarrow> c \<notin> set s"
  by (induction s) (auto split: option.splits)

lemma rfind_char_Some:
  "rfind_char c s = Some i \<Longrightarrow> i < length s \<and> s ! i = c \<and> c \<notin> set (drop (Suc i) s)"
  by (induction s arbitrary: i)
    (auto split: option.splits if_splits simp: rfind_char_None)

end
