(* ===== verification/Regex_Match.thy ===== *)
theory Regex_Match
  imports Adapter_Prelude
begin

text \<open>
  \<^verbatim>\<open>std::regex_match\<close> for the patterns of the sources, which are regular expressions over
  character classes. The meaning of a pattern is an inductive relation between patterns and
  the strings they match; the matcher the definitions run takes derivatives and is proved to
  decide it. The shapes of strings that the patterns of the adapter are built from follow.
\<close>

section \<open>Patterns\<close>

datatype regex =
    Never
  | Eps
  | Class "char \<Rightarrow> bool"
  | Seq regex regex
  | Alt regex regex
  | Star regex

inductive regex_matches :: "regex \<Rightarrow> string \<Rightarrow> bool" where
  Eps: "regex_matches Eps []"
| Class: "p c \<Longrightarrow> regex_matches (Class p) [c]"
| Seq: "regex_matches r s \<Longrightarrow> regex_matches r' s' \<Longrightarrow> regex_matches (Seq r r') (s @ s')"
| Alt1: "regex_matches r s \<Longrightarrow> regex_matches (Alt r r') s"
| Alt2: "regex_matches r' s \<Longrightarrow> regex_matches (Alt r r') s"
| Star0: "regex_matches (Star r) []"
| Star1: "regex_matches r s \<Longrightarrow> regex_matches (Star r) s' \<Longrightarrow> regex_matches (Star r) (s @ s')"

inductive_simps matches_simps [simp]:
  "regex_matches Never s" "regex_matches Eps s" "regex_matches (Class p) s" "regex_matches (Alt r r') s"

inductive_simps matches_Seq: "regex_matches (Seq r r') s"

section \<open>The matcher\<close>

primrec nullable :: "regex \<Rightarrow> bool" where
  "nullable Never = False"
| "nullable Eps = True"
| "nullable (Class p) = False"
| "nullable (Seq r r') = (nullable r \<and> nullable r')"
| "nullable (Alt r r') = (nullable r \<or> nullable r')"
| "nullable (Star r) = True"

primrec deriv :: "char \<Rightarrow> regex \<Rightarrow> regex" where
  "deriv c Never = Never"
| "deriv c Eps = Never"
| "deriv c (Class p) = (if p c then Eps else Never)"
| "deriv c (Seq r r') =
     (if nullable r then Alt (Seq (deriv c r) r') (deriv c r') else Seq (deriv c r) r')"
| "deriv c (Alt r r') = Alt (deriv c r) (deriv c r')"
| "deriv c (Star r) = Seq (deriv c r) (Star r)"

fun regex_match :: "string \<Rightarrow> regex \<Rightarrow> bool" where
  "regex_match [] r = nullable r"
| "regex_match (c # s) r = regex_match s (deriv c r)"

lemma matches_Seq_iff:
  "regex_matches (Seq r r') s \<longleftrightarrow> (\<exists>u v. s = u @ v \<and> regex_matches r u \<and> regex_matches r' v)"
  by (auto simp: matches_Seq)

lemma matches_Class_Seq [simp]:
  "regex_matches (Seq (Class p) r) s \<longleftrightarrow> (\<exists>c t. s = c # t \<and> p c \<and> regex_matches r t)"
  by (auto simp: matches_Seq_iff) (metis append_Cons append_Nil)

lemma nullable_iff: "nullable r \<longleftrightarrow> regex_matches r []"
  by (induction r) (auto simp: matches_Seq_iff intro: regex_matches.intros)

lemma matches_Star_Cons:
  assumes "regex_matches (Star r) (c # s)"
  shows "\<exists>u v. s = u @ v \<and> regex_matches r (c # u) \<and> regex_matches (Star r) v"
  using assms
proof (induction "Star r" "c # s" arbitrary: s rule: regex_matches.induct)
  case (Star1 u v)
  then show ?case by (cases u) auto
qed

lemma deriv_iff: "regex_matches (deriv c r) s \<longleftrightarrow> regex_matches r (c # s)"
proof (induction r arbitrary: s)
  case (Seq r r')
  have "regex_matches (Seq r r') (c # s) \<longleftrightarrow>
      (\<exists>u v. s = u @ v \<and> regex_matches r (c # u) \<and> regex_matches r' v) \<or>
      (regex_matches r [] \<and> regex_matches r' (c # s))"
    unfolding matches_Seq_iff by (auto simp: Cons_eq_append_conv)
  then show ?case using Seq by (simp add: matches_Seq_iff nullable_iff)
next
  case (Star r)
  have "regex_matches (Star r) (c # s) \<longleftrightarrow>
      (\<exists>u v. s = u @ v \<and> regex_matches r (c # u) \<and> regex_matches (Star r) v)"
    using matches_Star_Cons [of r c s] by (auto dest: regex_matches.Star1 [of r "c # _"])
  then show ?case using Star by (simp add: matches_Seq_iff)
qed auto

lemma regex_match_iff: "regex_match s r \<longleftrightarrow> regex_matches r s"
  by (induction s arbitrary: r) (simp_all add: nullable_iff deriv_iff)

section \<open>Repetitions and literals\<close>

definition Plus :: "regex \<Rightarrow> regex" where
  "Plus r = Seq r (Star r)"

definition Opt :: "regex \<Rightarrow> regex" where
  "Opt r = Alt r Eps"

primrec Exactly :: "nat \<Rightarrow> regex \<Rightarrow> regex" where
  "Exactly 0 r = Eps"
| "Exactly (Suc n) r = Seq r (Exactly n r)"

primrec AtMost :: "nat \<Rightarrow> regex \<Rightarrow> regex" where
  "AtMost 0 r = Eps"
| "AtMost (Suc n) r = Opt (Seq r (AtMost n r))"

definition Literal :: "string \<Rightarrow> regex" where
  "Literal s = foldr (\<lambda>c. Seq (Class (\<lambda>x. x = c))) s Eps"

lemma matches_Literal [simp]: "regex_matches (Literal t) s \<longleftrightarrow> s = t"
  unfolding Literal_def by (induction t arbitrary: s) auto

lemma matches_Opt [simp]: "regex_matches (Opt r) s \<longleftrightarrow> regex_matches r s \<or> s = []"
  by (simp add: Opt_def)

lemma matches_Star_Class [simp]: "regex_matches (Star (Class p)) s \<longleftrightarrow> list_all p s"
proof
  show "list_all p s" if "regex_matches (Star (Class p)) s"
    using that by (induction "Star (Class p)" s rule: regex_matches.induct) auto
  show "regex_matches (Star (Class p)) s" if "list_all p s"
    using that
  proof (induction s)
    case (Cons c s)
    then show ?case using regex_matches.Star1 [of "Class p" "[c]" s] by simp
  qed (simp add: regex_matches.Star0)
qed

lemma matches_Plus_Class [simp]: "regex_matches (Plus (Class p)) s \<longleftrightarrow> s \<noteq> [] \<and> list_all p s"
  unfolding Plus_def by (cases s) auto

lemma matches_Exactly_Class [simp]:
  "regex_matches (Exactly n (Class p)) s \<longleftrightarrow> length s = n \<and> list_all p s"
proof (induction n arbitrary: s)
  case (Suc n)
  then show ?case by (cases s) auto
qed auto

lemma matches_AtMost_Class [simp]:
  "regex_matches (AtMost n (Class p)) s \<longleftrightarrow> length s \<le> n \<and> list_all p s"
proof (induction n arbitrary: s)
  case (Suc n)
  then show ?case by (cases s) auto
qed auto

lemma matches_Star_iff:
  "regex_matches (Star r) s \<longleftrightarrow> (\<exists>parts. s = concat parts \<and> (\<forall>u \<in> set parts. regex_matches r u))"
proof
  show "\<exists>parts. s = concat parts \<and> (\<forall>u \<in> set parts. regex_matches r u)" if "regex_matches (Star r) s"
    using that
  proof (induction "Star r" s rule: regex_matches.induct)
    case Star0
    show ?case by (rule exI [of _ "[]"]) simp
  next
    case (Star1 u v)
    then obtain parts where "v = concat parts" "\<forall>u \<in> set parts. regex_matches r u" by blast
    then show ?case using Star1 by (intro exI [of _ "u # parts"]) simp
  qed
  assume "\<exists>parts. s = concat parts \<and> (\<forall>u \<in> set parts. regex_matches r u)"
  then obtain parts where parts: "s = concat parts" "\<forall>u \<in> set parts. regex_matches r u" by blast
  have "regex_matches (Star r) (concat parts)"
    using parts(2) by (induction parts) (auto intro: regex_matches.Star0 regex_matches.Star1)
  then show "regex_matches (Star r) s" using parts(1) by simp
qed

end
