(* ===== verification/Ieee_Float.thy ===== *)
theory Ieee_Float
  imports Adapter_Prelude
begin

text \<open>
  The binary floating point of the language, as far as the sources use it: \<^verbatim>\<open>double\<close>
  and \<^verbatim>\<open>float\<close> values by their sign, biased exponent and mantissa fields; ordering,
  \<^verbatim>\<open>isfinite\<close>, the conversions between the two formats and from integers, and
  division, multiplication and addition, all with round-to-nearest-even.

  Every finite value of a format is a whole number of its smallest subnormal, so the exact
  value of a number is kept as a natural number of \<^emph>\<open>units\<close> (\<open>2 ^ -1074\<close> for a double,
  \<open>2 ^ -149\<close> for a float) and rounding works on a ratio of naturals.
\<close>

section \<open>Formats and values\<close>

datatype fp = Fp (fp_sign: bool) (fp_expo: nat) (fp_mant: nat)

record fp_format =
  expo_max :: nat
  mant_bits :: nat

definition binary64 :: fp_format where
  "binary64 = \<lparr>expo_max = 2047, mant_bits = 52\<rparr>"

definition binary32 :: fp_format where
  "binary32 = \<lparr>expo_max = 255, mant_bits = 23\<rparr>"

definition wf_fp :: "fp_format \<Rightarrow> fp \<Rightarrow> bool" where
  "wf_fp F x \<longleftrightarrow> fp_expo x \<le> expo_max F \<and> fp_mant x < 2 ^ mant_bits F"

definition isfinite :: "fp_format \<Rightarrow> fp \<Rightarrow> bool" where
  "isfinite F x \<longleftrightarrow> fp_expo x < expo_max F"

definition isnan :: "fp_format \<Rightarrow> fp \<Rightarrow> bool" where
  "isnan F x \<longleftrightarrow> fp_expo x = expo_max F \<and> fp_mant x \<noteq> 0"

text \<open>The magnitude of a finite value in units of the smallest subnormal.\<close>

definition units :: "fp_format \<Rightarrow> fp \<Rightarrow> nat" where
  "units F x =
     (if fp_expo x = 0 then fp_mant x
      else (2 ^ mant_bits F + fp_mant x) * 2 ^ (fp_expo x - 1))"

definition signed_units :: "fp_format \<Rightarrow> fp \<Rightarrow> int" where
  "signed_units F x = (if fp_sign x then - int (units F x) else int (units F x))"

section \<open>Rounding\<close>

fun bit_length :: "nat \<Rightarrow> nat" where
  "bit_length n = (if n = 0 then 0 else Suc (bit_length (n div 2)))"

declare bit_length.simps [simp del]

text \<open>
  The ratio \<open>n / d\<close> units, rounded to a significand of \<open>p + 1\<close> bits: the quantum
  exponent and the significand.
\<close>

definition round_ratio :: "nat \<Rightarrow> nat \<Rightarrow> nat \<Rightarrow> nat \<times> nat" where
  "round_ratio p n d =
     (let q = bit_length (n div d) - (p + 1);
          e = d * 2 ^ q;
          t = n div e;
          r = n mod e;
          t' = (if 2 * r > e \<or> (2 * r = e \<and> odd t) then t + 1 else t)
      in if t' = 2 ^ (p + 1) then (q + 1, 2 ^ p) else (q, t'))"

definition pack :: "fp_format \<Rightarrow> bool \<Rightarrow> nat \<times> nat \<Rightarrow> fp" where
  "pack F s qt =
     (if snd qt < 2 ^ mant_bits F then Fp s 0 (snd qt)
      else if fst qt + 1 \<ge> expo_max F then Fp s (expo_max F) 0
      else Fp s (fst qt + 1) (snd qt - 2 ^ mant_bits F))"

definition round_fp :: "fp_format \<Rightarrow> bool \<Rightarrow> nat \<Rightarrow> nat \<Rightarrow> fp" where
  "round_fp F s n d = pack F s (round_ratio (mant_bits F) n d)"

section \<open>The operations\<close>

definition fp_less :: "fp_format \<Rightarrow> fp \<Rightarrow> fp \<Rightarrow> bool" where
  "fp_less F x y =
     (if isnan F x \<or> isnan F y then False
      else if isfinite F x \<and> isfinite F y then signed_units F x < signed_units F y
      else if isfinite F x then \<not> fp_sign y
      else if isfinite F y then fp_sign x
      else fp_sign x \<and> \<not> fp_sign y)"

definition one_unit :: nat where
  "one_unit = 2 ^ 1074"

definition double_of_nat :: "nat \<Rightarrow> fp" where
  "double_of_nat n = round_fp binary64 False (n * one_unit) 1"

text \<open>
  Conversions between the formats: \<open>2 ^ -149\<close> is \<open>2 ^ 925\<close> units of a double. A NaN
  keeps its sign and becomes the quiet NaN; the sources convert finite values only.
\<close>

definition float_to_double :: "fp \<Rightarrow> fp" where
  "float_to_double x =
     (if isnan binary32 x then Fp (fp_sign x) 2047 (2 ^ 51)
      else if \<not> isfinite binary32 x then Fp (fp_sign x) 2047 0
      else round_fp binary64 (fp_sign x) (units binary32 x * 2 ^ 925) 1)"

definition double_to_float :: "fp \<Rightarrow> fp" where
  "double_to_float x =
     (if isnan binary64 x then Fp (fp_sign x) 255 (2 ^ 22)
      else if \<not> isfinite binary64 x then Fp (fp_sign x) 255 0
      else round_fp binary32 (fp_sign x) (units binary64 x) (2 ^ 925))"

text \<open>Division and multiplication of finite doubles, the divisor not zero.\<close>

definition double_div :: "fp \<Rightarrow> fp \<Rightarrow> fp" where
  "double_div x y =
     round_fp binary64 (fp_sign x \<noteq> fp_sign y) (units binary64 x * one_unit) (units binary64 y)"

definition double_mul :: "fp \<Rightarrow> fp \<Rightarrow> fp" where
  "double_mul x y =
     round_fp binary64 (fp_sign x \<noteq> fp_sign y) (units binary64 x * units binary64 y) one_unit"

text \<open>The addition of two non-negative finite doubles.\<close>

definition double_add_nonneg :: "fp \<Rightarrow> fp \<Rightarrow> fp" where
  "double_add_nonneg x y = round_fp binary64 False (units binary64 x + units binary64 y) 1"

text \<open>The conversion of a non-negative finite double to an integer: truncation.\<close>

definition double_trunc :: "fp \<Rightarrow> nat" where
  "double_trunc x = units binary64 x div one_unit"

text \<open>Literals of the sources, and the largest finite float.\<close>

definition double_0_1 :: fp where
  "double_0_1 = Fp False 1019 2702159776422298"

definition double_240 :: fp where
  "double_240 = Fp False 1030 3940649673949184"

definition double_1000 :: fp where
  "double_1000 = Fp False 1032 4292493394837504"

definition double_1e9 :: fp where
  "double_1e9 = Fp False 1052 3885008372629504"

definition double_1e_12 :: fp where
  "double_1e_12 = Fp False 983 448160529771025"

definition float_max :: fp where
  "float_max = Fp False 254 8388607"

section \<open>Lemmas on rounding\<close>

lemma bit_length_0 [simp]: "bit_length 0 = 0"
  by (simp add: bit_length.simps)

lemma bit_length_unique: "2 ^ k \<le> n \<Longrightarrow> n < 2 ^ Suc k \<Longrightarrow> bit_length n = Suc k"
proof (induction k arbitrary: n)
  case 0
  then have "n = 1" by simp
  then show ?case by (simp add: bit_length.simps)
next
  case (Suc k)
  then have "2 ^ k \<le> n div 2" and "n div 2 < 2 ^ Suc k" and "n \<noteq> 0" by auto
  with Suc.IH [of "n div 2"] show ?case by (subst bit_length.simps) simp
qed

lemma bit_length_bounds:
  assumes "0 < n"
  obtains k where "bit_length n = Suc k" "2 ^ k \<le> n" "n < 2 ^ Suc k"
proof -
  have "\<exists>k. 2 ^ k \<le> n \<and> n < 2 ^ Suc k"
  proof -
    have "n < 2 ^ n" by (rule less_exp)
    then have ex: "\<exists>j. n < 2 ^ j" ..
    define j where "j = (LEAST j. n < 2 ^ j)"
    have j: "n < 2 ^ j" unfolding j_def using ex by (rule LeastI_ex)
    then obtain k where k: "j = Suc k" using assms by (cases j) auto
    have "\<not> n < 2 ^ k" using not_less_Least [of k "\<lambda>j. n < 2 ^ j"] k by (simp add: j_def)
    then show ?thesis using j k by (auto simp: not_less)
  qed
  then show ?thesis using bit_length_unique that by blast
qed

lemma bit_length_le: "n < 2 ^ m \<Longrightarrow> bit_length n \<le> m"
proof (cases "n = 0")
  case False
  assume n: "n < 2 ^ m"
  from False obtain k where k: "bit_length n = Suc k" "2 ^ k \<le> n" by (auto elim: bit_length_bounds)
  then have "(2::nat) ^ k < 2 ^ m" using n by linarith
  then show ?thesis using k(1) by (simp add: power_strict_increasing_iff)
qed simp

lemma round_ratio_exact:
  assumes "0 < d" and "t < 2 ^ (p + 1)" and "q = 0 \<or> 2 ^ p \<le> t"
  shows "round_ratio p (t * 2 ^ q * d) d = (q, t)"
proof -
  have div: "t * 2 ^ q * d div d = t * 2 ^ q" using assms(1) by simp
  have "bit_length (t * 2 ^ q) - (p + 1) = q"
  proof (cases "2 ^ p \<le> t")
    case True
    then have "2 ^ (p + q) \<le> t * 2 ^ q" by (simp add: power_add)
    moreover have "t * 2 ^ q < 2 ^ (p + 1) * 2 ^ q" using assms(2) by simp
    then have "t * 2 ^ q < 2 ^ Suc (p + q)" by (simp add: power_add)
    ultimately have "bit_length (t * 2 ^ q) = Suc (p + q)" by (rule bit_length_unique)
    then show ?thesis by simp
  next
    case False
    with assms have "q = 0" by simp
    then show ?thesis using bit_length_le [OF assms(2)] by simp
  qed
  moreover have "t * 2 ^ q * d div (d * 2 ^ q) = t" and "t * 2 ^ q * d mod (d * 2 ^ q) = 0"
    using assms(1) by (simp_all add: mult.assoc mult.commute [of "2 ^ q" d])
  ultimately show ?thesis using assms(1,2) by (simp add: round_ratio_def Let_def div)
qed

text \<open>A number that fits the significand is rounded to itself.\<close>

lemma round_ratio_representable:
  assumes "t < 2 ^ (p + 1)" and "n = t * 2 ^ k"
  obtains q u where "round_ratio p n 1 = (q, u)" "u * 2 ^ q = n" "u < 2 ^ (p + 1)"
    "q = 0 \<or> 2 ^ p \<le> u" "q \<le> k"
proof (cases "t = 0")
  case True
  have "round_ratio p (0 * 2 ^ 0 * 1) 1 = (0, 0)" by (rule round_ratio_exact) simp_all
  then show ?thesis using True assms(2) that [of 0 0] by simp
next
  case False
  then obtain b where b: "bit_length t = Suc b" "2 ^ b \<le> t" "t < 2 ^ Suc b"
    by (auto elim: bit_length_bounds)
  have "(2::nat) ^ b < 2 ^ (p + 1)" using b(2) assms(1) by linarith
  then have "b < p + 1" by (rule power_less_imp_less_exp [rotated]) simp
  then have bp: "b \<le> p" by simp
  show ?thesis
  proof (cases "k \<le> p - b")
    case True
    have "t * 2 ^ k < 2 ^ Suc b * 2 ^ k" using b(3) by simp
    also have "\<dots> = 2 ^ (Suc b + k)" by (simp add: power_add)
    also have "\<dots> \<le> 2 ^ (p + 1)" using True bp by (intro power_increasing) auto
    finally have "n < 2 ^ (p + 1)" using assms(2) by simp
    then have "round_ratio p (n * 2 ^ 0 * 1) 1 = (0, n)" by (intro round_ratio_exact) simp_all
    then show ?thesis using that [of 0 n] \<open>n < 2 ^ (p + 1)\<close> by simp
  next
    case False
    define q where "q = k - (p - b)"
    define u where "u = t * 2 ^ (p - b)"
    have k: "k = (p - b) + q" using False by (simp add: q_def)
    have n: "n = u * 2 ^ q * 1" by (simp add: u_def assms(2) k power_add)
    have "2 ^ b * 2 ^ (p - b) \<le> u" using b(2) by (simp add: u_def)
    then have lo: "2 ^ p \<le> u" using bp by (simp flip: power_add)
    have "u < 2 ^ Suc b * 2 ^ (p - b)" using b(3) by (simp add: u_def)
    also have "2 ^ Suc b * 2 ^ (p - b) = (2::nat) ^ (Suc b + (p - b))" by (rule power_add [symmetric])
    also have "Suc b + (p - b) = p + 1" using bp by simp
    finally have hi: "u < 2 ^ (p + 1)" .
    have "round_ratio p n 1 = (q, u)" unfolding n using hi lo by (intro round_ratio_exact) simp_all
    then show ?thesis using that [of q u] n lo hi by (simp add: q_def)
  qed
qed

lemma pack_significand:
  assumes "t < 2 ^ (mant_bits F + 1)" and "q = 0 \<or> 2 ^ mant_bits F \<le> t"
    and "q + 1 < expo_max F"
  shows "units F (pack F s (q, t)) = t * 2 ^ q" "isfinite F (pack F s (q, t))"
    "fp_sign (pack F s (q, t)) = s" "wf_fp F (pack F s (q, t))"
  using assms by (auto simp: pack_def units_def isfinite_def wf_fp_def)

lemma units_significand:
  assumes "wf_fp F x" and "isfinite F x"
  obtains q t where "units F x = t * 2 ^ q" "t < 2 ^ (mant_bits F + 1)"
    "q = 0 \<or> 2 ^ mant_bits F \<le> t" "q + 1 < expo_max F \<or> fp_expo x = 0 \<and> q = 0"
    "pack F (fp_sign x) (q, t) = x"
proof (cases "fp_expo x = 0")
  case True
  then show ?thesis using that [of "fp_mant x" 0] assms
    by (cases x) (auto simp: units_def wf_fp_def pack_def)
next
  case False
  then show ?thesis using that [of "2 ^ mant_bits F + fp_mant x" "fp_expo x - 1"] assms
    by (cases x) (auto simp: units_def wf_fp_def pack_def isfinite_def)
qed

text \<open>
  Widening a finite float to a double is exact, and narrowing the result gives the same
  float back, bit for bit.
\<close>

lemma float_to_double_exact:
  assumes "wf_fp binary32 x" and "isfinite binary32 x"
  shows "units binary64 (float_to_double x) = units binary32 x * 2 ^ 925"
    "isfinite binary64 (float_to_double x)" "fp_sign (float_to_double x) = fp_sign x"
    "wf_fp binary64 (float_to_double x)"
proof -
  from assms obtain q t where qt: "units binary32 x = t * 2 ^ q" "t < 2 ^ 24" "q \<le> 253"
    by (rule units_significand) (auto simp: binary32_def)
  have "t < 2 ^ (52 + 1)" using qt(2) by simp
  then obtain q' u where qu: "round_ratio 52 (units binary32 x * 2 ^ 925) 1 = (q', u)"
      "u * 2 ^ q' = units binary32 x * 2 ^ 925" "u < 2 ^ (52 + 1)" "q' = 0 \<or> 2 ^ 52 \<le> u"
      "q' \<le> q + 925"
    by (rule round_ratio_representable [of t 52 "units binary32 x * 2 ^ 925" "q + 925"])
      (simp_all add: qt(1) power_add)
  have w: "float_to_double x = pack binary64 (fp_sign x) (q', u)"
    using assms qu(1) by (simp add: float_to_double_def round_fp_def binary64_def isnan_def isfinite_def)
  have small: "q' + 1 < 2047" using qu(5) qt(3) by simp
  note sig = pack_significand [of u binary64 q' "fp_sign x"]
  show "units binary64 (float_to_double x) = units binary32 x * 2 ^ 925"
    "isfinite binary64 (float_to_double x)" "fp_sign (float_to_double x) = fp_sign x"
    "wf_fp binary64 (float_to_double x)"
    unfolding w using sig qu small by (simp_all add: binary64_def)
qed

lemma double_to_float_to_double:
  assumes "wf_fp binary32 x" and "isfinite binary32 x"
  shows "double_to_float (float_to_double x) = x"
proof -
  note wide = float_to_double_exact [OF assms]
  from assms obtain q t where qt: "units binary32 x = t * 2 ^ q" "t < 2 ^ (23 + 1)"
      "q = 0 \<or> 2 ^ 23 \<le> t" "pack binary32 (fp_sign x) (q, t) = x"
    by (rule units_significand) (auto simp: binary32_def)
  have "round_ratio 23 (t * 2 ^ q * 2 ^ 925) (2 ^ 925) = (q, t)"
    using qt(2,3) by (intro round_ratio_exact) simp_all
  moreover have "\<not> isnan binary64 (float_to_double x)"
    using wide(2) by (simp add: isnan_def isfinite_def)
  ultimately show ?thesis using wide qt(1,4)
    by (simp add: double_to_float_def round_fp_def) (simp add: binary32_def)
qed

text \<open>
  A finite double that passes the range check against the largest float narrows to a finite
  float: the rounding cannot reach infinity.
\<close>

lemma wf_float_max: "wf_fp binary32 float_max" "isfinite binary32 float_max"
  by (simp_all add: float_max_def wf_fp_def isfinite_def binary32_def)

lemma units_float_max: "units binary32 float_max = (2 ^ 24 - 1) * 2 ^ 253"
  by (simp add: float_max_def units_def binary32_def)

definition fp_neg :: "fp \<Rightarrow> fp" where
  "fp_neg x = Fp (\<not> fp_sign x) (fp_expo x) (fp_mant x)"

lemma round_ratio_below:
  assumes d: "0 < d" and n: "n \<le> (2 ^ (p + 1) - 1) * 2 ^ k * d"
  obtains q t where "round_ratio p n d = (q, t)" "t < 2 ^ (p + 1)" "q \<le> k"
    "q = 0 \<or> 2 ^ p \<le> t"
proof -
  define q where "q = bit_length (n div d) - (p + 1)"
  define t where "t = n div (d * 2 ^ q)"
  define r where "r = n mod (d * 2 ^ q)"
  define t' where "t' = (if 2 * r > d * 2 ^ q \<or> (2 * r = d * 2 ^ q \<and> odd t) then t + 1 else t)"
  have rr: "round_ratio p n d = (if t' = 2 ^ (p + 1) then (q + 1, 2 ^ p) else (q, t'))"
    by (simp add: round_ratio_def Let_def q_def t_def r_def t'_def)
  have t_div: "t = n div d div 2 ^ q" by (simp add: t_def div_mult2_eq)
  have "n div d \<le> (2 ^ (p + 1) - 1) * 2 ^ k"
    using div_le_mono [OF n, of d] d by simp
  also have "\<dots> < 2 ^ (p + 1) * 2 ^ k" by simp
  finally have "n div d < 2 ^ (p + 1 + k)" by (simp add: power_add)
  then have qk: "q \<le> k" using bit_length_le [of "n div d" "p + 1 + k"] by (simp add: q_def)
  have t_hi: "t < 2 ^ (p + 1)" and t_lo: "q = 0 \<or> 2 ^ p \<le> t"
  proof -
    show "t < 2 ^ (p + 1)"
    proof (cases "n div d = 0")
      case True
      then show ?thesis by (simp add: t_div)
    next
      case False
      then obtain b where b: "bit_length (n div d) = Suc b" "n div d < 2 ^ Suc b"
        using bit_length_bounds [of "n div d"] by auto
      have "n div d < 2 ^ (p + 1) * 2 ^ q"
      proof -
        have "Suc b \<le> p + 1 + q" using b(1) by (simp add: q_def)
        then have "(2::nat) ^ Suc b \<le> 2 ^ (p + 1 + q)" by (rule power_increasing) simp
        then show ?thesis using b(2) by (simp add: power_add)
      qed
      then show ?thesis by (simp add: t_div less_mult_imp_div_less)
    qed
    show "q = 0 \<or> 2 ^ p \<le> t"
    proof (cases "q = 0")
      case False
      have "n div d \<noteq> 0"
      proof
        assume "n div d = 0"
        with False show False by (simp add: q_def)
      qed
      then obtain b where b: "bit_length (n div d) = Suc b" "2 ^ b \<le> n div d"
        using bit_length_bounds [of "n div d"] by auto
      have "b = p + q" using b(1) False by (simp add: q_def)
      then have "2 ^ p * 2 ^ q \<le> n div d" using b(2) by (simp add: power_add)
      then have "2 ^ p * 2 ^ q div 2 ^ q \<le> t" unfolding t_div by (rule div_le_mono)
      then show ?thesis by simp
    qed simp
  qed
  show ?thesis
  proof (cases "t' = 2 ^ (p + 1)")
    case False
    then have "t' < 2 ^ (p + 1)" using t_hi by (auto simp: t'_def split: if_splits)
    moreover have "q = 0 \<or> 2 ^ p \<le> t'" using t_lo by (auto simp: t'_def)
    ultimately show ?thesis using that rr False qk by simp
  next
    case True
    have "q \<noteq> k"
    proof
      assume "q = k"
      have pos: "0 < d * 2 ^ q" using d by simp
      have t: "t = 2 ^ (p + 1) - 1" and "d * 2 ^ q \<le> 2 * r"
        using True t_hi by (auto simp: t'_def split: if_splits)
      then have r: "0 < r" using pos by linarith
      have "n = t * (d * 2 ^ q) + r" by (simp only: t_def r_def div_mult_mod_eq)
      then have "(2 ^ (p + 1) - 1) * 2 ^ k * d < n"
        using r by (simp add: t \<open>q = k\<close> ac_simps)
      with n show False by simp
    qed
    then show ?thesis using that [of "q + 1" "2 ^ p"] rr True qk by simp
  qed
qed

lemma wf_round_fp:
  assumes "0 < d" and "0 < expo_max F"
  shows "wf_fp F (round_fp F s n d)"
proof -
  let ?p = "mant_bits F"
  define k where "k = bit_length (n div d)"
  have "n div d < 2 ^ k"
    unfolding k_def by (cases "n div d = 0") (simp, metis bit_length_bounds neq0_conv)
  then have "n < 2 ^ k * d" using assms(1) by (simp add: div_less_iff_less_mult)
  also have "\<dots> \<le> (2 ^ (?p + 1) - 1) * 2 ^ k * d"
  proof -
    have "(1::nat) \<le> 2 ^ ?p" by simp
    then have "(1::nat) \<le> 2 ^ (?p + 1) - 1" unfolding power_add power_one_right by linarith
    then have "(1::nat) * (2 ^ k * d) \<le> (2 ^ (?p + 1) - 1) * (2 ^ k * d)"
      by (rule mult_le_mono1)
    then show ?thesis by (simp add: mult.assoc)
  qed
  finally have "n \<le> (2 ^ (?p + 1) - 1) * 2 ^ k * d" by simp
  then obtain q t where "round_ratio ?p n d = (q, t)" "t < 2 ^ (?p + 1)"
    using round_ratio_below [OF assms(1)] by metis
  then show ?thesis using assms(2) by (auto simp: round_fp_def pack_def wf_fp_def)
qed

lemma wf_round_fp_binary64: "0 < d \<Longrightarrow> wf_fp binary64 (round_fp binary64 s n d)"
  by (rule wf_round_fp) (simp_all add: binary64_def)

lemma units_le_float_max:
  assumes "wf_fp binary32 x" and "isfinite binary32 x"
  shows "units binary32 x \<le> units binary32 float_max"
proof -
  obtain q t where "units binary32 x = t * 2 ^ q" "t < 2 ^ (mant_bits binary32 + 1)"
    and "q + 1 < expo_max binary32 \<or> fp_expo x = 0 \<and> q = 0"
    using units_significand [OF assms] by metis
  then have "units binary32 x = t * 2 ^ q" "t \<le> 2 ^ 24 - 1" "q \<le> 253"
    by (auto simp: binary32_def)
  then show ?thesis unfolding units_float_max
    using mult_le_mono [OF \<open>t \<le> 2 ^ 24 - 1\<close> power_increasing [of q 253 "2::nat"]] by simp
qed

lemma float_range_iff:
  assumes "isfinite binary64 x"
  shows "\<not> fp_less binary64 x (fp_neg (float_to_double float_max)) \<and>
      \<not> fp_less binary64 (float_to_double float_max) x \<longleftrightarrow>
    units binary64 x \<le> units binary64 (float_to_double float_max)"
proof -
  note mx = float_to_double_exact [OF wf_float_max]
  let ?m = "float_to_double float_max"
  have neg: "units binary64 (fp_neg ?m) = units binary64 ?m" "isfinite binary64 (fp_neg ?m)"
      "fp_sign (fp_neg ?m)" "\<not> isnan binary64 (fp_neg ?m)" "\<not> isnan binary64 ?m"
    using mx by (auto simp: fp_neg_def units_def isfinite_def isnan_def float_max_def)
  have nan: "\<not> isnan binary64 x" using assms by (simp add: isnan_def isfinite_def)
  show ?thesis using assms neg nan mx(2,3)
    by (auto simp: fp_less_def signed_units_def float_max_def)
qed

lemma float_range_finite:
  assumes "isfinite binary64 x"
    and "\<not> fp_less binary64 x (fp_neg (float_to_double float_max))"
    and "\<not> fp_less binary64 (float_to_double float_max) x"
  shows "isfinite binary32 (double_to_float x)" "wf_fp binary32 (double_to_float x)"
proof -
  note mx = float_to_double_exact [OF wf_float_max]
  let ?m = "float_to_double float_max"
  have nan: "\<not> isnan binary64 x" using assms(1) by (simp add: isnan_def isfinite_def)
  have "units binary64 x \<le> units binary64 ?m" using assms float_range_iff by blast
  then have "units binary64 x \<le> (2 ^ (23 + 1) - 1) * 2 ^ 253 * 2 ^ 925"
    by (simp add: mx(1) units_float_max)
  then obtain q t where "round_ratio 23 (units binary64 x) (2 ^ 925) = (q, t)"
      "t < 2 ^ (23 + 1)" "q \<le> 253" "q = 0 \<or> 2 ^ 23 \<le> t"
    by (rule round_ratio_below [rotated]) simp_all
  moreover from this have "double_to_float x = pack binary32 (fp_sign x) (q, t)"
    using nan assms(1) by (simp add: double_to_float_def round_fp_def binary32_def)
  ultimately show "isfinite binary32 (double_to_float x)" "wf_fp binary32 (double_to_float x)"
    using pack_significand [of t binary32 q "fp_sign x"] by (simp_all add: binary32_def)
qed

text \<open>The literals are the correctly rounded values of the decimals in the sources.\<close>

lemma double_of_nat_significand:
  assumes "n * one_unit = t * 2 ^ q" and "2 ^ 52 \<le> t" and "t < 2 ^ 53" and "q < 2046"
  shows "double_of_nat n = Fp False (q + 1) (t - 2 ^ 52)"
proof -
  have "round_ratio 52 (t * 2 ^ q * 1) 1 = (q, t)"
    using assms(2,3) by (intro round_ratio_exact) simp_all
  then show ?thesis
    using assms by (simp add: double_of_nat_def round_fp_def binary64_def pack_def)
qed

lemma double_literals:
  "double_of_nat 240 = double_240" "double_of_nat 1000 = double_1000"
  "double_of_nat 1000000000 = double_1e9"
  using double_of_nat_significand [of 240 8444249301319680 1029]
    double_of_nat_significand [of 1000 8796093022208000 1031]
    double_of_nat_significand [of 1000000000 8388608000000000 1051]
  by (simp_all add: one_unit_def double_240_def double_1000_def double_1e9_def)

end
