(* ===== verification/Json_Value.thy ===== *)
theory Json_Value
  imports Ieee_Float
begin

text \<open>
  JSON values as the adapter sees them through JsonCpp. The value kinds are those of
  \<^verbatim>\<open>Json::ValueType\<close>; the members of an object are listed in the order in which
  \<^verbatim>\<open>getMemberNames\<close> enumerates them. JsonCpp itself is not part of the sources: its
  numeric queries and conversions, whose behaviour on reals is the library's own, are the
  record \<open>jsoncpp\<close>, an argument of every definition that uses them. The locale
  \<open>jsoncpp_numbers\<close> states what the library documents of them.
\<close>

section \<open>Values\<close>

datatype json =
    JNull
  | JInt int
  | JUInt nat
  | JReal fp
  | JString string
  | JBool bool
  | JArray "json list"
  | JObject "(string \<times> json) list"

fun isString :: "json \<Rightarrow> bool" where
  "isString (JString s) = True" | "isString _ = False"

fun isBool :: "json \<Rightarrow> bool" where
  "isBool (JBool b) = True" | "isBool _ = False"

fun isArray :: "json \<Rightarrow> bool" where
  "isArray (JArray xs) = True" | "isArray _ = False"

fun isObject :: "json \<Rightarrow> bool" where
  "isObject (JObject ms) = True" | "isObject _ = False"

fun json_members :: "json \<Rightarrow> (string \<times> json) list" where
  "json_members (JObject ms) = ms" | "json_members _ = []"

definition getMemberNames :: "json \<Rightarrow> string list" where
  "getMemberNames v = map fst (json_members v)"

definition json_member :: "json \<Rightarrow> string \<Rightarrow> json option" where
  "json_member v k = map_of (json_members v) k"

definition isMember :: "json \<Rightarrow> string \<Rightarrow> bool" where
  "isMember v k \<longleftrightarrow> json_member v k \<noteq> None"

text \<open>\<^verbatim>\<open>operator[]\<close> of a constant value: null where there is no such member.\<close>

definition json_get :: "json \<Rightarrow> string \<Rightarrow> json" where
  "json_get v k = (case json_member v k of None \<Rightarrow> JNull | Some x \<Rightarrow> x)"

text \<open>The real numbers of a value are doubles.\<close>

fun wf_json :: "json \<Rightarrow> bool" where
  "wf_json (JReal d) \<longleftrightarrow> wf_fp binary64 d"
| "wf_json (JArray xs) \<longleftrightarrow> (\<forall>x \<in> set xs. wf_json x)"
| "wf_json (JObject ms) \<longleftrightarrow> (\<forall>(k, x) \<in> set ms. wf_json x)"
| "wf_json _ \<longleftrightarrow> True"

text \<open>Member names are ordered by their bytes.\<close>

fun string_less :: "string \<Rightarrow> string \<Rightarrow> bool" where
  "string_less [] [] = False"
| "string_less [] (y # ys) = True"
| "string_less (x # xs) [] = False"
| "string_less (x # xs) (y # ys) =
     ((of_char x :: nat) < of_char y \<or> (x = y \<and> string_less xs ys))"

fun insert_member :: "string \<Rightarrow> json \<Rightarrow> (string \<times> json) list \<Rightarrow> (string \<times> json) list" where
  "insert_member k v [] = [(k, v)]"
| "insert_member k v ((k', v') # ms) =
     (if k = k' then (k, v) # ms
      else if string_less k k' then (k, v) # (k', v') # ms
      else (k', v') # insert_member k v ms)"

text \<open>\<^verbatim>\<open>value[key] = x\<close> on an object.\<close>

definition json_set :: "json \<Rightarrow> string \<Rightarrow> json \<Rightarrow> json" where
  "json_set v k x = JObject (insert_member k x (json_members v))"

section \<open>The numeric interface of JsonCpp\<close>

record jsoncpp =
  isIntegral :: "json \<Rightarrow> bool"
  isInt64 :: "json \<Rightarrow> bool"
  isUInt64 :: "json \<Rightarrow> bool"
  isNumeric :: "json \<Rightarrow> bool"
  asInt64 :: "json \<Rightarrow> int result"
  asUInt64 :: "json \<Rightarrow> nat result"
  asDouble :: "json \<Rightarrow> fp result"

definition int64_range :: "int \<Rightarrow> bool" where
  "int64_range i \<longleftrightarrow> - 9223372036854775808 \<le> i \<and> i \<le> 9223372036854775807"

definition uint64_range :: "nat \<Rightarrow> bool" where
  "uint64_range n \<longleftrightarrow> n \<le> 18446744073709551615"

text \<open>
  The documented behaviour: integers convert to the integer types that can represent them,
  the numeric kinds are the integers and the reals, and nothing else is integral.
\<close>

locale jsoncpp_numbers =
  fixes J :: jsoncpp
  assumes integral_int: "int64_range i \<Longrightarrow> isIntegral J (JInt i)"
    and integral_uint: "uint64_range n \<Longrightarrow> isIntegral J (JUInt n)"
    and integral_other: "isIntegral J v \<Longrightarrow>
      (\<exists>i. v = JInt i) \<or> (\<exists>n. v = JUInt n) \<or> (\<exists>d. v = JReal d \<and> isfinite binary64 d)"
    and int64_int: "int64_range i \<Longrightarrow> isInt64 J (JInt i)"
    and uint64_int: "int64_range i \<Longrightarrow> isUInt64 J (JInt i) \<longleftrightarrow> 0 \<le> i"
    and uint64_uint: "uint64_range n \<Longrightarrow> isUInt64 J (JUInt n)"
    and int64_uint: "uint64_range n \<Longrightarrow> isInt64 J (JUInt n) \<longleftrightarrow> int64_range (int n)"
    and as_int64_int: "int64_range i \<Longrightarrow> asInt64 J (JInt i) = Inr i"
    and as_uint64_int: "int64_range i \<Longrightarrow> 0 \<le> i \<Longrightarrow> asUInt64 J (JInt i) = Inr (nat i)"
    and as_uint64_uint: "uint64_range n \<Longrightarrow> asUInt64 J (JUInt n) = Inr n"
    and as_uint64_total: "isUInt64 J v \<Longrightarrow> \<exists>n. asUInt64 J v = Inr n \<and> uint64_range n"
    and as_int64_total: "isIntegral J v \<Longrightarrow> \<not> isUInt64 J v \<Longrightarrow>
      \<exists>i. asInt64 J v = Inr i \<and> int64_range i"
    and numeric_kinds: "isNumeric J v \<longleftrightarrow>
      (\<exists>i. v = JInt i) \<or> (\<exists>n. v = JUInt n) \<or> (\<exists>d. v = JReal d)"
    and as_double_real: "asDouble J (JReal d) = Inr d"
    and as_double_int: "\<exists>d. asDouble J (JInt i) = Inr d \<and> wf_fp binary64 d"
    and as_double_uint: "\<exists>d. asDouble J (JUInt n) = Inr d \<and> wf_fp binary64 d"

text \<open>
  A library with that behaviour: reals are integral when they are finite whole numbers in
  the range of the integer types.
\<close>

definition real_whole :: "fp \<Rightarrow> int option" where
  "real_whole d =
     (if isfinite binary64 d \<and> units binary64 d mod one_unit = 0
      then Some (signed_units binary64 d div int one_unit) else None)"

definition json_whole :: "json \<Rightarrow> int option" where
  "json_whole v =
     (case v of JInt i \<Rightarrow> Some i | JUInt n \<Rightarrow> Some (int n) | JReal d \<Rightarrow> real_whole d | _ \<Rightarrow> None)"

definition jsoncpp_reference :: jsoncpp where
  "jsoncpp_reference =
     \<lparr>isIntegral = (\<lambda>v. case json_whole v of
          None \<Rightarrow> False | Some i \<Rightarrow> int64_range i \<or> 0 \<le> i \<and> uint64_range (nat i)),
      isInt64 = (\<lambda>v. case json_whole v of None \<Rightarrow> False | Some i \<Rightarrow> int64_range i),
      isUInt64 = (\<lambda>v. case json_whole v of None \<Rightarrow> False | Some i \<Rightarrow> 0 \<le> i \<and> uint64_range (nat i)),
      isNumeric = (\<lambda>v. case v of JInt i \<Rightarrow> True | JUInt n \<Rightarrow> True | JReal d \<Rightarrow> True | _ \<Rightarrow> False),
      asInt64 = (\<lambda>v. case json_whole v of
          None \<Rightarrow> stdError ''Value is not convertible to Int64.'' | Some i \<Rightarrow> Inr i),
      asUInt64 = (\<lambda>v. case json_whole v of
          None \<Rightarrow> stdError ''Value is not convertible to UInt64.'' | Some i \<Rightarrow> Inr (nat i)),
      asDouble = (\<lambda>v. case v of
          JInt i \<Rightarrow> Inr (round_fp binary64 (i < 0) (nat \<bar>i\<bar> * one_unit) 1)
        | JUInt n \<Rightarrow> Inr (double_of_nat n)
        | JReal d \<Rightarrow> Inr d
        | _ \<Rightarrow> stdError ''Value is not convertible to double.'')\<rparr>"

section \<open>Lemmas\<close>

lemma isString_iff: "isString v \<longleftrightarrow> (\<exists>s. v = JString s)"
  by (cases v) auto

lemma isBool_iff: "isBool v \<longleftrightarrow> (\<exists>b. v = JBool b)"
  by (cases v) auto

lemma isArray_iff: "isArray v \<longleftrightarrow> (\<exists>xs. v = JArray xs)"
  by (cases v) auto

lemma isObject_iff: "isObject v \<longleftrightarrow> (\<exists>ms. v = JObject ms)"
  by (cases v) auto

lemma map_of_insert_member: "map_of (insert_member k v ms) = (map_of ms)(k \<mapsto> v)"
  by (induction k v ms rule: insert_member.induct) (auto simp: fun_eq_iff)

lemma keys_insert_member: "fst ` set (insert_member k v ms) = insert k (fst ` set ms)"
  by (induction k v ms rule: insert_member.induct) auto

lemma json_members_set [simp]: "json_members (json_set v k x) = insert_member k x (json_members v)"
  by (simp add: json_set_def)

lemma json_member_set: "json_member (json_set v k x) k' = (if k' = k then Some x else json_member v k')"
  by (simp add: json_member_def map_of_insert_member)

lemma isMember_iff: "isMember v k \<longleftrightarrow> k \<in> set (getMemberNames v)"
  by (simp add: isMember_def json_member_def getMemberNames_def map_of_eq_None_iff)

lemma wf_json_get: "wf_json v \<Longrightarrow> wf_json (json_get v k)"
  by (cases v) (auto simp: json_get_def json_member_def split: option.splits dest!: map_of_SomeD)

interpretation reference_numbers: jsoncpp_numbers jsoncpp_reference
  by unfold_locales
    (auto simp: jsoncpp_reference_def json_whole_def int64_range_def uint64_range_def real_whole_def
      double_of_nat_def wf_round_fp_binary64
      split: json.splits option.splits if_splits)

end
