(* ===== verification/Program_Monad.thy ===== *)
theory Program_Monad
  imports Adapter_Prelude
begin

text \<open>
  The stateful code of the adapter. A program maps a state to a result (a value or a thrown
  exception) and a new state; \<open>None\<close> means that it has not returned within the rounds its
  loops were given. The theory has the sequencing of the language (statements, \<^verbatim>\<open>throw\<close>,
  \<^verbatim>\<open>try\<close>/\<^verbatim>\<open>catch\<close>, destructors, loops), weakest preconditions for reasoning about it, and
  the two notions a loop bound needs: more rounds never change a result, and a program
  returns when some number of rounds is enough.
\<close>

section \<open>Programs\<close>

type_synonym ('s, 'a) prog = "'s \<Rightarrow> ('a result \<times> 's) option"

definition returnP :: "'a \<Rightarrow> ('s, 'a) prog" where
  "returnP x = (\<lambda>s. Some (Inr x, s))"

text \<open>A pure computation that may throw.\<close>

definition liftP :: "'a result \<Rightarrow> ('s, 'a) prog" where
  "liftP r = (\<lambda>s. Some (r, s))"

definition bindP :: "('s, 'a) prog \<Rightarrow> ('a \<Rightarrow> ('s, 'b) prog) \<Rightarrow> ('s, 'b) prog" where
  "bindP m f = (\<lambda>s. case m s of
      None \<Rightarrow> None
    | Some (Inl e, s') \<Rightarrow> Some (Inl e, s')
    | Some (Inr x, s') \<Rightarrow> f x s')"

definition thenP :: "('s, 'a) prog \<Rightarrow> ('s, 'b) prog \<Rightarrow> ('s, 'b) prog" where
  "thenP m n = bindP m (\<lambda>_. n)"

definition getP :: "('s \<Rightarrow> 'a) \<Rightarrow> ('s, 'a) prog" where
  "getP f = (\<lambda>s. Some (Inr (f s), s))"

definition modifyP :: "('s \<Rightarrow> 's) \<Rightarrow> ('s, unit) prog" where
  "modifyP g = (\<lambda>s. Some (Inr (), g s))"

text \<open>A \<^verbatim>\<open>try\<close> block and its handlers; a handler rethrows by throwing what it caught.\<close>

definition catchP :: "('s, 'a) prog \<Rightarrow> (exn \<Rightarrow> ('s, 'a) prog) \<Rightarrow> ('s, 'a) prog" where
  "catchP m h = (\<lambda>s. case m s of
      None \<Rightarrow> None
    | Some (Inl e, s') \<Rightarrow> h e s'
    | Some (Inr x, s') \<Rightarrow> Some (Inr x, s'))"

text \<open>A destructor runs when its scope is left, normally or by an exception.\<close>

definition finallyP :: "('s, 'a) prog \<Rightarrow> ('s, unit) prog \<Rightarrow> ('s, 'a) prog" where
  "finallyP m d = (\<lambda>s. case m s of
      None \<Rightarrow> None
    | Some (r, s') \<Rightarrow> (case d s' of None \<Rightarrow> None | Some (_, s'') \<Rightarrow> Some (r, s'')))"

text \<open>
  A loop with the loop variables \<open>a\<close>: a round either goes round again with new values or
  leaves the loop with a result.
\<close>

datatype ('a, 'b) flow = Again 'a | Done 'b

fun iterP :: "nat \<Rightarrow> ('a \<Rightarrow> ('s, ('a, 'b) flow) prog) \<Rightarrow> 'a \<Rightarrow> ('s, 'b) prog" where
  "iterP 0 f a = (\<lambda>s. None)"
| "iterP (Suc n) f a =
     bindP (f a) (\<lambda>r. case r of Again a' \<Rightarrow> iterP n f a' | Done b \<Rightarrow> returnP b)"

lemmas prog_defs = returnP_def liftP_def bindP_def thenP_def getP_def modifyP_def catchP_def
  finallyP_def

section \<open>Weakest preconditions\<close>

text \<open>
  What has to hold of a state for a returning program to establish \<open>Q\<close> of its value, or
  \<open>E\<close> of its exception.
\<close>

definition wp :: "('s, 'a) prog \<Rightarrow> ('a \<Rightarrow> 's \<Rightarrow> bool) \<Rightarrow> (exn \<Rightarrow> 's \<Rightarrow> bool) \<Rightarrow> 's \<Rightarrow> bool" where
  "wp m Q E s = (case m s of
      None \<Rightarrow> True
    | Some (Inl e, s') \<Rightarrow> E e s'
    | Some (Inr x, s') \<Rightarrow> Q x s')"

named_theorems wp_simps

lemma wp_return [wp_simps]: "wp (returnP x) Q E = Q x"
  by (simp add: fun_eq_iff wp_def returnP_def)

lemma wp_lift [wp_simps]: "wp (liftP r) Q E = (\<lambda>s. case r of Inl e \<Rightarrow> E e s | Inr x \<Rightarrow> Q x s)"
  by (simp add: fun_eq_iff wp_def liftP_def split: sum.splits)

lemma wp_bind [wp_simps]: "wp (bindP m f) Q E = wp m (\<lambda>x. wp (f x) Q E) E"
  by (simp add: fun_eq_iff wp_def bindP_def split: option.splits sum.splits prod.splits)

lemma wp_then [wp_simps]: "wp (thenP m n) Q E = wp m (\<lambda>_. wp n Q E) E"
  by (simp add: thenP_def wp_bind)

lemma wp_get [wp_simps]: "wp (getP f) Q E = (\<lambda>s. Q (f s) s)"
  by (simp add: fun_eq_iff wp_def getP_def)

lemma wp_modify [wp_simps]: "wp (modifyP g) Q E = (\<lambda>s. Q () (g s))"
  by (simp add: fun_eq_iff wp_def modifyP_def)

lemma wp_catch [wp_simps]: "wp (catchP m h) Q E = wp m Q (\<lambda>e. wp (h e) Q E)"
  by (simp add: fun_eq_iff wp_def catchP_def split: option.splits sum.splits prod.splits)

lemma wp_finally [wp_simps]:
  "wp (finallyP m d) Q E =
     wp m (\<lambda>x. wp d (\<lambda>_. Q x) (\<lambda>_. Q x)) (\<lambda>e. wp d (\<lambda>_. E e) (\<lambda>_. E e))"
  by (simp add: fun_eq_iff wp_def finallyP_def split: option.splits sum.splits prod.splits)

lemma wp_if [wp_simps]: "wp (if b then m else n) Q E = (\<lambda>s. if b then wp m Q E s else wp n Q E s)"
  by simp

lemma wp_case_option [wp_simps]:
  "wp (case x of None \<Rightarrow> m | Some y \<Rightarrow> f y) Q E =
     (\<lambda>s. case x of None \<Rightarrow> wp m Q E s | Some y \<Rightarrow> wp (f y) Q E s)"
  by (cases x) auto

lemma wp_case_prod [wp_simps]:
  "wp (case x of (a, b) \<Rightarrow> f a b) Q E = (\<lambda>s. case x of (a, b) \<Rightarrow> wp (f a b) Q E s)"
  by (cases x) auto

lemma wp_case_sum [wp_simps]:
  "wp (case x of Inl a \<Rightarrow> f a | Inr b \<Rightarrow> g b) Q E =
     (\<lambda>s. case x of Inl a \<Rightarrow> wp (f a) Q E s | Inr b \<Rightarrow> wp (g b) Q E s)"
  by (cases x) auto

lemma wp_mono:
  assumes "wp m Q E s" and "\<And>x s'. Q x s' \<Longrightarrow> Q' x s'" and "\<And>e s'. E e s' \<Longrightarrow> E' e s'"
  shows "wp m Q' E' s"
  using assms by (auto simp: wp_def split: option.splits sum.splits)

lemma wp_conj: "wp m Q E s \<Longrightarrow> wp m Q' E' s \<Longrightarrow> wp m (\<lambda>x s. Q x s \<and> Q' x s) (\<lambda>e s. E e s \<and> E' e s) s"
  by (auto simp: wp_def split: option.splits sum.splits)

lemma wp_Inr: "wp m Q E s \<Longrightarrow> m s = Some (Inr x, s') \<Longrightarrow> Q x s'"
  by (simp add: wp_def)

lemma wp_Inl: "wp m Q E s \<Longrightarrow> m s = Some (Inl e, s') \<Longrightarrow> E e s'"
  by (simp add: wp_def)

text \<open>The rule for loops: an invariant of the loop variables and the state.\<close>

lemma wp_iter:
  assumes "I a s"
    and "\<And>a s. I a s \<Longrightarrow> wp (f a) (\<lambda>r s'. case r of Again a' \<Rightarrow> I a' s' | Done b \<Rightarrow> Q b s') E s"
  shows "wp (iterP n f a) Q E s"
  using assms(1)
proof (induction n arbitrary: a s)
  case 0
  then show ?case by (simp add: wp_def)
next
  case (Suc n)
  have "wp (f a) (\<lambda>r s'. case r of Again a' \<Rightarrow> I a' s' | Done b \<Rightarrow> Q b s') E s"
    by (rule assms(2) [OF Suc.prems])
  then have "wp (f a) (\<lambda>r. wp (case r of Again a' \<Rightarrow> iterP n f a' | Done b \<Rightarrow> returnP b) Q E) E s"
    by (rule wp_mono) (auto simp: wp_return intro: Suc.IH split: flow.splits)
  then show ?case by (simp add: wp_bind)
qed

section \<open>Total correctness\<close>

text \<open>A program that returns a value within its rounds, and what holds then.\<close>

definition twp :: "('s, 'a) prog \<Rightarrow> ('a \<Rightarrow> 's \<Rightarrow> bool) \<Rightarrow> 's \<Rightarrow> bool" where
  "twp m Q s = (case m s of Some (Inr x, s') \<Rightarrow> Q x s' | _ \<Rightarrow> False)"

lemma twpD: "twp m Q s \<Longrightarrow> \<exists>x s'. m s = Some (Inr x, s') \<and> Q x s'"
  unfolding twp_def by (auto split: option.split_asm prod.split_asm sum.split_asm)

named_theorems twp_simps

lemma twp_return [twp_simps]: "twp (returnP x) Q = Q x"
  by (simp add: fun_eq_iff twp_def returnP_def)

lemma twp_lift [twp_simps]: "twp (liftP (Inr x)) Q = Q x"
  by (simp add: fun_eq_iff twp_def liftP_def)

lemma twp_bind [twp_simps]: "twp (bindP m f) Q = twp m (\<lambda>x. twp (f x) Q)"
  by (simp add: fun_eq_iff twp_def bindP_def split: option.splits sum.splits prod.splits)

lemma twp_then [twp_simps]: "twp (thenP m n) Q = twp m (\<lambda>_. twp n Q)"
  by (simp add: thenP_def twp_bind)

lemma twp_get [twp_simps]: "twp (getP f) Q = (\<lambda>s. Q (f s) s)"
  by (simp add: fun_eq_iff twp_def getP_def)

lemma twp_modify [twp_simps]: "twp (modifyP g) Q = (\<lambda>s. Q () (g s))"
  by (simp add: fun_eq_iff twp_def modifyP_def)

lemma twp_catch: "twp m Q s \<Longrightarrow> twp (catchP m h) Q s"
  by (auto simp: twp_def catchP_def split: option.splits sum.splits)

lemma twp_finally:
  assumes "twp m (\<lambda>x. twp d (\<lambda>_. Q x)) s"
  shows "twp (finallyP m d) Q s"
proof -
  obtain x s' where m: "m s = Some (Inr x, s')" "twp d (\<lambda>_. Q x) s'" using twpD [OF assms] by blast
  obtain y s'' where "d s' = Some (Inr y, s'')" "Q x s''" using twpD [OF m(2)] by blast
  with m(1) show ?thesis by (simp add: twp_def finallyP_def)
qed

lemma twp_if [twp_simps]: "twp (if b then m else n) Q = (\<lambda>s. if b then twp m Q s else twp n Q s)"
  by simp

lemma twp_mono: "twp m Q s \<Longrightarrow> (\<And>x s'. Q x s' \<Longrightarrow> Q' x s') \<Longrightarrow> twp m Q' s"
  by (auto simp: twp_def split: option.splits sum.splits)

text \<open>A loop whose rounds bring a measure down below the rounds it has.\<close>

lemma twp_iter:
  assumes "I a s" and "measure_of a < n"
    and "\<And>a s. I a s \<Longrightarrow>
      twp (f a) (\<lambda>r s'. case r of Again a' \<Rightarrow> I a' s' \<and> (measure_of a' :: nat) < measure_of a | Done b \<Rightarrow> Q b s') s"
  shows "twp (iterP n f a) Q s"
  using assms(1,2)
proof (induction n arbitrary: a s)
  case 0
  then show ?case by simp
next
  case (Suc n)
  have "twp (f a) (\<lambda>r. twp (case r of Again a' \<Rightarrow> iterP n f a' | Done b \<Rightarrow> returnP b) Q) s"
    by (rule twp_mono [OF assms(3) [OF Suc.prems(1)]])
      (use Suc in \<open>auto simp: twp_return split: flow.splits\<close>)
  then show ?case by (simp add: twp_bind)
qed

section \<open>Enough rounds\<close>

text \<open>A program that is given more rounds for its loops keeps the result it has.\<close>

definition mono_fuel :: "(nat \<Rightarrow> ('s, 'a) prog) \<Rightarrow> bool" where
  "mono_fuel p \<longleftrightarrow> (\<forall>n n' s r. n \<le> n' \<longrightarrow> p n s = Some r \<longrightarrow> p n' s = Some r)"

text \<open>A program returns from a state if some number of rounds is enough.\<close>

definition returns :: "(nat \<Rightarrow> ('s, 'a) prog) \<Rightarrow> 's \<Rightarrow> bool" where
  "returns p s \<longleftrightarrow> (\<exists>n r. p n s = Some r)"

named_theorems fuel_intros

lemma mono_fuelD: "mono_fuel p \<Longrightarrow> p n s = Some r \<Longrightarrow> n \<le> n' \<Longrightarrow> p n' s = Some r"
  unfolding mono_fuel_def by blast

lemma mono_const [fuel_intros]: "mono_fuel (\<lambda>n. m)"
  by (simp add: mono_fuel_def)

lemma mono_bind [fuel_intros]:
  assumes "mono_fuel p" and "\<And>x. mono_fuel (\<lambda>n. q n x)"
  shows "mono_fuel (\<lambda>n. bindP (p n) (q n))"
  unfolding mono_fuel_def
proof (intro allI impI)
  fix n n' :: nat and s r
  assume le: "n \<le> n'" and "bindP (p n) (q n) s = Some r"
  then obtain r1 s1 where 1: "p n s = Some (r1, s1)"
      and 2: "case r1 of Inl e \<Rightarrow> Some (Inl e, s1) = Some r | Inr x \<Rightarrow> q n x s1 = Some r"
    by (auto simp: bindP_def split: option.splits sum.splits)
  show "bindP (p n') (q n') s = Some r"
  proof (cases r1)
    case (Inl e)
    then show ?thesis using mono_fuelD [OF assms(1) 1 le] 2 by (simp add: bindP_def)
  next
    case (Inr x)
    then have "q n' x s1 = Some r" using mono_fuelD [OF assms(2) _ le] 2 by simp
    then show ?thesis using mono_fuelD [OF assms(1) 1 le] Inr by (simp add: bindP_def)
  qed
qed

lemma mono_then [fuel_intros]: "mono_fuel p \<Longrightarrow> mono_fuel q \<Longrightarrow> mono_fuel (\<lambda>n. thenP (p n) (q n))"
  unfolding thenP_def by (rule mono_bind)

lemma mono_catch [fuel_intros]:
  assumes "mono_fuel p" and "\<And>x. mono_fuel (\<lambda>n. h n x)"
  shows "mono_fuel (\<lambda>n. catchP (p n) (h n))"
  unfolding mono_fuel_def
proof (intro allI impI)
  fix n n' :: nat and s r
  assume le: "n \<le> n'" and "catchP (p n) (h n) s = Some r"
  then obtain r1 s1 where 1: "p n s = Some (r1, s1)"
      and 2: "case r1 of Inr x \<Rightarrow> Some (Inr x, s1) = Some r | Inl e \<Rightarrow> h n e s1 = Some r"
    by (auto simp: catchP_def split: option.splits sum.splits)
  show "catchP (p n') (h n') s = Some r"
  proof (cases r1)
    case (Inr e)
    then show ?thesis using mono_fuelD [OF assms(1) 1 le] 2 by (auto simp: catchP_def)
  next
    case (Inl x)
    then have "h n' x s1 = Some r" using mono_fuelD [OF assms(2) _ le] 2 by simp
    then show ?thesis using mono_fuelD [OF assms(1) 1 le] Inl by (simp add: catchP_def)
  qed
qed

lemma mono_finally [fuel_intros]:
  assumes "mono_fuel p" and "mono_fuel d"
  shows "mono_fuel (\<lambda>n. finallyP (p n) (d n))"
  unfolding mono_fuel_def
proof (intro allI impI)
  fix n n' :: nat and s r
  assume le: "n \<le> n'" and "finallyP (p n) (d n) s = Some r"
  then obtain r1 s1 r2 s2 where "p n s = Some (r1, s1)" "d n s1 = Some (r2, s2)" "r = (r1, s2)"
    by (auto simp: finallyP_def split: option.splits)
  then show "finallyP (p n') (d n') s = Some r"
    using mono_fuelD [OF assms(1) _ le] mono_fuelD [OF assms(2) _ le] by (simp add: finallyP_def)
qed

lemma mono_if [fuel_intros]:
  "mono_fuel p \<Longrightarrow> mono_fuel q \<Longrightarrow> mono_fuel (\<lambda>n. if b then p n else q n)"
  by (simp add: mono_fuel_def)

lemma mono_case_prod [fuel_intros]:
  "(\<And>a b. mono_fuel (\<lambda>n. f n a b)) \<Longrightarrow> mono_fuel (\<lambda>n. case x of (a, b) \<Rightarrow> f n a b)"
  by (cases x) simp

lemma mono_case_option [fuel_intros]:
  "mono_fuel p \<Longrightarrow> (\<And>a. mono_fuel (\<lambda>n. f n a)) \<Longrightarrow>
   mono_fuel (\<lambda>n. case x of None \<Rightarrow> p n | Some a \<Rightarrow> f n a)"
  by (cases x) simp_all

lemma iterP_fuel_mono:
  assumes "\<And>a. mono_fuel (\<lambda>n. f n a)"
    and "iterP n (f m) a s = Some r" and "n \<le> n'" and "m \<le> m'"
  shows "iterP n' (f m') a s = Some r"
  using assms(2-)
proof (induction n arbitrary: n' a s)
  case 0
  then show ?case by simp
next
  case (Suc n)
  then obtain k where k: "n' = Suc k" "n \<le> k" by (cases n') auto
  obtain r1 s1 where 1: "f m a s = Some (r1, s1)"
    using Suc.prems(1) by (auto simp: bindP_def split: option.splits)
  have f': "f m' a s = Some (r1, s1)" by (rule mono_fuelD [OF assms(1) 1 Suc.prems(3)])
  show ?case
  proof (cases r1)
    case (Inl e)
    then show ?thesis using Suc.prems(1) 1 f' by (simp add: k(1) bindP_def)
  next
    case (Inr x)
    then show ?thesis using Suc.prems 1 f' Suc.IH [OF _ k(2)]
      by (cases x) (simp_all add: k(1) bindP_def)
  qed
qed

lemma mono_iter:
  assumes "\<And>a. mono_fuel (\<lambda>n. f n a)"
  shows "mono_fuel (\<lambda>n. iterP n (f n) a)"
  unfolding mono_fuel_def using iterP_fuel_mono [of f, OF assms] by blast

lemma mono_iter_const [fuel_intros]: "mono_fuel (\<lambda>n. iterP n f a)"
  by (rule mono_iter) (rule mono_const)

lemma returns_const: "m s \<noteq> None \<Longrightarrow> returns (\<lambda>n. m) s"
  by (auto simp: returns_def)

lemma returns_pure [fuel_intros]:
  "returns (\<lambda>n. returnP x) s" "returns (\<lambda>n. liftP r) s" "returns (\<lambda>n. getP f) s"
  "returns (\<lambda>n. modifyP g) s"
  by (simp_all add: returns_def prog_defs)

lemma returns_bind:
  assumes "mono_fuel p" and "\<And>x. mono_fuel (\<lambda>n. q n x)"
    and "returns p s" and "\<And>n x s'. p n s = Some (Inr x, s') \<Longrightarrow> returns (\<lambda>n. q n x) s'"
  shows "returns (\<lambda>n. bindP (p n) (q n)) s"
proof -
  obtain n r s1 where 1: "p n s = Some (r, s1)" using assms(3) by (auto simp: returns_def)
  show ?thesis
  proof (cases r)
    case (Inl e)
    then have "bindP (p n) (q n) s = Some (Inl e, s1)" using 1 by (simp add: bindP_def)
    then show ?thesis unfolding returns_def by blast
  next
    case (Inr x)
    then obtain k r' where 2: "q k x s1 = Some r'"
      using assms(4) [of n x s1] 1 unfolding returns_def by blast
    have "q (max n k) x s1 = Some r'" by (rule mono_fuelD [OF assms(2) 2]) simp
    moreover have "p (max n k) s = Some (r, s1)" by (rule mono_fuelD [OF assms(1) 1]) simp
    ultimately have "bindP (p (max n k)) (q (max n k)) s = Some r'" using Inr by (simp add: bindP_def)
    then show ?thesis unfolding returns_def by blast
  qed
qed

lemma returns_then:
  assumes "mono_fuel p" and "mono_fuel q"
    and "returns p s" and "\<And>n x s'. p n s = Some (Inr x, s') \<Longrightarrow> returns q s'"
  shows "returns (\<lambda>n. thenP (p n) (q n)) s"
  unfolding thenP_def using assms by (intro returns_bind) auto

lemma returns_catch:
  assumes "mono_fuel p" and "\<And>x. mono_fuel (\<lambda>n. h n x)"
    and "returns p s" and "\<And>n e s'. p n s = Some (Inl e, s') \<Longrightarrow> returns (\<lambda>n. h n e) s'"
  shows "returns (\<lambda>n. catchP (p n) (h n)) s"
proof -
  obtain n r s1 where 1: "p n s = Some (r, s1)" using assms(3) by (auto simp: returns_def)
  show ?thesis
  proof (cases r)
    case (Inr x)
    then have "catchP (p n) (h n) s = Some (Inr x, s1)" using 1 by (simp add: catchP_def)
    then show ?thesis unfolding returns_def by blast
  next
    case (Inl e)
    then obtain k r' where 2: "h k e s1 = Some r'"
      using assms(4) [of n e s1] 1 unfolding returns_def by blast
    have "h (max n k) e s1 = Some r'" by (rule mono_fuelD [OF assms(2) 2]) simp
    moreover have "p (max n k) s = Some (r, s1)" by (rule mono_fuelD [OF assms(1) 1]) simp
    ultimately have "catchP (p (max n k)) (h (max n k)) s = Some r'" using Inl by (simp add: catchP_def)
    then show ?thesis unfolding returns_def by blast
  qed
qed

lemma returns_finally:
  assumes "mono_fuel p" and "mono_fuel d"
    and "returns p s" and "\<And>n r s'. p n s = Some (r, s') \<Longrightarrow> returns d s'"
  shows "returns (\<lambda>n. finallyP (p n) (d n)) s"
proof -
  obtain n r s1 where 1: "p n s = Some (r, s1)" using assms(3) by (auto simp: returns_def)
  obtain k r2 s2 where 2: "d k s1 = Some (r2, s2)"
    using assms(4) [OF 1] by (auto simp: returns_def)
  have "d (max n k) s1 = Some (r2, s2)" by (rule mono_fuelD [OF assms(2) 2]) simp
  moreover have "p (max n k) s = Some (r, s1)" by (rule mono_fuelD [OF assms(1) 1]) simp
  ultimately have "finallyP (p (max n k)) (d (max n k)) s = Some (r, s2)" by (simp add: finallyP_def)
  then show ?thesis unfolding returns_def by blast
qed

lemma returns_if: "(b \<Longrightarrow> returns p s) \<Longrightarrow> (\<not> b \<Longrightarrow> returns q s) \<Longrightarrow> returns (\<lambda>n. if b then p n else q n) s"
  by (cases b) simp_all

lemma returns_case_prod:
  "(\<And>a b. returns (\<lambda>n. f n a b) s) \<Longrightarrow> returns (\<lambda>n. case x of (a, b) \<Rightarrow> f n a b) s"
  by (cases x) simp

lemma returns_case_option:
  "returns p s \<Longrightarrow> (\<And>a. returns (\<lambda>n. f n a) s) \<Longrightarrow>
   returns (\<lambda>n. case x of None \<Rightarrow> p n | Some a \<Rightarrow> f n a) s"
  by (cases x) simp_all

lemmas returns_intros = returns_bind returns_then returns_catch returns_finally returns_if
  returns_case_prod returns_case_option returns_pure

text \<open>A loop returns if every round returns and brings a measure down.\<close>

lemma returns_iter:
  assumes "I a s"
    and "\<And>a s. I a s \<Longrightarrow> \<exists>r s'. f a s = Some (r, s') \<and>
        (\<forall>a'. r = Inr (Again a') \<longrightarrow> I a' s' \<and> (measure_of a' s' :: nat) < measure_of a s)"
  shows "returns (\<lambda>n. iterP n f a) s"
  using assms(1)
proof (induction "measure_of a s" arbitrary: a s rule: less_induct)
  case less
  obtain r s' where 1: "f a s = Some (r, s')"
      and again: "\<And>a'. r = Inr (Again a') \<Longrightarrow> I a' s' \<and> measure_of a' s' < measure_of a s"
    using assms(2) [OF less.prems] by blast
  show ?case
  proof (cases "\<exists>a'. r = Inr (Again a')")
    case True
    then obtain a' where r: "r = Inr (Again a')" by blast
    then obtain n r' where "iterP n f a' s' = Some r'"
      using less.hyps [of a' s'] again [OF r] unfolding returns_def by blast
    then have "iterP (Suc n) f a s = Some r'" by (simp add: bindP_def 1 r)
    then show ?thesis unfolding returns_def by blast
  next
    case False
    have "\<exists>x. iterP (Suc 0) f a s = Some x"
    proof (cases r)
      case (Inr x)
      then show ?thesis using False 1 by (cases x) (auto simp: bindP_def returnP_def)
    qed (simp add: bindP_def 1)
    then show ?thesis unfolding returns_def by blast
  qed
qed

text \<open>The same for a loop whose rounds contain loops.\<close>

lemma returns_iter_nested:
  assumes mono: "\<And>a. mono_fuel (\<lambda>n. f n a)" and "I a s"
    and round: "\<And>a s. I a s \<Longrightarrow> returns (\<lambda>n. f n a) s"
    and again: "\<And>a s n a' s'. I a s \<Longrightarrow> f n a s = Some (Inr (Again a'), s') \<Longrightarrow>
        I a' s' \<and> (measure_of a' s' :: nat) < measure_of a s"
  shows "returns (\<lambda>n. iterP n (f n) a) s"
proof -
  have iter: "mono_fuel (\<lambda>n. iterP n (f n) a)" for a by (rule mono_iter [OF mono])
  show ?thesis
    using assms(2)
  proof (induction "measure_of a s" arbitrary: a s rule: less_induct)
    case less
    obtain n r s' where 1: "f n a s = Some (r, s')"
      using round [OF less.prems] by (auto simp: returns_def)
    show ?case
    proof (cases "\<exists>a'. r = Inr (Again a')")
      case True
      then obtain a' where r: "r = Inr (Again a')" by blast
      then have "returns (\<lambda>n. iterP n (f n) a') s'"
        using less.hyps [of a' s'] again [OF less.prems] 1 by blast
      then obtain k r' where 2: "iterP k (f k) a' s' = Some r'" unfolding returns_def by blast
      define m where "m = max n k"
      have le: "n \<le> m" "k \<le> m" by (simp_all add: m_def)
      have "iterP m (f (Suc m)) a' s' = Some r'"
        by (rule iterP_fuel_mono [of f, OF mono 2 le(2)]) (use le in simp)
      moreover have "f (Suc m) a s = Some (r, s')" by (rule mono_fuelD [OF mono 1]) (use le in simp)
      ultimately have "iterP (Suc m) (f (Suc m)) a s = Some r'" by (simp add: bindP_def r)
      then show ?thesis unfolding returns_def by blast
    next
      case False
      have "f (Suc n) a s = Some (r, s')" by (rule mono_fuelD [OF mono 1]) simp
      then have "\<exists>x. iterP (Suc n) (f (Suc n)) a s = Some x"
      proof (cases r)
        case (Inr x)
        then show ?thesis using False \<open>f (Suc n) a s = _\<close>
          by (cases x) (auto simp: bindP_def returnP_def)
      qed (simp add: bindP_def)
      then show ?thesis unfolding returns_def by blast
    qed
  qed
qed

section \<open>Errors and time\<close>

text \<open>An error of the class that says the side effect may have happened.\<close>

definition uncertain :: "exn \<Rightarrow> bool" where
  "uncertain e \<longleftrightarrow> (\<exists>code message. e = Ros1ToolsError code ''uncertain'' message)"

lemma uncertainError_uncertain [simp]: "uncertainError code message = Inl e \<Longrightarrow> uncertain e"
  by (auto simp: uncertainError_def uncertain_def)

text \<open>An error the adapter itself throws.\<close>

definition adapter_error :: "exn \<Rightarrow> bool" where
  "adapter_error e \<longleftrightarrow> (\<exists>code cls message. e = Ros1ToolsError code cls message)"

text \<open>\<^verbatim>\<open>std::chrono::milliseconds\<close> in the nanoseconds of the clocks.\<close>

definition milliseconds :: "32 word \<Rightarrow> int" where
  "milliseconds ms = uint ms * 1000000"

text \<open>A clock that passes every instant.\<close>

definition clock_advances :: "(nat \<Rightarrow> int) \<Rightarrow> bool" where
  "clock_advances clock \<longleftrightarrow> (\<forall>x. \<exists>T. \<forall>t \<ge> T. x \<le> clock t)"

end
