(* ===== verification/Native_Context.thy ===== *)
theory Native_Context
  imports Regex_Match Json_Value Program_Monad "HOL-Library.Finite_Map"
begin

text \<open>
  The trusted configuration of an adapter process (\<^verbatim>\<open>NativeContext\<close> of
  \<^verbatim>\<open>tools_adapter.cpp\<close>) and the validators of the strings and JSON fields the adapter
  takes in. Messages of the runtime protocol are records of the values their accessors return;
  a field with a \<^verbatim>\<open>has\<close> accessor is an option and a protobuf map is a finite map. The
  JSON reader and writer, \<^verbatim>\<open>inet_pton\<close>, \<^verbatim>\<open>ros::names::validate\<close> and the protobuf
  serialiser are the record \<open>libraries\<close>; the constants of the generated contract are
  arguments.
\<close>

section \<open>Data\<close>

record schema_reference =
  message_id :: "32 word"
  type_name :: string
  schema_version :: "32 word"
  schema_fingerprint :: "64 word"

datatype payload_encoding = EncodingJson | EncodingOther nat

record payload =
  payload_schema :: "schema_reference option"
  encoding :: payload_encoding
  payload_value :: string

record scope =
  scope_kind :: string
  scope_id :: string
  attributes :: "(string, string) fmap"

record instance_spec =
  configuration :: "payload option"
  secrets_size :: nat
  spec_scope :: "scope option"

text \<open>\<^verbatim>\<open>contract::Schema\<close> of the generated header.\<close>

record contract_schema =
  expected_message_id :: "32 word"
  expected_type_name :: string
  expected_version :: "32 word"
  expected_fingerprint :: "64 word"

record libraries =
  parse_json :: "string \<Rightarrow> string + json"
  write_json :: "json \<Rightarrow> string option + string"
  inet_pton_4 :: "string \<Rightarrow> bool"
  inet_pton_6 :: "string \<Rightarrow> bool"
  names_validate :: "string \<Rightarrow> string option"
  serialize_schema :: "schema_reference \<Rightarrow> string"

record native_context =
  ros_master_uri :: string
  ros_ip :: string
  ros_hostname :: string
  scope_key :: string

section \<open>Limits and patterns\<close>

definition kMaximumQueueSize :: nat where "kMaximumQueueSize = 10000"

definition kMaximumPublishCount :: nat where "kMaximumPublishCount = 10000"

definition kMaximumWaitMilliseconds :: nat where "kMaximumWaitMilliseconds = 300000"

definition kMaximumConfigurationBytes :: nat where "kMaximumConfigurationBytes = 16 * 1024"

definition kMaximumMasterUriBytes :: nat where "kMaximumMasterUriBytes = 2048"

definition kMaximumNetworkIdentityBytes :: nat where "kMaximumNetworkIdentityBytes = 255"

definition kMaximumRosNameBytes :: nat where "kMaximumRosNameBytes = 4096"

definition kMaximumRosTypeBytes :: nat where "kMaximumRosTypeBytes = 512"

definition char_range :: "char \<Rightarrow> char \<Rightarrow> char \<Rightarrow> bool" where
  "char_range lo hi c \<longleftrightarrow> (of_char lo :: nat) \<le> of_char c \<and> (of_char c :: nat) \<le> of_char hi"

text \<open>\<^verbatim>\<open>[A-Za-z]\<close>, \<^verbatim>\<open>[A-Za-z0-9]\<close> (also \<^verbatim>\<open>isalnum\<close> of the C locale) and \<^verbatim>\<open>[A-Za-z0-9_]\<close>.\<close>

definition is_letter :: "char \<Rightarrow> bool" where
  "is_letter c \<longleftrightarrow> char_range CHR ''A'' CHR ''Z'' c \<or> char_range CHR ''a'' CHR ''z'' c"

definition is_alnum :: "char \<Rightarrow> bool" where
  "is_alnum c \<longleftrightarrow> is_letter c \<or> is_digit c"

definition is_word_char :: "char \<Rightarrow> bool" where
  "is_word_char c \<longleftrightarrow> is_alnum c \<or> c = CHR ''_''"

definition identifier_regex :: regex where
  "identifier_regex = Seq (Class is_letter) (Star (Class is_word_char))"

definition rosTypePattern :: regex where
  "rosTypePattern = Seq identifier_regex (Seq (Literal ''/'') identifier_regex)"

definition absoluteRosNamePattern :: regex where
  "absoluteRosNamePattern =
     Seq (Literal ''/'') (Seq identifier_regex (Star (Seq (Literal ''/'') identifier_regex)))"

definition is_host_char :: "char \<Rightarrow> bool" where
  "is_host_char c \<longleftrightarrow> is_alnum c \<or> c \<in> {CHR ''.'', CHR ''_'', CHR ''~'', CHR ''-''}"

definition is_hex_colon :: "char \<Rightarrow> bool" where
  "is_hex_colon c \<longleftrightarrow>
     is_digit c \<or> char_range CHR ''A'' CHR ''F'' c \<or> char_range CHR ''a'' CHR ''f'' c \<or> c = CHR '':''"

definition masterUriPattern :: regex where
  "masterUriPattern =
     Seq (Literal ''http://'')
       (Seq (Alt (Plus (Class is_host_char))
              (Seq (Literal ''['') (Seq (Plus (Class is_hex_colon)) (Literal '']''))))
       (Seq (Literal '':'')
       (Seq (Seq (Class is_digit) (AtMost 4 (Class is_digit)))
         (Opt (Literal ''/'')))))"

definition is_lower_hex :: "char \<Rightarrow> bool" where
  "is_lower_hex c \<longleftrightarrow> is_digit c \<or> char_range CHR ''a'' CHR ''f'' c"

definition canonicalScopeKeyPattern :: regex where
  "canonicalScopeKeyPattern = Seq (Literal ''sha256:'') (Exactly 64 (Class is_lower_hex))"

text \<open>
  The first capture group of a match of \<open>masterUriPattern\<close>: the digits at the end, before
  an optional slash.
\<close>

definition master_uri_match :: "string \<Rightarrow> string" where
  "master_uri_match uri =
     (let body = (if uri \<noteq> [] \<and> last uri = CHR ''/'' then butlast uri else uri)
      in rev (takeWhile is_digit (rev body)))"

section \<open>Fields of a JSON object\<close>

definition rejectUnknownFields :: "json \<Rightarrow> string list \<Rightarrow> unit result" where
  "rejectUnknownFields request allowed =
     bindE (forE (\<lambda>member.
         if member \<notin> set allowed
         then permanentError ''invalid_request''
                (''unknown request field '' @ [CHR 0x27] @ member @ [CHR 0x27])
         else Inr ()) (getMemberNames request))
       (\<lambda>_. Inr ())"

definition requireObject :: "json \<Rightarrow> string \<Rightarrow> unit result" where
  "requireObject v field =
     (if \<not> isObject v then permanentError ''invalid_request'' (field @ '' must be a JSON object'')
      else Inr ())"

text \<open>\<^verbatim>\<open>asString\<close>, which the code calls only on strings.\<close>

definition asString :: "json \<Rightarrow> string" where
  "asString v = (case v of JString s \<Rightarrow> s | _ \<Rightarrow> [])"

definition requiredString :: "json \<Rightarrow> string \<Rightarrow> string result" where
  "requiredString request field =
     (if \<not> isMember request field \<or> \<not> isString (json_get request field)
         \<or> asString (json_get request field) = []
      then permanentError ''invalid_request'' (field @ '' must be a non-empty string'')
      else Inr (asString (json_get request field)))"

definition requiredPossiblyEmptyString :: "json \<Rightarrow> string \<Rightarrow> string result" where
  "requiredPossiblyEmptyString request field =
     (if \<not> isMember request field \<or> \<not> isString (json_get request field)
      then permanentError ''invalid_configuration'' (field @ '' must be a string'')
      else Inr (asString (json_get request field)))"

definition parseStrictJson :: "libraries \<Rightarrow> string \<Rightarrow> string \<Rightarrow> json result" where
  "parseStrictJson L input description =
     (case parse_json L input of
        Inl parse_errors \<Rightarrow>
          permanentError ''invalid_json'' (description @ '' is not strict JSON: '' @ parse_errors)
      | Inr v \<Rightarrow> Inr v)"

text \<open>The writer may throw a \<^verbatim>\<open>std::exception\<close> with its text, or something else.\<close>

definition writeJson :: "libraries \<Rightarrow> json \<Rightarrow> string result" where
  "writeJson L v =
     (case write_json L v of
        Inl (Some message) \<Rightarrow> stdError message
      | Inl None \<Rightarrow> Inl UnknownException
      | Inr text \<Rightarrow> Inr text)"

section \<open>Strings of the configuration\<close>

definition validateNoControlCharacters :: "string \<Rightarrow> string \<Rightarrow> unit result" where
  "validateNoControlCharacters v field =
     (if list_ex (\<lambda>c. (of_char c :: nat) < 0x20 \<or> (of_char c :: nat) = 0x7f) v
      then permanentError ''invalid_configuration'' (field @ '' must not contain control characters'')
      else Inr ())"

definition validateLength :: "string \<Rightarrow> nat \<Rightarrow> string \<Rightarrow> unit result" where
  "validateLength v maximum field =
     (if length v > maximum
      then permanentError ''invalid_configuration'' (field @ '' exceeds its maximum encoded length'')
      else Inr ())"

text \<open>What a C function sees of a string.\<close>

definition c_str :: "string \<Rightarrow> string" where
  "c_str s = takeWhile (\<lambda>c. c \<noteq> CHR 0x00) s"

definition validateIpAddress :: "libraries \<Rightarrow> string \<Rightarrow> unit result" where
  "validateIpAddress L v =
     (if v = [] then Inr ()
      else if \<not> inet_pton_4 L (c_str v) \<and> \<not> inet_pton_6 L (c_str v)
      then permanentError ''invalid_configuration'' ''rosIp must be an IPv4 or IPv6 address''
      else Inr ())"

definition find_from :: "char \<Rightarrow> string \<Rightarrow> nat \<Rightarrow> nat option" where
  "find_from c s start = map_option ((+) start) (find_char c (drop start s))"

lemma find_from_ge: "find_from c s start = Some i \<Longrightarrow> start \<le> i"
  by (auto simp: find_from_def)

definition label_ok :: "string \<Rightarrow> bool" where
  "label_ok label \<longleftrightarrow>
     \<not> (length label = 0 \<or> length label > 63 \<or> \<not> is_alnum (label ! 0) \<or>
        \<not> is_alnum (label ! (length label - 1)) \<or>
        \<not> list_all (\<lambda>c. is_alnum c \<or> c = CHR ''-'' \<or> c = CHR ''_'') label)"

function hostname_labels :: "string \<Rightarrow> nat \<Rightarrow> nat \<Rightarrow> unit result" where
  "hostname_labels v effective_size label_start =
     (if label_start < effective_size then
        let separator = find_from CHR ''.'' v label_start;
            label_end = (case separator of None \<Rightarrow> effective_size | Some i \<Rightarrow> i);
            label = take (label_end - label_start) (drop label_start v)
        in if \<not> label_ok label
           then permanentError ''invalid_configuration'' ''rosHostname must contain valid DNS-style labels''
           else case separator of
             None \<Rightarrow> Inr ()
           | Some i \<Rightarrow>
               if i \<ge> effective_size then Inr () else hostname_labels v effective_size (i + 1)
      else Inr ())"
  by pat_completeness auto
termination
  by (relation "measure (\<lambda>(v, effective_size, label_start). effective_size - label_start)")
    (auto dest!: find_from_ge [OF sym])

declare hostname_labels.simps [simp del]

definition validateHostname :: "string \<Rightarrow> unit result" where
  "validateHostname v =
     (if v = [] then Inr ()
      else let effective_size = (if last v = CHR ''.'' then length v - 1 else length v)
           in if effective_size = 0
              then permanentError ''invalid_configuration'' ''rosHostname is invalid''
              else hostname_labels v effective_size 0)"

section \<open>The context\<close>

definition schemaMatches :: "schema_reference \<Rightarrow> contract_schema \<Rightarrow> bool" where
  "schemaMatches actual expected \<longleftrightarrow>
     message_id actual = expected_message_id expected \<and>
     type_name actual = expected_type_name expected \<and>
     schema_version actual = expected_version expected \<and>
     schema_fingerprint actual = expected_fingerprint expected"

definition configuration_payload :: "contract_schema \<Rightarrow> instance_spec \<Rightarrow> payload result" where
  "configuration_payload kConfiguration spec =
     (case configuration spec of
        Some p \<Rightarrow>
          if encoding p = EncodingJson \<and>
             (case payload_schema p of None \<Rightarrow> False | Some s \<Rightarrow> schemaMatches s kConfiguration)
          then Inr p
          else permanentError ''invalid_configuration''
                 ''instance configuration must use the compiled NativeContext JSON schema''
      | None \<Rightarrow> permanentError ''invalid_configuration''
                 ''instance configuration must use the compiled NativeContext JSON schema'')"

text \<open>The port has at most five digits, so the conversion succeeds.\<close>

definition validateMasterUri :: "string \<Rightarrow> unit result" where
  "validateMasterUri uri =
     (if \<not> regex_match uri masterUriPattern
      then permanentError ''invalid_configuration'' ''rosMasterUri must be an absolute HTTP host and port''
      else bindE (stoull (master_uri_match uri)) (\<lambda>(master_port, _).
        if master_port = 0 \<or> master_port > 65535
        then permanentError ''invalid_configuration'' ''rosMasterUri port must be between 1 and 65535''
        else Inr ()))"

text \<open>An attribute of a scope, empty when it is missing.\<close>

definition attribute_or_empty :: "scope \<Rightarrow> string \<Rightarrow> string" where
  "attribute_or_empty s name = (case fmlookup (attributes s) name of None \<Rightarrow> [] | Some v \<Rightarrow> v)"

definition expected_attributes :: "native_context \<Rightarrow> nat" where
  "expected_attributes ctx =
     1 + (if ros_ip ctx \<noteq> [] then 1 else 0) + (if ros_hostname ctx \<noteq> [] then 1 else 0)"

definition validateScope :: "instance_spec \<Rightarrow> native_context \<Rightarrow> native_context result" where
  "validateScope spec ctx =
     (case spec_scope spec of
        None \<Rightarrow> permanentError ''invalid_scope'' ''instance scope must be ros1-native-context''
      | Some s \<Rightarrow>
          if scope_kind s \<noteq> ''ros1-native-context''
          then permanentError ''invalid_scope'' ''instance scope must be ros1-native-context''
          else if \<not> regex_match (scope_id s) canonicalScopeKeyPattern
          then permanentError ''invalid_scope'' ''instance scope key must be a canonical SHA-256 digest''
          else if fmlookup (attributes s) ''master-uri'' \<noteq> Some (ros_master_uri ctx)
          then permanentError ''invalid_scope'' ''scope master-uri does not match instance configuration''
          else if attribute_or_empty s ''ip'' \<noteq> ros_ip ctx \<or>
                  attribute_or_empty s ''hostname'' \<noteq> ros_hostname ctx \<or>
                  fcard (fmdom (attributes s)) \<noteq> expected_attributes ctx
          then permanentError ''invalid_scope'' ''scope network identity does not match configuration''
          else Inr (ctx\<lparr>scope_key := scope_id s\<rparr>))"

definition configuration_fields :: "libraries \<Rightarrow> string \<Rightarrow> (string \<times> string \<times> string) result" where
  "configuration_fields L text =
     bindE (parseStrictJson L text ''instance configuration'') (\<lambda>v.
     bindE (requireObject v ''instance configuration'') (\<lambda>_.
     bindE (rejectUnknownFields v [''rosMasterUri'', ''rosIp'', ''rosHostname'']) (\<lambda>_.
     bindE (requiredString v ''rosMasterUri'') (\<lambda>uri.
     bindE (requiredPossiblyEmptyString v ''rosIp'') (\<lambda>ip.
     bindE (requiredPossiblyEmptyString v ''rosHostname'') (\<lambda>hostname.
     Inr (uri, ip, hostname)))))))"

definition validateNetworkIdentity :: "libraries \<Rightarrow> string \<Rightarrow> string \<Rightarrow> string \<Rightarrow> unit result" where
  "validateNetworkIdentity L uri ip hostname =
     bindE (validateNoControlCharacters uri ''rosMasterUri'') (\<lambda>_.
     bindE (validateNoControlCharacters ip ''rosIp'') (\<lambda>_.
     bindE (validateNoControlCharacters hostname ''rosHostname'') (\<lambda>_.
     bindE (validateLength uri kMaximumMasterUriBytes ''rosMasterUri'') (\<lambda>_.
     bindE (validateLength ip kMaximumNetworkIdentityBytes ''rosIp'') (\<lambda>_.
     bindE (validateLength hostname kMaximumNetworkIdentityBytes ''rosHostname'') (\<lambda>_.
     bindE (validateMasterUri uri) (\<lambda>_.
     if ip \<noteq> [] \<and> hostname \<noteq> []
     then permanentError ''invalid_configuration'' ''rosIp and rosHostname are mutually exclusive''
     else bindE (validateIpAddress L ip) (\<lambda>_. validateHostname hostname))))))))"

definition FromInstanceSpec ::
  "libraries \<Rightarrow> contract_schema \<Rightarrow> instance_spec \<Rightarrow> native_context result" where
  "FromInstanceSpec L kConfiguration spec =
     bindE (configuration_payload kConfiguration spec) (\<lambda>p.
     if length (payload_value p) > kMaximumConfigurationBytes
     then permanentError ''invalid_configuration''
            ''instance configuration exceeds its maximum encoded size''
     else if secrets_size spec \<noteq> 0
     then permanentError ''invalid_configuration''
            ''ROS1 Tools Adapter does not accept secret references''
     else
       bindE (configuration_fields L (payload_value p)) (\<lambda>(uri, ip, hostname).
       bindE (validateNetworkIdentity L uri ip hostname) (\<lambda>_.
       validateScope spec
         \<lparr>ros_master_uri = uri, ros_ip = ip, ros_hostname = hostname, scope_key = []\<rparr>)))"

text \<open>\<^verbatim>\<open>operator==\<close>, member by member.\<close>

definition same_context :: "native_context \<Rightarrow> native_context \<Rightarrow> bool" where
  "same_context a b \<longleftrightarrow>
     ros_master_uri a = ros_master_uri b \<and> ros_ip a = ros_ip b \<and>
     ros_hostname a = ros_hostname b \<and> scope_key a = scope_key b"

text \<open>
  The environment of the process. \<^verbatim>\<open>setenv\<close> and \<^verbatim>\<open>unsetenv\<close> may fail, with a reason that
  depends on the variable and its value.
\<close>

definition setEnvironment ::
  "(string \<Rightarrow> string \<Rightarrow> string option) \<Rightarrow> string \<Rightarrow> string \<Rightarrow> (string \<rightharpoonup> string, unit) prog" where
  "setEnvironment failing name v = (\<lambda>env.
     case failing name v of
       Some reason \<Rightarrow> Some (stdError (''unable to configure '' @ name @ '': '' @ reason), env)
     | None \<Rightarrow> Some (Inr (), if v = [] then env(name := None) else env(name \<mapsto> c_str v)))"

definition ApplyEnvironment ::
  "(string \<Rightarrow> string \<Rightarrow> string option) \<Rightarrow> native_context \<Rightarrow> (string \<rightharpoonup> string, unit) prog" where
  "ApplyEnvironment failing ctx =
     thenP (setEnvironment failing ''ROS_MASTER_URI'' (ros_master_uri ctx))
     (thenP (setEnvironment failing ''ROS_IP'' (ros_ip ctx))
       (setEnvironment failing ''ROS_HOSTNAME'' (ros_hostname ctx)))"

section \<open>What the patterns match\<close>

definition ros_identifier :: "string \<Rightarrow> bool" where
  "ros_identifier s \<longleftrightarrow> (\<exists>c t. s = c # t \<and> is_letter c \<and> list_all is_word_char t)"

lemma matches_identifier [simp]: "regex_matches identifier_regex s \<longleftrightarrow> ros_identifier s"
  by (simp add: identifier_regex_def ros_identifier_def)

lemma ros_type_iff:
  "regex_match s rosTypePattern \<longleftrightarrow> (\<exists>a b. s = a @ ''/'' @ b \<and> ros_identifier a \<and> ros_identifier b)"
  by (auto simp: regex_match_iff rosTypePattern_def matches_Seq_iff)

lemma matches_segments:
  "regex_matches (Star (Seq (Literal ''/'') identifier_regex)) s \<longleftrightarrow>
     (\<exists>parts. s = concat (map ((#) CHR ''/'') parts) \<and> (\<forall>p \<in> set parts. ros_identifier p))"
proof -
  have seg: "regex_matches (Seq (Literal ''/'') identifier_regex) u \<longleftrightarrow> (\<exists>p. u = CHR ''/'' # p \<and> ros_identifier p)" for u
    by (auto simp: matches_Seq_iff)
  show ?thesis unfolding matches_Star_iff seg
  proof
    assume "\<exists>parts. s = concat parts \<and> (\<forall>u \<in> set parts. \<exists>p. u = CHR ''/'' # p \<and> ros_identifier p)"
    then obtain parts where parts: "s = concat parts" "\<forall>u \<in> set parts. \<exists>p. u = CHR ''/'' # p \<and> ros_identifier p"
      by blast
    have "map (\<lambda>u. CHR ''/'' # tl u) parts = parts" using parts(2) by (intro map_idI) auto
    then have "s = concat (map ((#) CHR ''/'') (map tl parts))" using parts(1) by (simp add: o_def)
    moreover have "\<forall>p \<in> set (map tl parts). ros_identifier p" using parts(2) by auto
    ultimately show "\<exists>parts. s = concat (map ((#) CHR ''/'') parts) \<and> (\<forall>p \<in> set parts. ros_identifier p)" by blast
  next
    assume "\<exists>parts. s = concat (map ((#) CHR ''/'') parts) \<and> (\<forall>p \<in> set parts. ros_identifier p)"
    then obtain parts where parts: "s = concat (map ((#) CHR ''/'') parts)" "\<forall>p \<in> set parts. ros_identifier p"
      by blast
    from parts(2) have "\<forall>u \<in> set (map ((#) CHR ''/'') parts). \<exists>p. u = CHR ''/'' # p \<and> ros_identifier p" by auto
    with parts(1) show "\<exists>parts. s = concat parts \<and> (\<forall>u \<in> set parts. \<exists>p. u = CHR ''/'' # p \<and> ros_identifier p)"
      by blast
  qed
qed

lemma ros_name_iff:
  "regex_match s absoluteRosNamePattern \<longleftrightarrow>
     (\<exists>parts. parts \<noteq> [] \<and> s = concat (map ((#) CHR ''/'') parts) \<and> (\<forall>p \<in> set parts. ros_identifier p))"
proof -
  have "regex_match s absoluteRosNamePattern \<longleftrightarrow>
      (\<exists>p parts. s = CHR ''/'' # p @ concat (map ((#) CHR ''/'') parts) \<and> ros_identifier p \<and> (\<forall>q \<in> set parts. ros_identifier q))"
    unfolding regex_match_iff absoluteRosNamePattern_def matches_Seq_iff matches_segments by auto
  also have "\<dots> \<longleftrightarrow> (\<exists>parts. parts \<noteq> [] \<and> s = concat (map ((#) CHR ''/'') parts) \<and> (\<forall>p \<in> set parts. ros_identifier p))"
  proof
    assume "\<exists>p parts. s = CHR ''/'' # p @ concat (map ((#) CHR ''/'') parts) \<and> ros_identifier p \<and> (\<forall>q \<in> set parts. ros_identifier q)"
    then obtain p parts where "s = concat (map ((#) CHR ''/'') (p # parts))" "\<forall>q \<in> set (p # parts). ros_identifier q" by auto
    then show "\<exists>parts. parts \<noteq> [] \<and> s = concat (map ((#) CHR ''/'') parts) \<and> (\<forall>p \<in> set parts. ros_identifier p)" by blast
  next
    assume "\<exists>parts. parts \<noteq> [] \<and> s = concat (map ((#) CHR ''/'') parts) \<and> (\<forall>p \<in> set parts. ros_identifier p)"
    then obtain p parts where "s = concat (map ((#) CHR ''/'') (p # parts))" "\<forall>q \<in> set (p # parts). ros_identifier q"
      by (metis list.exhaust)
    then show "\<exists>p parts. s = CHR ''/'' # p @ concat (map ((#) CHR ''/'') parts) \<and> ros_identifier p \<and> (\<forall>q \<in> set parts. ros_identifier q)"
      by auto
  qed
  finally show ?thesis .
qed

lemma scope_key_iff:
  "regex_match s canonicalScopeKeyPattern \<longleftrightarrow>
     (\<exists>digest. s = ''sha256:'' @ digest \<and> length digest = 64 \<and> list_all is_lower_hex digest)"
  by (auto simp: regex_match_iff canonicalScopeKeyPattern_def matches_Seq_iff)

text \<open>The host of a master URI, and the URI with its port.\<close>

definition master_host :: "string \<Rightarrow> bool" where
  "master_host host \<longleftrightarrow>
     (host \<noteq> [] \<and> list_all is_host_char host) \<or>
     (\<exists>h. host = ''['' @ h @ '']'' \<and> h \<noteq> [] \<and> list_all is_hex_colon h)"

definition master_uri :: "string \<Rightarrow> string \<Rightarrow> string \<Rightarrow> string \<Rightarrow> bool" where
  "master_uri uri host port tail \<longleftrightarrow>
     uri = ''http://'' @ host @ '':'' @ port @ tail \<and> master_host host \<and>
     1 \<le> length port \<and> length port \<le> 5 \<and> list_all is_digit port \<and> (tail = [] \<or> tail = ''/'')"

lemma matches_port:
  "regex_matches (Seq (Class is_digit) (AtMost 4 (Class is_digit))) s \<longleftrightarrow>
     1 \<le> length s \<and> length s \<le> 5 \<and> list_all is_digit s"
  by (cases s) auto

lemma master_uri_iff: "regex_match uri masterUriPattern \<longleftrightarrow> (\<exists>host port tail. master_uri uri host port tail)"
proof -
  have host: "regex_matches (Alt (Plus (Class is_host_char))
      (Seq (Literal ''['') (Seq (Plus (Class is_hex_colon)) (Literal '']'')))) s \<longleftrightarrow> master_host s" for s
    by (auto simp: matches_Seq_iff master_host_def)
  have tail: "regex_matches (Opt (Literal ''/'')) s \<longleftrightarrow> s = [] \<or> s = ''/''" for s by auto
  show ?thesis
    unfolding regex_match_iff masterUriPattern_def matches_Seq_iff [of "Literal _"]
      matches_Seq_iff [of "Alt _ _"] matches_Seq_iff [of "Seq _ _"] host matches_port tail master_uri_def
      matches_Literal
    by blast
qed

lemma takeWhile_digits_before:
  "list_all is_digit port \<Longrightarrow> takeWhile is_digit (port @ CHR '':'' # rest) = port"
  by (induction port) (auto simp: is_digit_def)

lemma master_uri_port:
  assumes "master_uri uri host port tail"
  shows "master_uri_match uri = port"
proof -
  let ?before = "''http://'' @ host"
  have uri: "uri = ?before @ CHR '':'' # port @ tail" and port: "port \<noteq> []" "list_all is_digit port"
    and tail: "tail = [] \<or> tail = ''/''"
    using assms by (auto simp: master_uri_def)
  have "is_digit (last port)" using port by (simp add: list_all_iff)
  then have "last port \<noteq> CHR ''/''" by (auto simp: is_digit_def)
  then have body: "(if uri \<noteq> [] \<and> last uri = CHR ''/'' then butlast uri else uri) = ?before @ CHR '':'' # port"
    using tail uri port(1) by (auto simp: butlast_append)
  have "list_all is_digit (rev port)" using port(2) by (simp add: list_all_iff)
  then have "takeWhile is_digit (rev (?before @ CHR '':'' # port)) = rev port"
    using takeWhile_digits_before [of "rev port" "rev ?before"] by simp
  then show ?thesis unfolding master_uri_match_def Let_def body by simp
qed

lemma validateMasterUri_iff:
  "validateMasterUri uri = Inr () \<longleftrightarrow>
     (\<exists>host port tail. master_uri uri host port tail \<and> 1 \<le> digits_val port \<and> digits_val port \<le> 65535)"
proof (cases "\<exists>host port tail. master_uri uri host port tail")
  case True
  then obtain host port tail where m: "master_uri uri host port tail" by blast
  have port: "port \<noteq> []" "list_all is_digit port" "length port \<le> 5" using m by (auto simp: master_uri_def)
  have unique: "port' = port" if "master_uri uri host' port' tail'" for host' port' tail'
    using master_uri_port [OF m] master_uri_port [OF that] by simp
  have "(10 :: nat) ^ length port \<le> 10 ^ 5" by (rule power_increasing) (use port(3) in simp_all)
  then have "digits_val port < 100000" using digits_val_less [OF port(2)] by simp
  then have "validateMasterUri uri = Inr () \<longleftrightarrow> 1 \<le> digits_val port \<and> digits_val port \<le> 65535"
    using True master_uri_iff [of uri] scan_digits [OF port(1,2)] port(1)
    by (auto simp: validateMasterUri_def master_uri_port [OF m] stoull_def permanentError_def)
  then show ?thesis using m unique by blast
next
  case False
  then show ?thesis using master_uri_iff [of uri] by (simp add: validateMasterUri_def permanentError_def)
qed

section \<open>What the hostname check accepts\<close>

fun dotted :: "string list \<Rightarrow> string" where
  "dotted [] = []"
| "dotted [label] = label"
| "dotted (label # labels) = label @ CHR ''.'' # dotted labels"

text \<open>Labels separated by dots, with up to two dots at the end.\<close>

definition hostname_shape :: "string \<Rightarrow> bool" where
  "hostname_shape s \<longleftrightarrow>
     (\<exists>labels tail. labels \<noteq> [] \<and> list_all label_ok labels \<and> s = dotted labels @ tail \<and>
        (tail = [] \<or> tail = ''.'' \<or> tail = ''..''))"

lemma split_unique:
  "c \<notin> set a \<Longrightarrow> c \<notin> set b \<Longrightarrow> a @ c # s = b @ c # t \<longleftrightarrow> a = b \<and> s = t"
proof (induction a arbitrary: b)
  case Nil
  then show ?case by (cases b) auto
next
  case (Cons x a)
  then show ?case by (cases b) auto
qed

lemma label_ok_no_dot: "label_ok label \<Longrightarrow> CHR ''.'' \<notin> set label"
  by (auto simp: label_ok_def list_all_iff is_alnum_def is_letter_def char_range_def is_digit_def)

lemma dotted_Cons: "labels \<noteq> [] \<Longrightarrow> dotted (label # labels) = label @ CHR ''.'' # dotted labels"
  by (cases labels) simp_all

lemma hostname_shape_plain:
  assumes "CHR ''.'' \<notin> set x"
  shows "hostname_shape x \<longleftrightarrow> label_ok x"
proof
  assume "hostname_shape x"
  then obtain labels tail where h: "labels \<noteq> []" "list_all label_ok labels" "x = dotted labels @ tail"
    "tail = [] \<or> tail = ''.'' \<or> tail = ''..''" by (auto simp: hostname_shape_def)
  obtain label rest where labels: "labels = label # rest" using h(1) by (cases labels) auto
  have "rest = []" using assms h(3) dotted_Cons [of rest label] labels by (cases "rest = []") auto
  then show "label_ok x" using assms h labels by auto
next
  assume "label_ok x"
  then show "hostname_shape x" unfolding hostname_shape_def by (intro exI [of _ "[x]"] exI [of _ "[]"]) simp
qed

lemma hostname_shape_dot:
  assumes "CHR ''.'' \<notin> set x"
  shows "hostname_shape (x @ CHR ''.'' # rest) \<longleftrightarrow>
    label_ok x \<and> (rest = [] \<or> rest = ''.'' \<or> hostname_shape rest)"
proof
  assume "hostname_shape (x @ CHR ''.'' # rest)"
  then obtain labels tail where h: "labels \<noteq> []" "list_all label_ok labels"
    "x @ CHR ''.'' # rest = dotted labels @ tail" "tail = [] \<or> tail = ''.'' \<or> tail = ''..''"
    by (auto simp: hostname_shape_def)
  obtain label more where labels: "labels = label # more" using h(1) by (cases labels) auto
  have label: "label_ok label" "CHR ''.'' \<notin> set label" using h(2) labels label_ok_no_dot by auto
  show "label_ok x \<and> (rest = [] \<or> rest = ''.'' \<or> hostname_shape rest)"
  proof (cases "more = []")
    case True
    then have eq: "x @ CHR ''.'' # rest = label @ tail" using h(3) labels by simp
    then have "tail \<noteq> []" using label(2) by (auto dest: arg_cong [of _ _ set])
    then obtain t where t: "tail = CHR ''.'' # t" "t = [] \<or> t = ''.''" using h(4) by auto
    then have "x = label \<and> rest = t" using eq split_unique [OF assms label(2)] by simp
    then show ?thesis using label(1) t(2) by blast
  next
    case False
    then have "x @ CHR ''.'' # rest = label @ CHR ''.'' # dotted more @ tail"
      using h(3) labels dotted_Cons [of more label] by simp
    then have "x = label \<and> rest = dotted more @ tail" using split_unique [OF assms label(2)] by simp
    moreover have "hostname_shape (dotted more @ tail)"
      unfolding hostname_shape_def using False h(2,4) labels by (intro exI [of _ more] exI [of _ tail]) simp
    ultimately show ?thesis using label(1) by simp
  qed
next
  assume r: "label_ok x \<and> (rest = [] \<or> rest = ''.'' \<or> hostname_shape rest)"
  show "hostname_shape (x @ CHR ''.'' # rest)"
  proof (cases "hostname_shape rest")
    case True
    then obtain labels tail where "labels \<noteq> []" "list_all label_ok labels" "rest = dotted labels @ tail"
      "tail = [] \<or> tail = ''.'' \<or> tail = ''..''" by (auto simp: hostname_shape_def)
    then show ?thesis unfolding hostname_shape_def using r dotted_Cons [of labels x]
      by (intro exI [of _ "x # labels"] exI [of _ tail]) simp
  next
    case False
    then have "rest = [] \<or> rest = ''.''" using r by blast
    then show ?thesis unfolding hostname_shape_def using r
      by (intro exI [of _ "[x]"] exI [of _ "CHR ''.'' # rest"]) auto
  qed
qed

lemma hostname_labels_iff:
  assumes "v \<noteq> []" and "eff = (if last v = CHR ''.'' then length v - 1 else length v)" and "start < eff"
  shows "hostname_labels v eff start = Inr () \<longleftrightarrow> hostname_shape (drop start v)"
  using assms
proof (induction v eff start rule: hostname_labels.induct)
  case (1 v eff start)
  let ?d = "drop start v"
  have len: "start < length v" "eff \<le> length v" using 1(2-) by (auto split: if_splits)
  show ?case
  proof (cases "find_char CHR ''.'' ?d")
    case None
    then have no: "CHR ''.'' \<notin> set ?d" by (simp add: find_char_None)
    have "last ?d = last v" "?d \<noteq> []" using len(1) by simp_all
    then have "last v \<noteq> CHR ''.''" using no last_in_set [of ?d] by auto
    then have "eff = length v" using "1.prems"(2) by simp
    then show ?thesis using None "1.prems"(3) hostname_shape_plain [OF no]
      by (subst hostname_labels.simps) (simp add: find_from_def permanentError_def)
  next
    case (Some k)
    define x where "x = take k ?d"
    define rest where "rest = drop (Suc k) ?d"
    have d: "?d = x @ CHR ''.'' # rest" and no: "CHR ''.'' \<notin> set x" and k: "length x = k"
      using find_char_split [OF Some] find_char_Some [of "CHR ''.''" ?d k] Some by (simp_all add: x_def rest_def)
    have lv: "length v = start + k + 1 + length rest" using arg_cong [OF d, of length] len(1) k by simp
    have last_v: "last v = (if rest = [] then CHR ''.'' else last rest)"
      using arg_cong [OF d, of last] len(1) by simp
    have next_drop: "drop (start + k + 1) v = rest" by (simp add: rest_def ac_simps)
    have unfold: "hostname_labels v eff start = Inr () \<longleftrightarrow>
        label_ok x \<and> (eff \<le> start + k \<or> hostname_labels v eff (start + k + 1) = Inr ())"
      using Some "1.prems"(3)
      by (subst hostname_labels.simps) (simp add: find_from_def permanentError_def x_def)
    show ?thesis
    proof (cases "start + k + 1 < eff")
      case True
      have "hostname_labels v eff (start + k + 1) = Inr () \<longleftrightarrow> hostname_shape rest"
        if "label_ok x"
        using "1.IH" [of "Some (start + k)" "start + k" "x" "start + k"] that Some "1.prems" True next_drop
        by (simp add: find_from_def x_def)
      moreover have "rest \<noteq> [] \<and> rest \<noteq> ''.''" using True lv last_v "1.prems"(2) by (auto split: if_splits)
      ultimately show ?thesis using unfold True d hostname_shape_dot [OF no] by auto
    next
      case False
      have "rest = [] \<or> rest = ''.''"
      proof (cases "last v = CHR ''.''")
        case True
        then have "length rest \<le> 1" using False lv "1.prems"(2) by simp
        moreover have "last rest = CHR ''.''" if "rest \<noteq> []" using True last_v that by simp
        ultimately show ?thesis by (cases rest) (auto split: if_splits)
      next
        case last: False
        then have "rest = []" using False lv "1.prems"(2) by simp
        then show ?thesis using last last_v by simp
      qed
      moreover have "hostname_labels v eff (start + k + 1) = Inr ()"
        using False by (subst hostname_labels.simps) simp
      ultimately show ?thesis using unfold d hostname_shape_dot [OF no] by auto
    qed
  qed
qed

lemma validateHostname_iff: "validateHostname v = Inr () \<longleftrightarrow> v = [] \<or> hostname_shape v"
proof (cases "v = [] \<or> v = ''.''")
  case True
  have "\<not> hostname_shape ''.''" using hostname_shape_dot [of "[]" "[]"] by (simp add: label_ok_def)
  then show ?thesis using True by (auto simp: validateHostname_def permanentError_def)
next
  case False
  then have "0 < (if last v = CHR ''.'' then length v - 1 else length v)"
    by (cases v rule: rev_cases) (auto simp: neq_Nil_conv)
  then show ?thesis using False hostname_labels_iff [of v _ 0]
    by (auto simp: validateHostname_def Let_def)
qed

section \<open>What a valid configuration is\<close>

text \<open>The attributes of the scope that belongs to a context.\<close>

definition context_attributes :: "native_context \<Rightarrow> (string, string) fmap" where
  "context_attributes ctx =
     fmupd ''master-uri'' (ros_master_uri ctx)
       ((if ros_ip ctx = [] then id else fmupd ''ip'' (ros_ip ctx))
         ((if ros_hostname ctx = [] then id else fmupd ''hostname'' (ros_hostname ctx)) fmempty))"

lemma attributes_iff:
  "fmlookup (attributes s) ''master-uri'' = Some (ros_master_uri ctx) \<and>
   attribute_or_empty s ''ip'' = ros_ip ctx \<and> attribute_or_empty s ''hostname'' = ros_hostname ctx \<and>
   fcard (fmdom (attributes s)) = expected_attributes ctx \<longleftrightarrow>
   attributes s = context_attributes ctx" (is "?found \<longleftrightarrow> _")
proof
  assume found: ?found
  let ?names = "fmdom (context_attributes ctx)"
  have same: "fmlookup (attributes s) name = fmlookup (context_attributes ctx) name" if "name |\<in>| ?names" for name
    using found that
    by (auto simp: context_attributes_def attribute_or_empty_def split: if_splits option.splits)
  then have sub: "?names |\<subseteq>| fmdom (attributes s)" by (metis fmdom_notD fmdom_notI fsubsetI)
  have "fcard ?names = expected_attributes ctx"
    by (simp add: context_attributes_def expected_attributes_def fcard_finsert_if)
  then have "?names = fmdom (attributes s)" using found sub by (metis fcard_seteq order_refl)
  then show "attributes s = context_attributes ctx" using same by (metis fmap_ext fmdom_notD)
next
  assume "attributes s = context_attributes ctx"
  then show ?found
    by (simp add: context_attributes_def attribute_or_empty_def expected_attributes_def fcard_finsert_if)
qed

definition printable :: "string \<Rightarrow> bool" where
  "printable s \<longleftrightarrow> (\<forall>c \<in> set s. 0x20 \<le> (of_char c :: nat) \<and> (of_char c :: nat) \<noteq> 0x7f)"

text \<open>
  The members of the configuration and the scope that give a context: all three members are
  strings and there is no other; the master URI is an HTTP URI with a port; at most one of the
  address and the host name is given, and it is well formed; and the scope carries a
  canonical key and exactly the attributes of the context.
\<close>

definition network_identity :: "libraries \<Rightarrow> native_context \<Rightarrow> bool" where
  "network_identity L ctx \<longleftrightarrow>
     printable (ros_master_uri ctx) \<and> printable (ros_ip ctx) \<and> printable (ros_hostname ctx) \<and>
     length (ros_master_uri ctx) \<le> 2048 \<and> length (ros_ip ctx) \<le> 255 \<and> length (ros_hostname ctx) \<le> 255 \<and>
     (\<exists>host port tail. master_uri (ros_master_uri ctx) host port tail \<and>
        1 \<le> digits_val port \<and> digits_val port \<le> 65535) \<and>
     (ros_ip ctx = [] \<or> ros_hostname ctx = []) \<and>
     (ros_ip ctx = [] \<or> inet_pton_4 L (ros_ip ctx) \<or> inet_pton_6 L (ros_ip ctx)) \<and>
     (ros_hostname ctx = [] \<or> hostname_shape (ros_hostname ctx))"

definition describes :: "libraries \<Rightarrow> contract_schema \<Rightarrow> instance_spec \<Rightarrow> native_context \<Rightarrow> bool" where
  "describes L kConfiguration spec ctx \<longleftrightarrow>
     (\<exists>p schema members s digest.
        configuration spec = Some p \<and> encoding p = EncodingJson \<and>
        payload_schema p = Some schema \<and> schemaMatches schema kConfiguration \<and>
        length (payload_value p) \<le> 16384 \<and> secrets_size spec = 0 \<and>
        parse_json L (payload_value p) = Inr (JObject members) \<and>
        set (map fst members) \<subseteq> {''rosMasterUri'', ''rosIp'', ''rosHostname''} \<and>
        map_of members ''rosMasterUri'' = Some (JString (ros_master_uri ctx)) \<and>
        map_of members ''rosIp'' = Some (JString (ros_ip ctx)) \<and>
        map_of members ''rosHostname'' = Some (JString (ros_hostname ctx)) \<and>
        network_identity L ctx \<and>
        spec_scope spec = Some s \<and> scope_kind s = ''ros1-native-context'' \<and>
        scope_id s = scope_key ctx \<and> scope_key ctx = ''sha256:'' @ digest \<and>
        length digest = 64 \<and> list_all is_lower_hex digest \<and>
        attributes s = context_attributes ctx)"

section \<open>Outcomes of the validators\<close>

definition permanent :: "exn \<Rightarrow> bool" where
  "permanent e \<longleftrightarrow> (\<exists>code message. e = Ros1ToolsError code ''permanent'' message)"

text \<open>When each validator succeeds, and that it fails with a permanent error.\<close>

named_theorems validator_iff
named_theorems validator_error

lemma permanentError_Inl [validator_error, simp]: "permanentError code message = Inl e \<Longrightarrow> permanent e"
  by (auto simp: permanentError_def permanent_def)

lemma permanentError_Inl_sym [simp]: "Inl e = permanentError code message \<Longrightarrow> permanent e"
  by (auto simp: permanentError_def permanent_def)

lemma permanentError_not_Inr [simp]: "permanentError code message \<noteq> Inr x"
  by (simp add: permanentError_def)

lemma configuration_payload_iff [validator_iff]:
  "configuration_payload K spec = Inr p \<longleftrightarrow>
     configuration spec = Some p \<and> encoding p = EncodingJson \<and>
     (\<exists>schema. payload_schema p = Some schema \<and> schemaMatches schema K)"
  by (auto simp: configuration_payload_def split: option.splits)

lemma configuration_payload_error [validator_error]: "configuration_payload K spec = Inl e \<Longrightarrow> permanent e"
  by (auto simp: configuration_payload_def split: option.splits if_splits)

lemma parseStrictJson_iff [validator_iff]: "parseStrictJson L text what = Inr v \<longleftrightarrow> parse_json L text = Inr v"
  by (auto simp: parseStrictJson_def split: sum.splits)

lemma parseStrictJson_error [validator_error]: "parseStrictJson L text what = Inl e \<Longrightarrow> permanent e"
  by (auto simp: parseStrictJson_def split: sum.splits)

lemma requireObject_iff [validator_iff]: "requireObject v field = Inr x \<longleftrightarrow> isObject v"
  by (auto simp: requireObject_def)

lemma requireObject_error [validator_error]: "requireObject v field = Inl e \<Longrightarrow> permanent e"
  by (auto simp: requireObject_def split: if_splits)

lemma rejectUnknownFields_iff [validator_iff]:
  "rejectUnknownFields v allowed = Inr x \<longleftrightarrow> set (getMemberNames v) \<subseteq> set allowed"
proof -
  have "(\<exists>ys. forE (\<lambda>member. if member \<notin> set allowed
      then permanentError ''invalid_request'' (''unknown request field '' @ [CHR 0x27] @ member @ [CHR 0x27])
      else Inr ()) names = Inr ys) \<longleftrightarrow> set names \<subseteq> set allowed" for names
    unfolding forE_total by auto
  then show ?thesis by (auto simp: rejectUnknownFields_def bindE_eq_Inr)
qed

lemma rejectUnknownFields_error [validator_error]: "rejectUnknownFields v allowed = Inl e \<Longrightarrow> permanent e"
  by (auto simp: rejectUnknownFields_def bindE_eq_Inl dest!: forE_Inl split: if_splits)

lemma member_string:
  "isMember v field \<and> isString (json_get v field) \<and> asString (json_get v field) = s \<longleftrightarrow>
     json_member v field = Some (JString s)"
  by (auto simp: isMember_def json_get_def isString_iff asString_def split: option.splits)

lemma requiredString_iff [validator_iff]:
  "requiredString v field = Inr s \<longleftrightarrow> json_member v field = Some (JString s) \<and> s \<noteq> []"
  by (auto simp: requiredString_def member_string [symmetric])

lemma requiredString_error [validator_error]: "requiredString v field = Inl e \<Longrightarrow> permanent e"
  by (auto simp: requiredString_def split: if_splits)

lemma requiredPossiblyEmptyString_iff [validator_iff]:
  "requiredPossiblyEmptyString v field = Inr s \<longleftrightarrow> json_member v field = Some (JString s)"
  by (auto simp: requiredPossiblyEmptyString_def member_string [symmetric])

lemma requiredPossiblyEmptyString_error [validator_error]:
  "requiredPossiblyEmptyString v field = Inl e \<Longrightarrow> permanent e"
  by (auto simp: requiredPossiblyEmptyString_def split: if_splits)

lemma validateNoControlCharacters_iff [validator_iff]: "validateNoControlCharacters v field = Inr x \<longleftrightarrow> printable v"
  unfolding validateNoControlCharacters_def printable_def list_ex_iff by (simp, meson not_le)

lemma validateNoControlCharacters_error [validator_error]:
  "validateNoControlCharacters v field = Inl e \<Longrightarrow> permanent e"
  by (auto simp: validateNoControlCharacters_def split: if_splits)

lemma validateLength_iff [validator_iff]: "validateLength v maximum field = Inr x \<longleftrightarrow> length v \<le> maximum"
  by (auto simp: validateLength_def)

lemma validateLength_error [validator_error]: "validateLength v maximum field = Inl e \<Longrightarrow> permanent e"
  by (auto simp: validateLength_def split: if_splits)

lemma c_str_printable: "printable s \<Longrightarrow> c_str s = s"
  by (auto simp: c_str_def printable_def takeWhile_eq_all_conv)

lemma validateIpAddress_iff:
  "validateIpAddress L v = Inr x \<longleftrightarrow> v = [] \<or> inet_pton_4 L (c_str v) \<or> inet_pton_6 L (c_str v)"
  by (auto simp: validateIpAddress_def)

lemma validateIpAddress_error [validator_error]: "validateIpAddress L v = Inl e \<Longrightarrow> permanent e"
  by (auto simp: validateIpAddress_def split: if_splits)

lemma hostname_labels_error: "hostname_labels v n k = Inl e \<Longrightarrow> permanent e"
proof (induction v n k rule: hostname_labels.induct)
  case (1 v n k)
  show ?case
  proof (cases "find_from CHR ''.'' v k")
    case None
    then show ?thesis using "1.prems"
      by (subst (asm) hostname_labels.simps) (auto simp: Let_def split: if_splits)
  next
    case (Some i)
    define label where "label = take (i - k) (drop k v)"
    have "hostname_labels v n k =
        (if k < n then if \<not> label_ok label
           then permanentError ''invalid_configuration'' ''rosHostname must contain valid DNS-style labels''
           else if i \<ge> n then Inr () else hostname_labels v n (i + 1) else Inr ())"
      by (subst hostname_labels.simps) (simp add: Some label_def)
    then show ?thesis using "1.prems" "1.IH" [OF _ refl refl refl, of i] Some
      by (auto simp: label_def split: if_splits)
  qed
qed

lemma validateHostname_error [validator_error]: "validateHostname v = Inl e \<Longrightarrow> permanent e"
  by (auto simp: validateHostname_def Let_def dest: hostname_labels_error split: if_splits)

lemma validateMasterUri_error [validator_error]:
  assumes "validateMasterUri uri = Inl e"
  shows "permanent e"
proof (cases "regex_match uri masterUriPattern")
  case True
  then obtain host port tail where m: "master_uri uri host port tail" using master_uri_iff by blast
  then have port: "port \<noteq> []" "list_all is_digit port" "length port \<le> 5" by (auto simp: master_uri_def)
  have "(10 :: nat) ^ length port \<le> 10 ^ 5" by (rule power_increasing) (use port(3) in simp_all)
  then have "digits_val port < 100000" using digits_val_less [OF port(2)] by simp
  then show ?thesis using assms True scan_digits [OF port(1,2)] port(1)
    by (auto simp: validateMasterUri_def master_uri_port [OF m] stoull_def split: if_splits)
qed (use assms in \<open>simp add: validateMasterUri_def\<close>)

lemma validateScope_iff:
  "validateScope spec ctx = Inr ctx' \<longleftrightarrow>
     (\<exists>s digest. spec_scope spec = Some s \<and> scope_kind s = ''ros1-native-context'' \<and>
        scope_id s = ''sha256:'' @ digest \<and> length digest = 64 \<and> list_all is_lower_hex digest \<and>
        attributes s = context_attributes ctx \<and> ctx' = ctx\<lparr>scope_key := scope_id s\<rparr>)"
  unfolding validateScope_def attributes_iff [symmetric]
  by (auto simp: scope_key_iff split: option.splits)

lemma validateScope_error [validator_error]: "validateScope spec ctx = Inl e \<Longrightarrow> permanent e"
  by (auto simp: validateScope_def split: option.splits if_splits)

lemma configuration_fields_iff [validator_iff]:
  "configuration_fields L text = Inr (uri, ip, hostname) \<longleftrightarrow>
     (\<exists>members. parse_json L text = Inr (JObject members) \<and>
        set (map fst members) \<subseteq> {''rosMasterUri'', ''rosIp'', ''rosHostname''} \<and>
        map_of members ''rosMasterUri'' = Some (JString uri) \<and> uri \<noteq> [] \<and>
        map_of members ''rosIp'' = Some (JString ip) \<and>
        map_of members ''rosHostname'' = Some (JString hostname))"
  by (auto simp: configuration_fields_def bindE_eq_Inr validator_iff isObject_iff getMemberNames_def json_member_def)

lemma configuration_fields_error [validator_error]: "configuration_fields L text = Inl e \<Longrightarrow> permanent e"
  by (auto simp: configuration_fields_def bindE_eq_Inl dest: validator_error)

lemma validateNetworkIdentity_iff [validator_iff]:
  "validateNetworkIdentity L (ros_master_uri ctx) (ros_ip ctx) (ros_hostname ctx) = Inr () \<longleftrightarrow> network_identity L ctx"
  by (auto simp: validateNetworkIdentity_def network_identity_def bindE_eq_Inr validator_iff
      validateMasterUri_iff validateHostname_iff validateIpAddress_iff c_str_printable
      kMaximumMasterUriBytes_def kMaximumNetworkIdentityBytes_def)

lemma validateNetworkIdentity_error [validator_error]:
  "validateNetworkIdentity L uri ip hostname = Inl e \<Longrightarrow> permanent e"
  by (auto simp: validateNetworkIdentity_def bindE_eq_Inl dest: validator_error split: if_splits)

lemma network_identity_uri: "network_identity L ctx \<Longrightarrow> ros_master_uri ctx \<noteq> []"
  by (auto simp: network_identity_def master_uri_def)

lemma FromInstanceSpec_iff: "FromInstanceSpec L K spec = Inr ctx \<longleftrightarrow> describes L K spec ctx"
proof -
  let ?ctx = "\<lambda>uri ip hostname. \<lparr>ros_master_uri = uri, ros_ip = ip, ros_hostname = hostname, scope_key = []\<rparr>"
  have identity: "validateNetworkIdentity L uri ip hostname = Inr x \<longleftrightarrow> network_identity L (?ctx uri ip hostname)"
    for uri ip hostname x
    using validateNetworkIdentity_iff [of L "?ctx uri ip hostname"] by simp
  have same: "network_identity L (?ctx (ros_master_uri ctx) (ros_ip ctx) (ros_hostname ctx)) \<longleftrightarrow> network_identity L ctx"
    "context_attributes (?ctx (ros_master_uri ctx) (ros_ip ctx) (ros_hostname ctx)) = context_attributes ctx"
    by (simp_all add: network_identity_def context_attributes_def)
  have scoped: "uri = ros_master_uri ctx \<and> ip = ros_ip ctx \<and> hostname = ros_hostname ctx"
    if "validateScope spec (?ctx uri ip hostname) = Inr ctx" for uri ip hostname
    using that by (auto simp: validateScope_iff)
  show ?thesis
  proof
    assume "FromInstanceSpec L K spec = Inr ctx"
    then obtain p uri ip hostname where run: "configuration_payload K spec = Inr p"
      "length (payload_value p) \<le> 16384" "secrets_size spec = 0"
      "configuration_fields L (payload_value p) = Inr (uri, ip, hostname)"
      "network_identity L (?ctx uri ip hostname)" and scope: "validateScope spec (?ctx uri ip hostname) = Inr ctx"
      by (auto simp: FromInstanceSpec_def bindE_eq_Inr identity kMaximumConfigurationBytes_def split: if_splits)
    have eq: "uri = ros_master_uri ctx" "ip = ros_ip ctx" "hostname = ros_hostname ctx" using scoped [OF scope] by auto
    obtain s digest where s: "spec_scope spec = Some s" "scope_kind s = ''ros1-native-context''"
      "scope_id s = ''sha256:'' @ digest" "length digest = 64" "list_all is_lower_hex digest"
      "attributes s = context_attributes ctx" "ctx = ?ctx uri ip hostname\<lparr>scope_key := scope_id s\<rparr>"
      using scope unfolding validateScope_iff eq same by blast
    have "scope_key ctx = scope_id s" by (subst s(7)) simp
    then show "describes L K spec ctx"
      using run s(1-6) unfolding describes_def validator_iff eq same by auto
  next
    assume d: "describes L K spec ctx"
    then obtain p where run: "configuration_payload K spec = Inr p" "length (payload_value p) \<le> 16384"
      "secrets_size spec = 0"
      "configuration_fields L (payload_value p) = Inr (ros_master_uri ctx, ros_ip ctx, ros_hostname ctx)"
      unfolding describes_def validator_iff by (metis network_identity_uri)
    have "network_identity L ctx" using d by (auto simp: describes_def)
    moreover have "validateScope spec (?ctx (ros_master_uri ctx) (ros_ip ctx) (ros_hostname ctx)) = Inr ctx"
      using d unfolding describes_def validateScope_iff same by auto
    ultimately show "FromInstanceSpec L K spec = Inr ctx"
      using run by (simp add: FromInstanceSpec_def bindE_eq_Inr identity same kMaximumConfigurationBytes_def)
  qed
qed

lemma FromInstanceSpec_error: "FromInstanceSpec L K spec = Inl e \<Longrightarrow> permanent e"
  by (auto simp: FromInstanceSpec_def bindE_eq_Inl dest: validator_error split: if_splits)

text \<open>The environment a context leaves behind.\<close>

definition context_environment :: "native_context \<Rightarrow> (string \<rightharpoonup> string) \<Rightarrow> (string \<rightharpoonup> string)" where
  "context_environment ctx env = (\<lambda>name.
     if name = ''ROS_MASTER_URI'' then Some (ros_master_uri ctx)
     else if name = ''ROS_IP'' then (if ros_ip ctx = [] then None else Some (ros_ip ctx))
     else if name = ''ROS_HOSTNAME'' then (if ros_hostname ctx = [] then None else Some (ros_hostname ctx))
     else env name)"

lemma ApplyEnvironment_run:
  assumes "network_identity L ctx" and "ApplyEnvironment failing ctx env = Some (Inr x, env')"
  shows "env' = context_environment ctx env"
proof -
  have "printable (ros_master_uri ctx)" "printable (ros_ip ctx)" "printable (ros_hostname ctx)"
    using assms(1) unfolding network_identity_def by blast+
  note clean = this [THEN c_str_printable]
  have "failing ''ROS_MASTER_URI'' (ros_master_uri ctx) = None" "failing ''ROS_IP'' (ros_ip ctx) = None"
    "failing ''ROS_HOSTNAME'' (ros_hostname ctx) = None"
    using assms(2) by (auto simp: ApplyEnvironment_def setEnvironment_def thenP_def bindP_def stdError_def split: option.splits)
  then show ?thesis using assms(2) network_identity_uri [OF assms(1)]
    by (cases "ros_hostname ctx = []"; cases "ros_ip ctx = []")
      (auto simp: ApplyEnvironment_def setEnvironment_def thenP_def bindP_def clean context_environment_def)
qed

lemma ApplyEnvironment_error:
  "ApplyEnvironment failing ctx env = Some (Inl e, env') \<Longrightarrow> \<exists>message. e = StdException message"
  by (auto simp: ApplyEnvironment_def setEnvironment_def thenP_def bindP_def stdError_def split: option.splits)

section \<open>Properties\<close>

text \<open>
  C11. The trusted configuration is read exactly: \<^verbatim>\<open>NativeContext::FromInstanceSpec\<close>
  returns a context precisely when the specification describes it - a JSON configuration of the
  compiled schema within its size limit and without secrets, an object with exactly the three
  string members, a printable bounded \<^verbatim>\<open>http://host:port\<close> master URI with a port between 1
  and 65535, at most one well-formed network identity, a canonical SHA-256 scope key and no
  scope attribute other than those of the context - and every refusal is a permanent error.
\<close>

theorem native_context_exact:
  "case FromInstanceSpec L kConfiguration spec of
     Inr ctx \<Rightarrow> describes L kConfiguration spec ctx
   | Inl e \<Rightarrow> permanent e \<and> (\<nexists>ctx. describes L kConfiguration spec ctx)"
  using FromInstanceSpec_iff [of L kConfiguration spec] FromInstanceSpec_error [of L kConfiguration spec]
  by (auto split: sum.split)

text \<open>
  C30. The loop over the labels of a host name accepts exactly the empty string and the dotted
  sequences of labels of at most 63 letters, digits, hyphens and underscores that begin and
  end with a letter or digit, followed by nothing, one dot or two dots. The second trailing dot
  is accepted although it closes an empty label.
\<close>

theorem hostname_check_exact:
  "validateHostname v = Inr () \<longleftrightarrow>
     v = [] \<or>
     (\<exists>labels tail. labels \<noteq> [] \<and> list_all label_ok labels \<and> v = dotted labels @ tail \<and>
        (tail = [] \<or> tail = ''.'' \<or> tail = ''..''))"
  unfolding validateHostname_iff hostname_shape_def ..

section \<open>A configuration\<close>

definition sample_schema :: contract_schema where
  "sample_schema = \<lparr>expected_message_id = 7, expected_type_name = ''NativeContext'', expected_version = 1,
     expected_fingerprint = 99\<rparr>"

definition sample_key :: string where
  "sample_key = ''sha256:'' @ replicate 64 (CHR ''a'')"

definition sample_context :: native_context where
  "sample_context = \<lparr>ros_master_uri = ''http://a:11311'', ros_ip = [], ros_hostname = ''r.b'', scope_key = sample_key\<rparr>"

definition sample_libraries :: libraries where
  "sample_libraries =
     \<lparr>parse_json = (\<lambda>text. if text = ''{}'' then Inr (JObject [(''rosHostname'', JString ''r.b''),
         (''rosIp'', JString []), (''rosMasterUri'', JString ''http://a:11311'')]) else Inl ''unexpected''),
      write_json = (\<lambda>v. Inr ''{}''), inet_pton_4 = (\<lambda>s. False), inet_pton_6 = (\<lambda>s. False),
      names_validate = (\<lambda>name. None), serialize_schema = (\<lambda>s. type_name s)\<rparr>"

definition sample_spec :: instance_spec where
  "sample_spec =
     \<lparr>configuration = Some \<lparr>payload_schema = Some \<lparr>message_id = 7, type_name = ''NativeContext'', schema_version = 1,
         schema_fingerprint = 99\<rparr>, encoding = EncodingJson, payload_value = ''{}''\<rparr>,
      secrets_size = 0,
      spec_scope = Some \<lparr>scope_kind = ''ros1-native-context'', scope_id = sample_key,
         attributes = context_attributes sample_context\<rparr>\<rparr>"

lemma sample_master: "master_uri ''http://a:11311'' ''a'' ''11311'' []"
  by (simp add: master_uri_def master_host_def is_host_char_def is_alnum_def is_letter_def char_range_def is_digit_def)

lemma sample_network: "network_identity sample_libraries sample_context"
proof -
  have "hostname_shape ''r.b''"
    using hostname_shape_dot [of "''r''" "''b''"] hostname_shape_plain [of "''b''"]
    by (simp add: label_ok_def is_alnum_def is_letter_def char_range_def)
  moreover have port: "digits_val ''11311'' = 11311" by (simp add: digits_val_def digit_val_def)
  have "\<exists>host port tail. master_uri ''http://a:11311'' host port tail \<and> 1 \<le> digits_val port \<and> digits_val port \<le> 65535"
    by (intro exI conjI, rule sample_master) (simp_all add: port)
  ultimately show ?thesis
    unfolding network_identity_def by (simp add: sample_context_def printable_def)
qed

lemma sample_describes: "describes sample_libraries sample_schema sample_spec sample_context"
proof -
  have key: "scope_key sample_context = sample_key" "list_all is_lower_hex (replicate 64 (CHR ''a''))"
    by (simp_all add: sample_context_def is_lower_hex_def char_range_def list_all_iff)
  show ?thesis
    unfolding describes_def using sample_network key
    by (simp add: sample_spec_def sample_libraries_def sample_schema_def schemaMatches_def sample_key_def)
      (simp add: sample_context_def)
qed

end
