(* ===== verification/Capability_Contract.thy ===== *)
theory Capability_Contract
  imports Native_Context
begin

text \<open>
  The capability contracts of the adapter (\<^verbatim>\<open>tools_adapter.cpp\<close>): the checks that what the
  trusted bootstrap, a grant or an invocation names is the contract the adapter was compiled
  with, and the binding of the two capabilities to their callbacks. The compiled endpoints
  come from the generated header and are arguments; the runtime SDK's \<^verbatim>\<open>BindCapability\<close> is
  the argument \<open>sdk\<close>.
\<close>

section \<open>Data\<close>

record limits =
  maximum_request_bytes :: "32 word"
  maximum_response_bytes :: "32 word"
  maximum_concurrency :: "32 word"
  maximum_streams :: "32 word"
  maximum_stream_chunk_bytes :: "32 word"
  maximum_stream_chunk_messages :: "32 word"

text \<open>\<^verbatim>\<open>contract::Endpoint\<close> of the generated header.\<close>

record expected_endpoint =
  ex_capability_id :: string
  ex_contract_version :: "32 word"
  ex_contract_digest :: string
  ex_endpoint_id :: string
  ex_input_schema :: contract_schema
  ex_output_schema :: contract_schema
  ex_default_timeout_ms :: "32 word"
  ex_maximum_timeout_ms :: "32 word"
  ex_limits :: limits

datatype interaction_mode = ModeOperation | ModeOther nat

datatype side_effect_class = EffectNonIdempotent | EffectOther nat

datatype idempotency_mode = IdempotencyRequired | IdempotencyOther nat

record endpoint_contract =
  endpoint_id :: string
  interaction_mode :: interaction_mode
  input_schema :: "schema_reference option"
  output_schema :: "schema_reference option"
  event_schema :: "schema_reference option"
  side_effect_class :: side_effect_class
  idempotency_mode :: idempotency_mode
  deadline_required :: bool
  cancellation_supported :: bool
  default_timeout_ms :: "32 word"
  maximum_timeout_ms :: "32 word"
  endpoint_limits :: "limits option"

record capability_contract =
  capability_id :: string
  contract_version :: "32 word"
  contract_digest :: string
  endpoints :: "endpoint_contract list"

record enabled_capability =
  grant_capability_id :: string
  grant_contract_version :: "32 word"
  grant_contract_digest :: string
  enabled_endpoint_ids :: "string list"
  grant_configuration :: "payload option"

record work_context =
  work_capability_id :: string
  work_endpoint_id :: string
  work_contract_version :: "32 word"
  work_contract_digest :: string
  deadline_unix_nanos :: "int option"
  subject :: "scope option"

section \<open>Matching the compiled contract\<close>

definition schemaReference :: "contract_schema \<Rightarrow> schema_reference" where
  "schemaReference source =
     \<lparr>message_id = expected_message_id source, type_name = expected_type_name source,
      schema_version = expected_version source, schema_fingerprint = expected_fingerprint source\<rparr>"

fun findEndpoint :: "endpoint_contract list \<Rightarrow> string \<Rightarrow> endpoint_contract option" where
  "findEndpoint [] wanted = None"
| "findEndpoint (endpoint # rest) wanted =
     (if endpoint_id endpoint = wanted then Some endpoint else findEndpoint rest wanted)"

definition schema_given :: "schema_reference option \<Rightarrow> contract_schema \<Rightarrow> bool" where
  "schema_given actual expected \<longleftrightarrow>
     (case actual of None \<Rightarrow> False | Some s \<Rightarrow> schemaMatches s expected)"

definition limits_given :: "limits option \<Rightarrow> limits \<Rightarrow> bool" where
  "limits_given actual expected \<longleftrightarrow>
     (case actual of
        None \<Rightarrow> False
      | Some l \<Rightarrow>
          maximum_request_bytes l = maximum_request_bytes expected \<and>
          maximum_response_bytes l = maximum_response_bytes expected \<and>
          maximum_concurrency l = maximum_concurrency expected \<and>
          maximum_streams l = maximum_streams expected \<and>
          maximum_stream_chunk_bytes l = maximum_stream_chunk_bytes expected \<and>
          maximum_stream_chunk_messages l = maximum_stream_chunk_messages expected)"

text \<open>The result, and the text for the caller when it is false.\<close>

definition validateExpectedContract :: "capability_contract \<Rightarrow> expected_endpoint \<Rightarrow> string option" where
  "validateExpectedContract contract expected =
     (case findEndpoint (endpoints contract) (ex_endpoint_id expected) of
        Some endpoint \<Rightarrow>
          if capability_id contract = ex_capability_id expected \<and>
             contract_version contract = ex_contract_version expected \<and>
             contract_digest contract = ex_contract_digest expected \<and>
             length (endpoints contract) = 1 \<and>
             interaction_mode endpoint = ModeOperation \<and>
             schema_given (input_schema endpoint) (ex_input_schema expected) \<and>
             schema_given (output_schema endpoint) (ex_output_schema expected) \<and>
             event_schema endpoint = None \<and>
             side_effect_class endpoint = EffectNonIdempotent \<and>
             idempotency_mode endpoint = IdempotencyRequired \<and>
             deadline_required endpoint \<and> cancellation_supported endpoint \<and>
             default_timeout_ms endpoint = ex_default_timeout_ms expected \<and>
             maximum_timeout_ms endpoint = ex_maximum_timeout_ms expected \<and>
             limits_given (endpoint_limits endpoint) (ex_limits expected)
          then None
          else Some (''trusted bootstrap contains an unexpected '' @ ex_capability_id expected @ '' capability contract'')
      | None \<Rightarrow>
          Some (''trusted bootstrap contains an unexpected '' @ ex_capability_id expected @ '' capability contract''))"

definition validateCapabilityGrant :: "enabled_capability \<Rightarrow> expected_endpoint \<Rightarrow> string option" where
  "validateCapabilityGrant grant expected =
     (if grant_capability_id grant \<noteq> ex_capability_id expected \<or>
         grant_contract_version grant \<noteq> ex_contract_version expected \<or>
         grant_contract_digest grant \<noteq> ex_contract_digest expected \<or>
         length (enabled_endpoint_ids grant) \<noteq> 1 \<or>
         enabled_endpoint_ids grant ! 0 \<noteq> ex_endpoint_id expected \<or>
         grant_configuration grant \<noteq> None
      then Some (''enabled capability grant does not match the compiled '' @ ex_capability_id expected @ '' contract'')
      else None)"

definition validateInvocationContext :: "work_context \<Rightarrow> expected_endpoint \<Rightarrow> int result" where
  "validateInvocationContext context expected =
     (if work_capability_id context \<noteq> ex_capability_id expected \<or>
         work_endpoint_id context \<noteq> ex_endpoint_id expected \<or>
         work_contract_version context \<noteq> ex_contract_version expected \<or>
         work_contract_digest context \<noteq> ex_contract_digest expected
      then permanentError ''invalid_endpoint'' ''operation context does not match its compiled capability''
      else case deadline_unix_nanos context of
        None \<Rightarrow> permanentError ''invalid_deadline'' ''operation deadline is required''
      | Some deadline \<Rightarrow>
          if deadline \<le> 0 then permanentError ''invalid_deadline'' ''operation deadline is required''
          else Inr deadline)"

section \<open>Binding the capabilities\<close>

text \<open>The callbacks of a capability: each of the two sets is made of the methods of the adapter.\<close>

datatype capability_callbacks = PublishCallbacks | ServiceCallbacks

type_synonym binding = "string \<times> 32 word \<times> string \<times> capability_callbacks"

record client_config =
  capabilities :: "capability_contract list"
  bindings :: "binding list"

text \<open>Which of the two compiled contracts a bootstrap contract has to match.\<close>

definition expected_callbacks ::
  "expected_endpoint \<Rightarrow> expected_endpoint \<Rightarrow> capability_contract \<Rightarrow> capability_callbacks option" where
  "expected_callbacks kPublish kService contract =
     (if capability_id contract = ex_capability_id kPublish then Some PublishCallbacks
      else if capability_id contract = ex_capability_id kService then Some ServiceCallbacks
      else None)"

fun callbacks_endpoint :: "expected_endpoint \<Rightarrow> expected_endpoint \<Rightarrow> capability_callbacks \<Rightarrow> expected_endpoint" where
  "callbacks_endpoint kPublish kService PublishCallbacks = kPublish"
| "callbacks_endpoint kPublish kService ServiceCallbacks = kService"

text \<open>
  One round of the loop: the sets bound so far and the bindings made, or the text of the
  failure. \<open>sdk\<close> answers with its own text when it refuses a binding.
\<close>

definition bind_contract ::
  "(binding \<Rightarrow> string option) \<Rightarrow> expected_endpoint \<Rightarrow> expected_endpoint \<Rightarrow> capability_contract \<Rightarrow>
   capability_callbacks list \<Rightarrow> string + (capability_callbacks list \<times> binding)" where
  "bind_contract sdk kPublish kService contract bound =
     (case expected_callbacks kPublish kService contract of
        None \<Rightarrow> Inl ''trusted bootstrap advertises an unknown capability''
      | Some callbacks \<Rightarrow>
          let expected = callbacks_endpoint kPublish kService callbacks in
          if callbacks \<in> set bound
          then Inl (''trusted bootstrap contains a duplicate '' @ ex_capability_id expected @ '' capability contract'')
          else case validateExpectedContract contract expected of
            Some reason \<Rightarrow> Inl reason
          | None \<Rightarrow>
              let binding = (capability_id contract, contract_version contract, contract_digest contract, callbacks) in
              (case sdk binding of
                 Some reason \<Rightarrow> Inl reason
               | None \<Rightarrow> Inr (callbacks # bound, binding)))"

fun bind_contracts ::
  "(binding \<Rightarrow> string option) \<Rightarrow> expected_endpoint \<Rightarrow> expected_endpoint \<Rightarrow> capability_contract list \<Rightarrow>
   capability_callbacks list \<Rightarrow> binding list \<Rightarrow> (string + capability_callbacks list) \<times> binding list" where
  "bind_contracts sdk kPublish kService [] bound made = (Inr bound, made)"
| "bind_contracts sdk kPublish kService (contract # rest) bound made =
     (case bind_contract sdk kPublish kService contract bound of
        Inl reason \<Rightarrow> (Inl reason, made)
      | Inr (bound', binding) \<Rightarrow> bind_contracts sdk kPublish kService rest bound' (made @ [binding]))"

text \<open>
  The result, the text written to the error argument, if any, and the configuration. A null
  configuration or adapter is refused.
\<close>

definition BindCapabilities ::
  "(binding \<Rightarrow> string option) \<Rightarrow> expected_endpoint \<Rightarrow> expected_endpoint \<Rightarrow> client_config option \<Rightarrow> bool \<Rightarrow>
   (bool \<times> string option) \<times> client_config option" where
  "BindCapabilities sdk kPublish kService config adapter_given =
     (case config of
        None \<Rightarrow> ((False, Some ''Runtime config and ROS1 tools adapter are required''), None)
      | Some c \<Rightarrow>
          if \<not> adapter_given
          then ((False, Some ''Runtime config and ROS1 tools adapter are required''), config)
          else if length (capabilities c) \<noteq> 2
          then ((False, Some ''ROS1 tools adapter requires exactly two capability contracts''), config)
          else (case bind_contracts sdk kPublish kService (capabilities c) [] (bindings c) of
             (Inl reason, made) \<Rightarrow> ((False, Some reason), Some (c\<lparr>bindings := made\<rparr>))
           | (Inr bound, made) \<Rightarrow>
               ((PublishCallbacks \<in> set bound \<and> ServiceCallbacks \<in> set bound, None),
                Some (c\<lparr>bindings := made\<rparr>))))"

section \<open>Lemmas\<close>

text \<open>The only contract that matches an endpoint.\<close>

definition compiled_contract :: "expected_endpoint \<Rightarrow> capability_contract" where
  "compiled_contract expected =
     \<lparr>capability_id = ex_capability_id expected, contract_version = ex_contract_version expected,
      contract_digest = ex_contract_digest expected,
      endpoints = [\<lparr>endpoint_id = ex_endpoint_id expected, interaction_mode = ModeOperation,
        input_schema = Some (schemaReference (ex_input_schema expected)),
        output_schema = Some (schemaReference (ex_output_schema expected)), event_schema = None,
        side_effect_class = EffectNonIdempotent, idempotency_mode = IdempotencyRequired,
        deadline_required = True, cancellation_supported = True,
        default_timeout_ms = ex_default_timeout_ms expected, maximum_timeout_ms = ex_maximum_timeout_ms expected,
        endpoint_limits = Some (ex_limits expected)\<rparr>]\<rparr>"

lemma schemaMatches_iff: "schemaMatches s expected \<longleftrightarrow> s = schemaReference expected"
  by (cases s) (auto simp: schemaMatches_def schemaReference_def)

lemma schema_given_iff: "schema_given s expected \<longleftrightarrow> s = Some (schemaReference expected)"
  by (auto simp: schema_given_def schemaMatches_iff split: option.splits)

lemma limits_given_iff: "limits_given l expected \<longleftrightarrow> l = Some expected"
  by (auto simp: limits_given_def split: option.splits)

lemma validateExpectedContract_iff:
  "validateExpectedContract contract expected = None \<longleftrightarrow> contract = compiled_contract expected"
proof
  assume ok: "validateExpectedContract contract expected = None"
  then obtain endpoint where found: "findEndpoint (endpoints contract) (ex_endpoint_id expected) = Some endpoint"
    by (auto simp: validateExpectedContract_def split: option.splits)
  have "length (endpoints contract) = 1" using ok found by (auto simp: validateExpectedContract_def split: if_splits)
  then obtain e where "endpoints contract = [e]" by (auto simp: length_Suc_conv)
  then have "endpoints contract = [endpoint]" "endpoint_id endpoint = ex_endpoint_id expected"
    using found by (auto split: if_splits)
  then show "contract = compiled_contract expected"
    using ok found
    by (cases contract, cases endpoint)
      (auto simp: validateExpectedContract_def compiled_contract_def schema_given_iff limits_given_iff split: if_splits)
next
  assume "contract = compiled_contract expected"
  then show "validateExpectedContract contract expected = None"
    by (simp add: validateExpectedContract_def compiled_contract_def schema_given_iff limits_given_iff)
qed

definition compiled_binding :: "expected_endpoint \<Rightarrow> capability_callbacks \<Rightarrow> binding" where
  "compiled_binding expected callbacks =
     (ex_capability_id expected, ex_contract_version expected, ex_contract_digest expected, callbacks)"

lemma bind_contract_iff:
  assumes "ex_capability_id kPublish \<noteq> ex_capability_id kService"
  shows "bind_contract sdk kPublish kService contract bound = Inr (bound', binding) \<longleftrightarrow>
    (\<exists>callbacks. let expected = callbacks_endpoint kPublish kService callbacks in
       contract = compiled_contract expected \<and> callbacks \<notin> set bound \<and>
       binding = compiled_binding expected callbacks \<and> sdk binding = None \<and> bound' = callbacks # bound)"
proof -
  have expected: "expected_callbacks kPublish kService (compiled_contract (callbacks_endpoint kPublish kService c)) = Some c" for c
    using assms by (cases c) (auto simp: expected_callbacks_def compiled_contract_def)
  show ?thesis
  proof
    assume run: "bind_contract sdk kPublish kService contract bound = Inr (bound', binding)"
    then obtain c where c: "expected_callbacks kPublish kService contract = Some c"
      by (auto simp: bind_contract_def split: option.splits)
    then have "contract = compiled_contract (callbacks_endpoint kPublish kService c)" "c \<notin> set bound"
      using run by (auto simp: bind_contract_def Let_def validateExpectedContract_iff split: option.splits if_splits)
    then show "\<exists>callbacks. let expected = callbacks_endpoint kPublish kService callbacks in
       contract = compiled_contract expected \<and> callbacks \<notin> set bound \<and>
       binding = compiled_binding expected callbacks \<and> sdk binding = None \<and> bound' = callbacks # bound"
      using run c
      by (intro exI [of _ c])
        (auto simp: bind_contract_def Let_def compiled_binding_def compiled_contract_def split: option.splits if_splits)
  next
    assume "\<exists>callbacks. let expected = callbacks_endpoint kPublish kService callbacks in
       contract = compiled_contract expected \<and> callbacks \<notin> set bound \<and>
       binding = compiled_binding expected callbacks \<and> sdk binding = None \<and> bound' = callbacks # bound"
    then obtain c where c: "contract = compiled_contract (callbacks_endpoint kPublish kService c)" "c \<notin> set bound"
      "binding = compiled_binding (callbacks_endpoint kPublish kService c) c" "sdk binding = None" "bound' = c # bound"
      by (auto simp: Let_def)
    moreover have "validateExpectedContract contract (callbacks_endpoint kPublish kService c) = None"
      using c(1) by (simp add: validateExpectedContract_iff)
    ultimately show "bind_contract sdk kPublish kService contract bound = Inr (bound', binding)"
      using expected [of c] by (simp add: bind_contract_def compiled_binding_def) (simp add: compiled_contract_def)
  qed
qed

text \<open>Whatever the outcome, only compiled contracts that the SDK accepted have been bound.\<close>

definition sound_bindings ::
  "(binding \<Rightarrow> string option) \<Rightarrow> expected_endpoint \<Rightarrow> expected_endpoint \<Rightarrow> binding list \<Rightarrow> bool" where
  "sound_bindings sdk kPublish kService made \<longleftrightarrow>
     (\<forall>binding \<in> set made. sdk binding = None \<and>
        binding \<in> {compiled_binding kPublish PublishCallbacks, compiled_binding kService ServiceCallbacks})"

lemma compiled_binding_cases:
  "compiled_binding (callbacks_endpoint kPublish kService c) c \<in>
     {compiled_binding kPublish PublishCallbacks, compiled_binding kService ServiceCallbacks}"
  by (cases c) simp_all

lemma bind_contracts_sound:
  assumes "ex_capability_id kPublish \<noteq> ex_capability_id kService"
    and "bind_contracts sdk kPublish kService contracts bound made = (r, made')"
  shows "\<exists>new. made' = made @ new \<and> sound_bindings sdk kPublish kService new"
  using assms(2)
proof (induction contracts arbitrary: bound made)
  case Nil
  then show ?case by (auto simp: sound_bindings_def)
next
  case (Cons contract rest)
  show ?case
  proof (cases "bind_contract sdk kPublish kService contract bound")
    case (Inl reason)
    then show ?thesis using Cons.prems by (auto simp: sound_bindings_def)
  next
    case (Inr step)
    then obtain bound' binding where step: "bind_contract sdk kPublish kService contract bound = Inr (bound', binding)"
      by (cases step) auto
    then have "sound_bindings sdk kPublish kService [binding]"
      using compiled_binding_cases [of kPublish kService]
      by (auto simp: bind_contract_iff [OF assms(1)] Let_def sound_bindings_def)
    moreover obtain new where "made' = (made @ [binding]) @ new" "sound_bindings sdk kPublish kService new"
      using Cons.IH [of bound' "made @ [binding]"] Cons.prems step by auto
    ultimately show ?thesis by (intro exI [of _ "binding # new"]) (auto simp: sound_bindings_def)
  qed
qed

lemma callbacks_cases: "{c, d} = {PublishCallbacks, ServiceCallbacks} \<longleftrightarrow> c \<noteq> d"
  by (cases c; cases d) auto

lemma bind_two_contracts:
  assumes "ex_capability_id kPublish \<noteq> ex_capability_id kService"
  shows "bind_contracts sdk kPublish kService [c1, c2] [] made = (Inr bound, made') \<longleftrightarrow>
    (\<exists>x y. x \<noteq> y \<and> c1 = compiled_contract (callbacks_endpoint kPublish kService x) \<and>
       c2 = compiled_contract (callbacks_endpoint kPublish kService y) \<and>
       sdk (compiled_binding (callbacks_endpoint kPublish kService x) x) = None \<and>
       sdk (compiled_binding (callbacks_endpoint kPublish kService y) y) = None \<and>
       bound = [y, x] \<and>
       made' = made @ [compiled_binding (callbacks_endpoint kPublish kService x) x,
         compiled_binding (callbacks_endpoint kPublish kService y) y])" (is "?run \<longleftrightarrow> ?spec")
proof
  assume ?run
  then obtain b1 m1 m2 where run: "bind_contract sdk kPublish kService c1 [] = Inr (b1, m1)"
    "bind_contract sdk kPublish kService c2 b1 = Inr (bound, m2)" "made' = made @ [m1, m2]"
    by (auto split: sum.splits)
  then show ?spec unfolding bind_contract_iff [OF assms] Let_def by fastforce
next
  assume ?spec
  then obtain x y where xy: "x \<noteq> y" "c1 = compiled_contract (callbacks_endpoint kPublish kService x)"
    "c2 = compiled_contract (callbacks_endpoint kPublish kService y)"
    "sdk (compiled_binding (callbacks_endpoint kPublish kService x) x) = None"
    "sdk (compiled_binding (callbacks_endpoint kPublish kService y) y) = None" "bound = [y, x]"
    "made' = made @ [compiled_binding (callbacks_endpoint kPublish kService x) x,
         compiled_binding (callbacks_endpoint kPublish kService y) y]" by blast
  have "bind_contract sdk kPublish kService c1 [] =
      Inr ([x], compiled_binding (callbacks_endpoint kPublish kService x) x)"
    "bind_contract sdk kPublish kService c2 [x] =
      Inr ([y, x], compiled_binding (callbacks_endpoint kPublish kService y) y)"
    unfolding bind_contract_iff [OF assms] Let_def using xy by auto
  then show ?run using xy(6,7) by simp
qed

lemma BindCapabilities_outcome:
  assumes "ex_capability_id kPublish \<noteq> ex_capability_id kService"
    and "BindCapabilities sdk kPublish kService config adapter_given = ((ok, error), config')"
  shows "(ok \<longleftrightarrow> (\<exists>c. config = Some c \<and> adapter_given \<and>
      (capabilities c = [compiled_contract kPublish, compiled_contract kService] \<or>
       capabilities c = [compiled_contract kService, compiled_contract kPublish]) \<and>
      sdk (compiled_binding kPublish PublishCallbacks) = None \<and>
      sdk (compiled_binding kService ServiceCallbacks) = None)) \<and>
    (\<exists>new. map_option bindings config' = map_option (\<lambda>c. bindings c @ new) config \<and>
      sound_bindings sdk kPublish kService new \<and>
      (ok \<longrightarrow> length new = 2 \<and>
         set new = {compiled_binding kPublish PublishCallbacks, compiled_binding kService ServiceCallbacks}))"
proof (cases "\<exists>c c1 c2. config = Some c \<and> adapter_given \<and> capabilities c = [c1, c2]")
  case True
  then obtain c c1 c2 where c: "config = Some c" "adapter_given" "capabilities c = [c1, c2]" by blast
  obtain r made where run: "bind_contracts sdk kPublish kService [c1, c2] [] (bindings c) = (r, made)"
    by (cases "bind_contracts sdk kPublish kService [c1, c2] [] (bindings c)")
  obtain new where new: "made = bindings c @ new" "sound_bindings sdk kPublish kService new"
    using bind_contracts_sound [OF assms(1) run] by blast
  note two = bind_two_contracts [OF assms(1), of sdk c1 c2 "bindings c"]
  have result: "ok \<longleftrightarrow> (\<exists>bound. r = Inr bound \<and> PublishCallbacks \<in> set bound \<and> ServiceCallbacks \<in> set bound)"
    "config' = Some (c\<lparr>bindings := made\<rparr>)"
    using assms(2) c run by (auto simp: BindCapabilities_def split: sum.splits)
  show ?thesis
  proof (cases "\<exists>bound. r = Inr bound")
    case True
    then obtain bound where bound: "r = Inr bound" by blast
    then obtain x y where xy: "x \<noteq> y" "c1 = compiled_contract (callbacks_endpoint kPublish kService x)"
      "c2 = compiled_contract (callbacks_endpoint kPublish kService y)"
      "sdk (compiled_binding (callbacks_endpoint kPublish kService x) x) = None"
      "sdk (compiled_binding (callbacks_endpoint kPublish kService y) y) = None" "bound = [y, x]"
      "made = bindings c @ [compiled_binding (callbacks_endpoint kPublish kService x) x,
         compiled_binding (callbacks_endpoint kPublish kService y) y]"
      using run [unfolded bound two] by blast
    then have "new = [compiled_binding (callbacks_endpoint kPublish kService x) x,
         compiled_binding (callbacks_endpoint kPublish kService y) y]" using new(1) by simp
    then have spec: "(capabilities c = [compiled_contract kPublish, compiled_contract kService] \<or>
        capabilities c = [compiled_contract kService, compiled_contract kPublish]) \<and>
        sdk (compiled_binding kPublish PublishCallbacks) = None \<and> sdk (compiled_binding kService ServiceCallbacks) = None"
      and all: "length new = 2 \<and> set new = {compiled_binding kPublish PublishCallbacks, compiled_binding kService ServiceCallbacks}"
      and "PublishCallbacks \<in> set bound \<and> ServiceCallbacks \<in> set bound"
      using xy(1-6) c(3) by (cases x; cases y; auto)+
    then have "ok" using result(1) bound by blast
    then show ?thesis using spec all result(2) new c(1,2) by (intro conjI exI [of _ new]) simp_all
  next
    case False
    have "\<not> (capabilities c = [compiled_contract kPublish, compiled_contract kService] \<or>
       capabilities c = [compiled_contract kService, compiled_contract kPublish]) \<or>
       sdk (compiled_binding kPublish PublishCallbacks) \<noteq> None \<or> sdk (compiled_binding kService ServiceCallbacks) \<noteq> None"
    proof -
      have no: "\<not> (c1 = compiled_contract (callbacks_endpoint kPublish kService x) \<and>
         c2 = compiled_contract (callbacks_endpoint kPublish kService y) \<and>
         sdk (compiled_binding (callbacks_endpoint kPublish kService x) x) = None \<and>
         sdk (compiled_binding (callbacks_endpoint kPublish kService y) y) = None)" if "x \<noteq> y" for x y
      proof
        assume "c1 = compiled_contract (callbacks_endpoint kPublish kService x) \<and>
         c2 = compiled_contract (callbacks_endpoint kPublish kService y) \<and>
         sdk (compiled_binding (callbacks_endpoint kPublish kService x) x) = None \<and>
         sdk (compiled_binding (callbacks_endpoint kPublish kService y) y) = None"
        then have "bind_contracts sdk kPublish kService [c1, c2] [] (bindings c) =
          (Inr [y, x], bindings c @ [compiled_binding (callbacks_endpoint kPublish kService x) x,
             compiled_binding (callbacks_endpoint kPublish kService y) y])"
          unfolding two using that by blast
        then show False using run False by auto
      qed
      show ?thesis using no [of PublishCallbacks ServiceCallbacks] no [of ServiceCallbacks PublishCallbacks] c(3) by auto
    qed
    moreover have "\<not> ok" using result(1) False by blast
    ultimately show ?thesis using result(2) new c(1,2) by (intro conjI exI [of _ new]) simp_all
  qed
next
  case False
  then have "\<not> ok \<and> config' = config"
    using assms(2) by (auto simp: BindCapabilities_def length_Suc_conv numeral_2_eq_2 split: option.splits if_splits)
  then show ?thesis using False by (intro conjI exI [of _ "[]"]) (auto simp: sound_bindings_def)
qed

section \<open>Properties\<close>

text \<open>
  C14. \<^verbatim>\<open>BindCapabilities\<close> succeeds exactly for a bootstrap that advertises the two compiled
  contracts, in either order and nothing else - where a contract that passes the check field by
  field is the compiled one - and whose bindings the SDK accepts. Then each capability is bound
  once, with its own identifier, version and digest, to the callbacks of its own kind; and a
  failure leaves no binding other than such ones behind.
\<close>

theorem capabilities_bound_exactly:
  assumes "ex_capability_id kPublish \<noteq> ex_capability_id kService"
    and "BindCapabilities sdk kPublish kService config adapter_given = ((ok, error), config')"
  shows "(ok \<longleftrightarrow> (\<exists>c. config = Some c \<and> adapter_given \<and>
      (capabilities c = [compiled_contract kPublish, compiled_contract kService] \<or>
       capabilities c = [compiled_contract kService, compiled_contract kPublish]) \<and>
      sdk (compiled_binding kPublish PublishCallbacks) = None \<and>
      sdk (compiled_binding kService ServiceCallbacks) = None)) \<and>
    (\<exists>new. map_option bindings config' = map_option (\<lambda>c. bindings c @ new) config \<and>
      sound_bindings sdk kPublish kService new \<and>
      (ok \<longrightarrow> length new = 2 \<and>
         set new = {compiled_binding kPublish PublishCallbacks, compiled_binding kService ServiceCallbacks}))"
  by (rule BindCapabilities_outcome [OF assms])

definition sample_endpoint :: "string \<Rightarrow> expected_endpoint" where
  "sample_endpoint name =
     \<lparr>ex_capability_id = name, ex_contract_version = 1, ex_contract_digest = ''sha256:0'', ex_endpoint_id = ''run'',
      ex_input_schema = sample_schema, ex_output_schema = sample_schema, ex_default_timeout_ms = 1000,
      ex_maximum_timeout_ms = 60000,
      ex_limits = \<lparr>maximum_request_bytes = 4096, maximum_response_bytes = 4096, maximum_concurrency = 16,
        maximum_streams = 0, maximum_stream_chunk_bytes = 0, maximum_stream_chunk_messages = 0\<rparr>\<rparr>"

theorem capabilities_bound_exactly_witness:
  "\<exists>error config'. BindCapabilities (\<lambda>_. None) (sample_endpoint ''publish'') (sample_endpoint ''service'')
     (Some \<lparr>capabilities = [compiled_contract (sample_endpoint ''service''), compiled_contract (sample_endpoint ''publish'')],
        bindings = []\<rparr>) True = ((True, error), config')"
proof -
  let ?P = "sample_endpoint ''publish''" and ?S = "sample_endpoint ''service''"
  let ?config = "\<lparr>capabilities = [compiled_contract ?S, compiled_contract ?P], bindings = []\<rparr>"
  obtain ok error config' where run: "BindCapabilities (\<lambda>_. None) ?P ?S (Some ?config) True = ((ok, error), config')"
    by (metis prod.collapse)
  have "ex_capability_id ?P \<noteq> ex_capability_id ?S" by (simp add: sample_endpoint_def)
  from capabilities_bound_exactly [OF this run] have ok by simp
  then show ?thesis using run by auto
qed

end
