(* ===== verification/Ros_Message.thy ===== *)
theory Ros_Message
  imports Ieee_Float
begin

text \<open>
  The dynamic ROS messages the adapter works on. The message classes belong to the
  introspection library; what the sources rely on is their tree structure: a message has a
  type, a compound message a table of field names and a table of field values, an array an
  element type, a fixed or a dynamic size and its elements, and a dynamic array of compound
  messages the template its new elements are copied from.

  A signed field is kept as the word of its width and read by \<open>sint\<close>.
\<close>

section \<open>Messages\<close>

datatype mtype =
    TNone | TBool | TUInt8 | TUInt16 | TUInt32 | TUInt64 | TInt8 | TInt16 | TInt32 | TInt64
  | TFloat32 | TFloat64 | TString | TTime | TDuration | TCompound | TArray

datatype msg =
    MNone
  | MBool bool
  | MUInt8 "8 word" | MUInt16 "16 word" | MUInt32 "32 word" | MUInt64 "64 word"
  | MInt8 "8 word" | MInt16 "16 word" | MInt32 "32 word" | MInt64 "64 word"
  | MFloat32 fp | MFloat64 fp
  | MString string
  | MTime "32 word" "32 word"
  | MDuration "32 word" "32 word"
  | MCompound "string list" "msg list"
  | MArray mtype bool "msg list"
  | MCompoundArray bool msg "msg list"

fun message_type :: "msg \<Rightarrow> mtype" where
  "message_type MNone = TNone"
| "message_type (MBool _) = TBool"
| "message_type (MUInt8 _) = TUInt8"
| "message_type (MUInt16 _) = TUInt16"
| "message_type (MUInt32 _) = TUInt32"
| "message_type (MUInt64 _) = TUInt64"
| "message_type (MInt8 _) = TInt8"
| "message_type (MInt16 _) = TInt16"
| "message_type (MInt32 _) = TInt32"
| "message_type (MInt64 _) = TInt64"
| "message_type (MFloat32 _) = TFloat32"
| "message_type (MFloat64 _) = TFloat64"
| "message_type (MString _) = TString"
| "message_type (MTime _ _) = TTime"
| "message_type (MDuration _ _) = TDuration"
| "message_type (MCompound _ _) = TCompound"
| "message_type (MArray _ _ _) = TArray"
| "message_type (MCompoundArray _ _ _) = TArray"

definition primitive_type :: "mtype \<Rightarrow> bool" where
  "primitive_type t \<longleftrightarrow> t \<notin> {TNone, TCompound, TArray}"

section \<open>Types and well-formed messages\<close>

text \<open>
  \<open>same_type t m\<close>: the message \<open>m\<close> is of the ROS type of which \<open>t\<close> is a value. Field
  tables agree name by name, arrays agree in element type and, when the size is fixed, in
  size.
\<close>

fun same_type :: "msg \<Rightarrow> msg \<Rightarrow> bool" where
  "same_type t m \<longleftrightarrow>
     (case t of
        MCompound ks vs \<Rightarrow>
          (case m of MCompound ks' vs' \<Rightarrow> ks = ks' \<and> list_all2 same_type vs vs' | _ \<Rightarrow> False)
      | MArray e f xs \<Rightarrow>
          (case m of MArray e' f' ys \<Rightarrow>
             e = e' \<and> f = f' \<and> (f \<longrightarrow> length xs = length ys) \<and> (\<forall>y \<in> set ys. message_type y = e)
           | _ \<Rightarrow> False)
      | MCompoundArray f t' xs \<Rightarrow>
          (case m of MCompoundArray f' t'' ys \<Rightarrow>
             f = f' \<and> t' = t'' \<and> (f \<longrightarrow> length xs = length ys) \<and> (\<forall>y \<in> set ys. same_type t' y)
           | _ \<Rightarrow> False)
      | _ \<Rightarrow> message_type m = message_type t)"

declare same_type.simps [simp del]

text \<open>The values JSON can represent: every floating point field is finite.\<close>

fun finite_msg :: "msg \<Rightarrow> bool" where
  "finite_msg (MFloat32 x) \<longleftrightarrow> isfinite binary32 x"
| "finite_msg (MFloat64 x) \<longleftrightarrow> isfinite binary64 x"
| "finite_msg (MCompound ks vs) \<longleftrightarrow> (\<forall>v \<in> set vs. finite_msg v)"
| "finite_msg (MArray t f xs) \<longleftrightarrow> (\<forall>x \<in> set xs. finite_msg x)"
| "finite_msg (MCompoundArray f t xs) \<longleftrightarrow> (\<forall>x \<in> set xs. finite_msg x)"
| "finite_msg m \<longleftrightarrow> True"

text \<open>
  The invariant of a message: floating point fields hold values of their format, time and
  duration are normalised, field names are distinct and each has a value, the elements of
  an array have its element type, and those of a compound array have its template's type; the
  template itself holds no infinity and no NaN (new elements are zero).
\<close>

fun wf_msg :: "msg \<Rightarrow> bool" where
  "wf_msg MNone \<longleftrightarrow> False"
| "wf_msg (MFloat32 x) \<longleftrightarrow> wf_fp binary32 x"
| "wf_msg (MFloat64 x) \<longleftrightarrow> wf_fp binary64 x"
| "wf_msg (MTime s n) \<longleftrightarrow> unat n < 1000000000"
| "wf_msg (MDuration s n) \<longleftrightarrow> 0 \<le> sint n \<and> sint n < 1000000000"
| "wf_msg (MCompound ks vs) \<longleftrightarrow>
     distinct ks \<and> length ks = length vs \<and> (\<forall>v \<in> set vs. wf_msg v)"
| "wf_msg (MArray t f xs) \<longleftrightarrow>
     primitive_type t \<and> (\<forall>x \<in> set xs. message_type x = t \<and> wf_msg x)"
| "wf_msg (MCompoundArray f t xs) \<longleftrightarrow>
     message_type t = TCompound \<and> wf_msg t \<and> finite_msg t \<and>
     (\<forall>x \<in> set xs. message_type x = TCompound \<and> wf_msg x \<and> same_type t x)"
| "wf_msg m \<longleftrightarrow> True"

text \<open>A newly created message: every dynamic array is empty.\<close>

fun fresh_msg :: "msg \<Rightarrow> bool" where
  "fresh_msg (MCompound ks vs) \<longleftrightarrow> (\<forall>v \<in> set vs. fresh_msg v)"
| "fresh_msg (MArray t f xs) \<longleftrightarrow> f \<or> xs = []"
| "fresh_msg (MCompoundArray f t xs) \<longleftrightarrow>
     fresh_msg t \<and> (if f then \<forall>x \<in> set xs. fresh_msg x else xs = [])"
| "fresh_msg m \<longleftrightarrow> True"

text \<open>
  The nesting of a message and the sizes of its arrays, as the limits of the codec measure
  them.
\<close>

fun nesting_within :: "nat \<Rightarrow> msg \<Rightarrow> bool" where
  "nesting_within n (MCompound ks vs) \<longleftrightarrow> (\<forall>v \<in> set vs. 0 < n \<and> nesting_within (n - 1) v)"
| "nesting_within n (MCompoundArray f t xs) \<longleftrightarrow> (\<forall>x \<in> set xs. 0 < n \<and> nesting_within (n - 1) x)"
| "nesting_within n m \<longleftrightarrow> True"

fun arrays_within :: "nat \<Rightarrow> msg \<Rightarrow> bool" where
  "arrays_within n (MCompound ks vs) \<longleftrightarrow> (\<forall>v \<in> set vs. arrays_within n v)"
| "arrays_within n (MArray t f xs) \<longleftrightarrow> length xs \<le> n"
| "arrays_within n (MCompoundArray f t xs) \<longleftrightarrow> length xs \<le> n \<and> (\<forall>x \<in> set xs. arrays_within n x)"
| "arrays_within n m \<longleftrightarrow> True"

section \<open>The constructors of ROS time\<close>

text \<open>
  \<^verbatim>\<open>ros::Time(sec, nsec)\<close> and \<^verbatim>\<open>ros::Duration(sec, nsec)\<close> are library code: they
  normalise their arguments and throw when the result does not fit. The sources rely on a
  normalised pair being kept, and on the result being normalised.
\<close>

record ros_time_api =
  newTime :: "32 word \<Rightarrow> 32 word \<Rightarrow> (32 word \<times> 32 word) result"
  newDuration :: "32 word \<Rightarrow> 32 word \<Rightarrow> (32 word \<times> 32 word) result"

locale ros_time =
  fixes R :: ros_time_api
  assumes time_normal: "unat n < 1000000000 \<Longrightarrow> newTime R s n = Inr (s, n)"
    and duration_normal:
      "0 \<le> sint n \<Longrightarrow> sint n < 1000000000 \<Longrightarrow> newDuration R s n = Inr (s, n)"
    and duration_normalised:
      "newDuration R s n = Inr (s', n') \<Longrightarrow> 0 \<le> sint n' \<and> sint n' < 1000000000"

text \<open>Constructors with that behaviour: the carry of the nanoseconds goes to the seconds.\<close>

definition ros_time_reference :: ros_time_api where
  "ros_time_reference =
     \<lparr>newTime = (\<lambda>s n.
        let s' = unat s + unat n div 1000000000; n' = unat n mod 1000000000
        in if s' > 4294967295 then stdError ''Time is out of dual 32-bit range''
           else Inr (word_of_nat s', word_of_nat n')),
      newDuration = (\<lambda>s n.
        let s' = sint s + sint n div 1000000000; n' = sint n mod 1000000000
        in if s' < - 2147483648 \<or> s' > 2147483647
           then stdError ''Duration is out of dual 32-bit range''
           else Inr (word_of_int s', word_of_int n'))\<rparr>"

section \<open>Lemmas\<close>

lemma wf_msg_primitive: "wf_msg m \<Longrightarrow> message_type m \<noteq> TNone"
  by (cases m) auto

definition scalar_type :: "mtype \<Rightarrow> bool" where
  "scalar_type t \<longleftrightarrow> t \<noteq> TCompound \<and> t \<noteq> TArray"

lemma same_type_scalar:
  "scalar_type (message_type t) \<Longrightarrow> same_type t m \<longleftrightarrow> message_type m = message_type t"
  unfolding same_type.simps [of t m] by (cases t) (simp_all add: scalar_type_def)

lemma same_type_compound [simp]:
  "same_type (MCompound ks vs) m \<longleftrightarrow> (\<exists>ws. m = MCompound ks ws \<and> list_all2 same_type vs ws)"
  by (cases m) (auto simp: same_type.simps [of "MCompound ks vs"])

lemma same_type_array [simp]:
  "same_type (MArray t f xs) m \<longleftrightarrow>
     (\<exists>ys. m = MArray t f ys \<and> (f \<longrightarrow> length xs = length ys) \<and> (\<forall>y \<in> set ys. message_type y = t))"
  by (cases m) (auto simp: same_type.simps [of "MArray t f xs"])

lemma same_type_compound_array [simp]:
  "same_type (MCompoundArray f t xs) m \<longleftrightarrow>
     (\<exists>ys. m = MCompoundArray f t ys \<and> (f \<longrightarrow> length xs = length ys) \<and> (\<forall>y \<in> set ys. same_type t y))"
  by (cases m) (auto simp: same_type.simps [of "MCompoundArray f t xs"])

lemma message_shape:
  obtains (scalar) "scalar_type (message_type m)"
    | (compound) ks vs where "m = MCompound ks vs"
    | (array) t fixed items where "m = MArray t fixed items"
    | (compound_array) fixed t items where "m = MCompoundArray fixed t items"
  by (cases m) (auto simp: scalar_type_def)

lemma same_type_message_type: "same_type t m \<Longrightarrow> message_type m = message_type t"
  by (cases t rule: message_shape) (auto simp: same_type_scalar)

lemma same_type_to_compound:
  "same_type b (MCompound ks vs) \<longleftrightarrow> (\<exists>us. b = MCompound ks us \<and> list_all2 same_type us vs)"
  by (cases b rule: message_shape) (auto simp: same_type_scalar scalar_type_def)

lemma same_type_to_array:
  "same_type b (MArray t f ys) \<Longrightarrow> \<exists>xs. b = MArray t f xs \<and> (f \<longrightarrow> length xs = length ys)"
  by (cases b rule: message_shape) (auto simp: same_type_scalar scalar_type_def)

lemma same_type_to_compound_array:
  "same_type b (MCompoundArray f t ys) \<Longrightarrow>
     \<exists>xs. b = MCompoundArray f t xs \<and> (f \<longrightarrow> length xs = length ys)"
  by (cases b rule: message_shape) (auto simp: same_type_scalar scalar_type_def)

lemma same_type_refl: "wf_msg m \<Longrightarrow> same_type m m"
proof (induction m)
  case (MCompound ks vs)
  then show ?case by (auto intro: list.rel_refl_strong)
qed (auto simp: same_type_scalar scalar_type_def)

lemma same_type_common: "same_type t x \<Longrightarrow> same_type t y \<Longrightarrow> same_type x y"
proof (induction t arbitrary: x y)
  case (MCompound ks vs)
  then obtain ws us where xy: "x = MCompound ks ws" "y = MCompound ks us"
      and all: "list_all2 same_type vs ws" "list_all2 same_type vs us"
    by (auto simp: same_type_compound)
  have "same_type (ws ! i) (us ! i)" if "i < length ws" for i
    using MCompound.IH [of "vs ! i" "ws ! i" "us ! i"] all that
    by (simp add: list_all2_conv_all_nth)
  then show ?case using all by (simp add: xy list_all2_conv_all_nth)
qed (auto simp: same_type_scalar scalar_type_def)

lemma same_type_trans: "same_type t x \<Longrightarrow> same_type x y \<Longrightarrow> same_type t y"
proof (induction t arbitrary: x y)
  case (MCompound ks vs)
  then obtain ws us where xy: "x = MCompound ks ws" "y = MCompound ks us"
      and all: "list_all2 same_type vs ws" "list_all2 same_type ws us"
    by auto
  have "same_type (vs ! i) (us ! i)" if "i < length vs" for i
    using MCompound.IH [of "vs ! i" "ws ! i" "us ! i"] all that
    by (simp add: list_all2_conv_all_nth)
  then show ?case using all by (simp add: xy list_all2_conv_all_nth)
qed (auto simp: same_type_scalar scalar_type_def)

lemma sint_word_of_int_range:
  assumes "- (2 ^ (LENGTH('w) - 1)) \<le> i" and "i < 2 ^ (LENGTH('w) - 1)"
  shows "sint (word_of_int i :: 'w::len word) = i"
  using assms by (simp add: signed_of_int signed_take_bit_int_eq_self)

lemma sint_bounds:
  fixes w :: "'w::len word"
  shows "- (2 ^ (LENGTH('w) - 1)) \<le> sint w" "sint w < 2 ^ (LENGTH('w) - 1)"
  using sint_range_size [of w] by (simp_all add: word_size)

lemma sint_word32_small:
  fixes i :: int
  assumes "- 2147483648 \<le> i" and "i \<le> 2147483647"
  shows "sint (word_of_int i :: 32 word) = i"
  using sint_word_of_int_range [of i, where ?'w = 32] assms by simp

interpretation reference_time: ros_time ros_time_reference
proof
  fix s n :: "32 word"
  assume "unat n < 1000000000"
  moreover have "unat s < 4294967296" by (rule unat32_less)
  ultimately show "newTime ros_time_reference s n = Inr (s, n)"
    by (simp add: ros_time_reference_def Let_def)
next
  fix s n :: "32 word"
  assume "0 \<le> sint n" and "sint n < 1000000000"
  moreover have "- 2147483648 \<le> sint s" "sint s < 2147483648"
    using sint_range_size [of s] by (simp_all add: word_size)
  ultimately show "newDuration ros_time_reference s n = Inr (s, n)"
    by (simp add: ros_time_reference_def Let_def)
next
  fix s n s' n' :: "32 word"
  assume "newDuration ros_time_reference s n = Inr (s', n')"
  then have "n' = word_of_int (sint n mod 1000000000)"
    by (simp add: ros_time_reference_def Let_def stdError_def split: if_splits)
  moreover have "sint (word_of_int (sint n mod 1000000000) :: 32 word) = sint n mod 1000000000"
    by (rule sint_word32_small) (use pos_mod_bound [of 1000000000 "sint n"] in auto)
  ultimately show "0 \<le> sint n' \<and> sint n' < 1000000000" by simp
qed

end
