(* ===== verification/Helper_Protocol.thy ===== *)
theory Helper_Protocol
  imports Adapter_Prelude
begin

text \<open>
  The private protocol between the adapter and its one-shot service helper:
  \<^verbatim>\<open>service_helper_protocol.hpp\<close>. A frame is a record of machine words; its memory
  image, which is what crosses the socket, is the 64-byte little-endian layout of the
  trivially copyable struct.
\<close>

type_synonym byte = "8 word"

section \<open>Constants and enumerations\<close>

definition kServiceHelperProtocolMagic :: "32 word" where
  "kServiceHelperProtocolMagic = 0x58325253"

definition kServiceHelperProtocolVersion :: "16 word" where
  "kServiceHelperProtocolVersion = 1"

definition kMaximumServiceNameBytes :: nat where
  "kMaximumServiceNameBytes = 4096"

definition kServiceMd5Bytes :: nat where
  "kServiceMd5Bytes = 32"

definition kMaximumServicePayloadBytes :: nat where
  "kMaximumServicePayloadBytes = 8 * 1024 * 1024"

definition kMaximumServiceWaitMilliseconds :: nat where
  "kMaximumServiceWaitMilliseconds = 300000"

datatype frame_kind = KRequest | KReady | KCommit | KResponse

fun frame_kind_code :: "frame_kind \<Rightarrow> 16 word" where
  "frame_kind_code KRequest = 1"
| "frame_kind_code KReady = 2"
| "frame_kind_code KCommit = 3"
| "frame_kind_code KResponse = 4"

datatype ready_status = ReadyReady | ReadyServiceUnavailable | ReadyProtocolError

fun ready_status_code :: "ready_status \<Rightarrow> 32 word" where
  "ready_status_code ReadyReady = 1"
| "ready_status_code ReadyServiceUnavailable = 2"
| "ready_status_code ReadyProtocolError = 3"

datatype response_status =
  RespCompleted | RespCallFailed | RespResponseTooLarge | RespProtocolError

fun response_status_code :: "response_status \<Rightarrow> 32 word" where
  "response_status_code RespCompleted = 1"
| "response_status_code RespCallFailed = 2"
| "response_status_code RespResponseTooLarge = 3"
| "response_status_code RespProtocolError = 4"

section \<open>Frames\<close>

record frame =
  magic :: "32 word"
  version :: "16 word"
  kind :: "16 word"
  request_id :: "64 word"
  status :: "32 word"
  service_name_bytes :: "32 word"
  service_md5_bytes :: "32 word"
  payload_bytes :: "32 word"
  wait_for_service_ms :: "32 word"
  reserved :: "byte list"

definition zero_frame :: frame where
  "zero_frame =
     \<lparr>magic = 0, version = 0, kind = 0, request_id = 0, status = 0, service_name_bytes = 0,
      service_md5_bytes = 0, payload_bytes = 0, wait_for_service_ms = 0,
      reserved = replicate 28 0\<rparr>"

fun serviceHelperBytesAreZero :: "byte list \<Rightarrow> bool" where
  "serviceHelperBytesAreZero [] = True"
| "serviceHelperBytesAreZero (b # bs) = (if b \<noteq> 0 then False else serviceHelperBytesAreZero bs)"

definition hex_character :: "char \<Rightarrow> bool" where
  "hex_character c =
     (let n = of_char c :: nat
      in (48 \<le> n \<and> n \<le> 57) \<or> (97 \<le> n \<and> n \<le> 102) \<or> (65 \<le> n \<and> n \<le> 70))"

definition validServiceMd5 :: "string \<Rightarrow> bool" where
  "validServiceMd5 val \<longleftrightarrow> length val = kServiceMd5Bytes \<and> list_all hex_character val"

text \<open>The sizes are \<^verbatim>\<open>std::size_t\<close>; the casts to 32 bits truncate.\<close>

definition makeServiceHelperRequest ::
  "64 word \<Rightarrow> 64 word \<Rightarrow> 64 word \<Rightarrow> 64 word \<Rightarrow> 32 word \<Rightarrow> frame" where
  "makeServiceHelperRequest rid name_size md5_size payload_size wait_ms =
     zero_frame\<lparr>magic := kServiceHelperProtocolMagic, version := kServiceHelperProtocolVersion,
       kind := frame_kind_code KRequest, request_id := rid,
       service_name_bytes := ucast name_size, service_md5_bytes := ucast md5_size,
       payload_bytes := ucast payload_size, wait_for_service_ms := wait_ms\<rparr>"

definition makeServiceHelperReady :: "64 word \<Rightarrow> ready_status \<Rightarrow> frame" where
  "makeServiceHelperReady rid st =
     zero_frame\<lparr>magic := kServiceHelperProtocolMagic, version := kServiceHelperProtocolVersion,
       kind := frame_kind_code KReady, request_id := rid, status := ready_status_code st\<rparr>"

definition makeServiceHelperCommit :: "64 word \<Rightarrow> frame" where
  "makeServiceHelperCommit rid =
     zero_frame\<lparr>magic := kServiceHelperProtocolMagic, version := kServiceHelperProtocolVersion,
       kind := frame_kind_code KCommit, request_id := rid\<rparr>"

definition makeServiceHelperResponse :: "64 word \<Rightarrow> response_status \<Rightarrow> 64 word \<Rightarrow> frame" where
  "makeServiceHelperResponse rid st payload_size =
     zero_frame\<lparr>magic := kServiceHelperProtocolMagic, version := kServiceHelperProtocolVersion,
       kind := frame_kind_code KResponse, request_id := rid,
       status := response_status_code st, payload_bytes := ucast payload_size\<rparr>"

definition validServiceHelperFrameBase :: "frame \<Rightarrow> bool" where
  "validServiceHelperFrameBase f \<longleftrightarrow>
     magic f = kServiceHelperProtocolMagic \<and> version f = kServiceHelperProtocolVersion \<and>
     request_id f \<noteq> 0 \<and> serviceHelperBytesAreZero (reserved f)"

definition validateServiceHelperRequest :: "frame \<Rightarrow> bool" where
  "validateServiceHelperRequest f \<longleftrightarrow>
     validServiceHelperFrameBase f \<and> kind f = frame_kind_code KRequest \<and>
     status f = 0 \<and> service_name_bytes f > 0 \<and>
     unat (service_name_bytes f) \<le> kMaximumServiceNameBytes \<and>
     unat (service_md5_bytes f) = kServiceMd5Bytes \<and>
     unat (payload_bytes f) \<le> kMaximumServicePayloadBytes \<and>
     unat (wait_for_service_ms f) \<le> kMaximumServiceWaitMilliseconds"

definition validateServiceHelperReady :: "frame \<Rightarrow> 64 word \<Rightarrow> bool" where
  "validateServiceHelperReady f rid =
     (if \<not> validServiceHelperFrameBase f \<or> request_id f \<noteq> rid \<or>
         kind f \<noteq> frame_kind_code KReady \<or>
         service_name_bytes f \<noteq> 0 \<or> service_md5_bytes f \<noteq> 0 \<or>
         payload_bytes f \<noteq> 0 \<or> wait_for_service_ms f \<noteq> 0
      then False
      else status f = ready_status_code ReadyReady \<or>
           status f = ready_status_code ReadyServiceUnavailable \<or>
           status f = ready_status_code ReadyProtocolError)"

definition validateServiceHelperCommit :: "frame \<Rightarrow> 64 word \<Rightarrow> bool" where
  "validateServiceHelperCommit f rid \<longleftrightarrow>
     validServiceHelperFrameBase f \<and> request_id f = rid \<and>
     kind f = frame_kind_code KCommit \<and> status f = 0 \<and> service_name_bytes f = 0 \<and>
     service_md5_bytes f = 0 \<and> payload_bytes f = 0 \<and> wait_for_service_ms f = 0"

definition validateServiceHelperResponse :: "frame \<Rightarrow> 64 word \<Rightarrow> bool" where
  "validateServiceHelperResponse f rid =
     (if \<not> validServiceHelperFrameBase f \<or> request_id f \<noteq> rid \<or>
         kind f \<noteq> frame_kind_code KResponse \<or>
         service_name_bytes f \<noteq> 0 \<or> service_md5_bytes f \<noteq> 0 \<or>
         wait_for_service_ms f \<noteq> 0 \<or> unat (payload_bytes f) > kMaximumServicePayloadBytes
      then False
      else if status f = response_status_code RespCompleted then True
      else payload_bytes f = 0 \<and>
           (status f = response_status_code RespCallFailed \<or>
            status f = response_status_code RespResponseTooLarge \<or>
            status f = response_status_code RespProtocolError))"

section \<open>The memory image of a frame\<close>

fun le_bytes :: "nat \<Rightarrow> nat \<Rightarrow> byte list" where
  "le_bytes 0 x = []"
| "le_bytes (Suc k) x = of_nat (x mod 256) # le_bytes k (x div 256)"

fun le_val :: "byte list \<Rightarrow> nat" where
  "le_val [] = 0"
| "le_val (b # bs) = unat b + 256 * le_val bs"

definition frame_bytes :: "frame \<Rightarrow> byte list" where
  "frame_bytes f =
     le_bytes 4 (unat (magic f)) @ le_bytes 2 (unat (version f)) @ le_bytes 2 (unat (kind f)) @
     le_bytes 8 (unat (request_id f)) @ le_bytes 4 (unat (status f)) @
     le_bytes 4 (unat (service_name_bytes f)) @ le_bytes 4 (unat (service_md5_bytes f)) @
     le_bytes 4 (unat (payload_bytes f)) @ le_bytes 4 (unat (wait_for_service_ms f)) @
     reserved f"

definition slice :: "nat \<Rightarrow> nat \<Rightarrow> 'a list \<Rightarrow> 'a list" where
  "slice start len xs = take len (drop start xs)"

definition frame_of_bytes :: "byte list \<Rightarrow> frame" where
  "frame_of_bytes bs =
     \<lparr>magic = of_nat (le_val (slice 0 4 bs)), version = of_nat (le_val (slice 4 2 bs)),
      kind = of_nat (le_val (slice 6 2 bs)), request_id = of_nat (le_val (slice 8 8 bs)),
      status = of_nat (le_val (slice 16 4 bs)),
      service_name_bytes = of_nat (le_val (slice 20 4 bs)),
      service_md5_bytes = of_nat (le_val (slice 24 4 bs)),
      payload_bytes = of_nat (le_val (slice 28 4 bs)),
      wait_for_service_ms = of_nat (le_val (slice 32 4 bs)),
      reserved = slice 36 28 bs\<rparr>"

definition frame_size :: nat where
  "frame_size = 64"

definition wf_frame :: "frame \<Rightarrow> bool" where
  "wf_frame f \<longleftrightarrow> length (reserved f) = 28"

section \<open>Lemmas on the memory image\<close>

lemma length_le_bytes [simp]: "length (le_bytes k x) = k"
  by (induction k arbitrary: x) simp_all

lemma le_val_le_bytes: "le_val (le_bytes k x) = x mod 256 ^ k"
proof (induction k arbitrary: x)
  case 0
  then show ?case by simp
next
  case (Suc k)
  have "unat (of_nat (x mod 256) :: byte) = x mod 256" by (simp add: unat_of_nat)
  then show ?case using Suc by (simp add: mod_mult2_eq)
qed

lemma le_val_less: "le_val bs < 256 ^ length bs"
proof (induction bs)
  case Nil
  then show ?case by simp
next
  case (Cons b bs)
  have "unat b < 256" by (rule unat8_less)
  with Cons show ?case by simp
qed

lemma le_bytes_le_val: "le_bytes (length bs) (le_val bs) = bs"
proof (induction bs)
  case Nil
  then show ?case by simp
next
  case (Cons b bs)
  have "unat b < 256" by (rule unat8_less)
  with Cons show ?case by simp
qed

lemma length_slice [simp]: "start + len \<le> length xs \<Longrightarrow> length (slice start len xs) = len"
  by (simp add: slice_def)

lemma slice_append1: "length xs = start + len \<Longrightarrow> slice start len (xs @ ys) = drop start xs"
  by (simp add: slice_def)

lemma slice_skip: "length xs \<le> start \<Longrightarrow> slice start len (xs @ ys) = slice (start - length xs) len ys"
  by (simp add: slice_def)

lemma slice_hit: "length xs = len \<Longrightarrow> slice 0 len (xs @ ys) = xs"
  by (simp add: slice_def)

lemma frame_bytes_length: "wf_frame f \<Longrightarrow> length (frame_bytes f) = frame_size"
  by (simp add: frame_bytes_def wf_frame_def frame_size_def)

lemma word_field:
  "unat (w :: 'a::len word) < 256 ^ k \<Longrightarrow> of_nat (le_val (le_bytes k (unat w))) = w"
  by (simp add: le_val_le_bytes)

lemma field_back:
  "length bs = k \<Longrightarrow> 256 ^ k = (2 :: nat) ^ LENGTH('a::len) \<Longrightarrow>
   le_bytes k (unat (of_nat (le_val bs) :: 'a word)) = bs"
  using le_val_less [of bs] le_bytes_le_val [of bs] by (simp add: unat_of_nat)

lemma frame_of_frame_bytes: "wf_frame f \<Longrightarrow> frame_of_bytes (frame_bytes f) = f"
  unfolding frame_of_bytes_def frame_bytes_def wf_frame_def
  by (cases f)
    (simp add: slice_skip slice_hit word_field unat16_less unat32_less unat64_less,
     simp add: slice_def)

lemma slice_split: "slice start (a + b) xs = slice start a xs @ slice (start + a) b xs"
  by (simp add: slice_def take_add ac_simps)

lemma frame_bytes_frame_of: "length bs = frame_size \<Longrightarrow> frame_bytes (frame_of_bytes bs) = bs"
proof -
  assume len: "length bs = frame_size"
  have "frame_bytes (frame_of_bytes bs) =
      slice 0 4 bs @ slice 4 2 bs @ slice 6 2 bs @ slice 8 8 bs @ slice 16 4 bs @
      slice 20 4 bs @ slice 24 4 bs @ slice 28 4 bs @ slice 32 4 bs @ slice 36 28 bs"
    using len by (simp add: frame_bytes_def frame_of_bytes_def field_back frame_size_def)
  also have "\<dots> = slice 0 64 bs"
    using slice_split [of 0 4 60 bs] slice_split [of 4 2 58 bs] slice_split [of 6 2 56 bs]
      slice_split [of 8 8 48 bs] slice_split [of 16 4 44 bs] slice_split [of 20 4 40 bs]
      slice_split [of 24 4 36 bs] slice_split [of 28 4 32 bs] slice_split [of 32 4 28 bs]
    by simp
  finally show ?thesis using len by (simp add: slice_def frame_size_def)
qed

lemma wf_frame_of_bytes: "length bs = frame_size \<Longrightarrow> wf_frame (frame_of_bytes bs)"
  by (simp add: wf_frame_def frame_of_bytes_def frame_size_def)

lemma wf_make_frames [simp]:
  "wf_frame zero_frame"
  "wf_frame (makeServiceHelperRequest rid n m p w)"
  "wf_frame (makeServiceHelperReady rid rs)"
  "wf_frame (makeServiceHelperCommit rid)"
  "wf_frame (makeServiceHelperResponse rid st p)"
  by (simp_all add: wf_frame_def zero_frame_def makeServiceHelperRequest_def
      makeServiceHelperReady_def makeServiceHelperCommit_def makeServiceHelperResponse_def)

section \<open>Validation\<close>

named_theorems frame_simps \<open>unfolding of frame constructors and validators\<close>

lemmas [frame_simps] =
  makeServiceHelperRequest_def makeServiceHelperReady_def makeServiceHelperCommit_def
  makeServiceHelperResponse_def zero_frame_def validServiceHelperFrameBase_def
  validateServiceHelperRequest_def validateServiceHelperReady_def
  validateServiceHelperCommit_def validateServiceHelperResponse_def

lemma bytes_zero_iff: "serviceHelperBytesAreZero bs \<longleftrightarrow> bs = replicate (length bs) 0"
  by (induction bs) auto

lemma bytes_zero_replicate [simp]: "serviceHelperBytesAreZero (replicate n 0)"
  by (simp add: bytes_zero_iff)

lemma unat_ucast_size:
  "unat (ucast (of_nat n :: 64 word) :: 32 word) = n mod 4294967296"
proof -
  have "(n mod 18446744073709551616) mod 4294967296 = n mod 4294967296"
    by (rule mod_mod_cancel) simp
  then show ?thesis by (simp add: unsigned_ucast_eq unsigned_of_nat take_bit_eq_mod)
qed

text \<open>The request frame a caller builds from sizes within the ceilings is valid.\<close>

lemma request_frame_valid:
  assumes "rid \<noteq> 0" and "0 < n" "n \<le> kMaximumServiceNameBytes"
    and "p \<le> kMaximumServicePayloadBytes" and "unat w \<le> kMaximumServiceWaitMilliseconds"
  shows "validateServiceHelperRequest
     (makeServiceHelperRequest rid (of_nat n) (of_nat kServiceMd5Bytes) (of_nat p) w)"
proof -
  have "unat (ucast (of_nat n :: 64 word) :: 32 word) = n"
    "unat (ucast (of_nat p :: 64 word) :: 32 word) = p"
    "unat (ucast (of_nat kServiceMd5Bytes :: 64 word) :: 32 word) = kServiceMd5Bytes"
    using assms
    by (simp_all only: unat_ucast_size)
      (simp_all add: kMaximumServiceNameBytes_def kMaximumServicePayloadBytes_def
        kServiceMd5Bytes_def)
  with assms show ?thesis by (simp add: frame_simps word_less_nat_alt)
qed

lemma commit_frame_iff:
  assumes "wf_frame f"
  shows "validateServiceHelperCommit f rid \<longleftrightarrow> rid \<noteq> 0 \<and> f = makeServiceHelperCommit rid"
  using assms by (cases f) (auto simp: frame_simps bytes_zero_iff wf_frame_def)

lemma ready_frame_iff:
  assumes "wf_frame f"
  shows "validateServiceHelperReady f rid \<longleftrightarrow>
    rid \<noteq> 0 \<and> (\<exists>st. f = makeServiceHelperReady rid st)"
proof
  assume "validateServiceHelperReady f rid"
  with assms show "rid \<noteq> 0 \<and> (\<exists>st. f = makeServiceHelperReady rid st)"
    by (cases f) (auto simp: frame_simps bytes_zero_iff wf_frame_def
        split: if_splits intro: exI [of _ ReadyReady] exI [of _ ReadyServiceUnavailable]
          exI [of _ ReadyProtocolError])
next
  assume "rid \<noteq> 0 \<and> (\<exists>st. f = makeServiceHelperReady rid st)"
  then obtain st where "rid \<noteq> 0" "f = makeServiceHelperReady rid st" by blast
  then show "validateServiceHelperReady f rid" by (cases st) (simp_all add: frame_simps)
qed

lemma ucast_wide_back: "ucast (ucast (x :: 32 word) :: 64 word) = x"
  by (rule bit_word_eqI) (simp add: bit_ucast_iff)

lemma response_frame_shape:
  assumes "wf_frame f" and valid: "validateServiceHelperResponse f rid"
  shows "rid \<noteq> 0 \<and> (\<exists>st n. f = makeServiceHelperResponse rid st (of_nat n) \<and>
      n \<le> (if st = RespCompleted then kMaximumServicePayloadBytes else 0) \<and> n = unat (payload_bytes f))"
proof -
  have "status f = response_status_code RespCompleted \<or>
      (\<exists>st. status f = response_status_code st \<and> payload_bytes f = 0)"
    using valid unfolding validateServiceHelperResponse_def by (metis (full_types))
  then obtain st where st: "status f = response_status_code st" "st \<noteq> RespCompleted \<Longrightarrow> payload_bytes f = 0"
    by blast
  have "f = makeServiceHelperResponse rid st (of_nat (unat (payload_bytes f)))"
    using valid st(1) assms(1)
    by (cases f) (auto simp: frame_simps bytes_zero_iff wf_frame_def ucast_wide_back split: if_splits)
  moreover have "unat (payload_bytes f) \<le> (if st = RespCompleted then kMaximumServicePayloadBytes else 0)"
    using valid st(2) by (auto simp: frame_simps split: if_splits)
  moreover have "rid \<noteq> 0" using valid by (auto simp: frame_simps split: if_splits)
  ultimately show ?thesis by blast
qed

text \<open>
  C28. The commit fence accepts exactly one byte string: a block of 64 bytes read from the
  socket passes \<^verbatim>\<open>validateServiceHelperCommit\<close> for a request only if it is, byte for
  byte, the image of the commit frame that \<^verbatim>\<open>makeServiceHelperCommit\<close> builds for that
  non-zero request identifier.
\<close>

theorem commit_fence_unique:
  assumes "length bs = frame_size"
  shows "validateServiceHelperCommit (frame_of_bytes bs) rid \<longleftrightarrow>
    rid \<noteq> 0 \<and> bs = frame_bytes (makeServiceHelperCommit rid)"
proof -
  have "frame_of_bytes bs = makeServiceHelperCommit rid \<longleftrightarrow>
      bs = frame_bytes (makeServiceHelperCommit rid)"
    using assms frame_bytes_frame_of frame_of_frame_bytes wf_make_frames(4) by metis
  then show ?thesis using assms by (simp add: commit_frame_iff wf_frame_of_bytes)
qed

lemma commit_bytes_length: "length (frame_bytes (makeServiceHelperCommit rid)) = frame_size"
  by (rule frame_bytes_length) simp

theorem commit_fence_unique_witness:
  "validateServiceHelperCommit (frame_of_bytes (frame_bytes (makeServiceHelperCommit 41))) 41"
  using commit_fence_unique [OF commit_bytes_length, of 41 41] by simp


text \<open>
  C39. The protocol carries both outcomes of the two-phase exchange without loss: the image of
  every ready and response frame the helper builds is 64 bytes, is read back as the frame
  that was written, and is accepted by the parent's validator exactly when the identifier is
  non-zero and, for a response, only a completed one carries a payload and the payload is
  within its ceiling.
\<close>

theorem helper_frames_accepted:
  "frame_of_bytes (frame_bytes (makeServiceHelperReady rid rs)) = makeServiceHelperReady rid rs \<and>
   validateServiceHelperReady (makeServiceHelperReady rid rs) rid = (rid \<noteq> 0) \<and>
   frame_of_bytes (frame_bytes (makeServiceHelperResponse rid st (of_nat n))) =
     makeServiceHelperResponse rid st (of_nat n) \<and>
   validateServiceHelperResponse (makeServiceHelperResponse rid st (of_nat n)) rid =
     (rid \<noteq> 0 \<and> n mod 4294967296 \<le> (if st = RespCompleted then kMaximumServicePayloadBytes else 0))"
proof -
  have "validateServiceHelperResponse (makeServiceHelperResponse rid st (of_nat n)) rid =
      (rid \<noteq> 0 \<and> n mod 4294967296 \<le> (if st = RespCompleted then kMaximumServicePayloadBytes else 0))"
    using unat_ucast_size [of n]
    by (cases st) (auto simp: frame_simps kMaximumServicePayloadBytes_def unat_eq_zero [symmetric]
        simp del: unat_eq_zero)
  moreover have "validateServiceHelperReady (makeServiceHelperReady rid rs) rid = (rid \<noteq> 0)"
    by (cases rs) (simp_all add: frame_simps)
  ultimately show ?thesis by (simp add: frame_of_frame_bytes)
qed

section \<open>Whole messages\<close>

text \<open>A request and a response as they cross the socket: the frame, then its parts.\<close>

definition request_stream :: "frame \<Rightarrow> byte list \<Rightarrow> byte list \<Rightarrow> byte list \<Rightarrow> byte list" where
  "request_stream f service md5 payload = frame_bytes f @ service @ md5 @ payload"

definition response_bytes :: "64 word \<Rightarrow> response_status \<Rightarrow> byte list \<Rightarrow> byte list" where
  "response_bytes rid st data =
     frame_bytes (makeServiceHelperResponse rid st (of_nat (length data))) @ data"

end
