(* ===== verification/Type_Registry.thy ===== *)
theory Type_Registry
  imports Ros_Message Helper_Protocol
begin

text \<open>
  Resolution of message and service types (\<^verbatim>\<open>type_registry.cpp\<close>). The introspection
  library behind it is the record \<open>babel_fish\<close>, an argument of the operations; its message
  templates are of a type of their own, \<open>'t\<close>. The resolver mutex makes every operation atomic.
\<close>

section \<open>The introspection library\<close>

record 't message_description =
  message_template :: "'t option"

record 't service_description =
  service_md5 :: string
  service_request :: "'t message_description option"
  service_response :: "'t message_description option"

record 't babel_fish =
  bf_createMessage :: "string \<Rightarrow> msg result"
  bf_getServiceDescription :: "string \<Rightarrow> 't service_description option result"
  bf_createEmptyMessageFromTemplate :: "'t \<Rightarrow> msg"
  bf_translateMessage :: "msg \<Rightarrow> byte list option result"
  bf_createMessageFromTemplate :: "'t \<Rightarrow> byte list \<Rightarrow> (msg option \<times> nat) result"
  bf_sizeInBytes :: "msg \<Rightarrow> nat"
  bf_writeToStream :: "msg \<Rightarrow> byte list"

section \<open>Operations\<close>

text \<open>
  \<^verbatim>\<open>catch (const std::exception&)\<close>: every exception derived from it, with its text; any
  other exception passes through.
\<close>

fun what :: "exn \<Rightarrow> string" where
  "what (Ros1ToolsError code cls message) = message"
| "what (StdException message) = message"
| "what UnknownException = []"

definition catch_std :: "'a result \<Rightarrow> (string \<Rightarrow> 'a result) \<Rightarrow> 'a result" where
  "catch_std m h =
     (case m of
        Inr x \<Rightarrow> Inr x
      | Inl e \<Rightarrow> (if e = UnknownException then Inl e else h (what e)))"

definition typeFailure :: "string \<Rightarrow> string \<Rightarrow> string \<Rightarrow> string" where
  "typeFailure subject type exception =
     ''unable to resolve ROS1 '' @ subject @ '' type '' @ [CHR 0x27] @ type @ [CHR 0x27] @ '': '' @ exception"

definition createMessage :: "'t babel_fish \<Rightarrow> string \<Rightarrow> msg result" where
  "createMessage B type =
     catch_std (bf_createMessage B type) (\<lambda>exception.
       permanentError ''message_type_not_found'' (typeFailure ''message'' type exception))"

text \<open>The handlers rethrow the adapter's own errors and convert the library's.\<close>

definition resolveService :: "'t babel_fish \<Rightarrow> string \<Rightarrow> 't service_description result" where
  "resolveService B type =
     (case bindE (bf_getServiceDescription B type) (\<lambda>description.
         case description of
           None \<Rightarrow> permanentError ''service_type_not_found''
             (''unable to resolve ROS1 service type '' @ [CHR 0x27] @ type @ [CHR 0x27])
         | Some d \<Rightarrow> Inr d) of
        Inl (Ros1ToolsError code cls message) \<Rightarrow> Inl (Ros1ToolsError code cls message)
      | Inl (StdException exception) \<Rightarrow>
          permanentError ''service_type_not_found'' (typeFailure ''service'' type exception)
      | Inl UnknownException \<Rightarrow> Inl UnknownException
      | Inr d \<Rightarrow> Inr d)"

definition incomplete_description :: "string \<Rightarrow> 'a result" where
  "incomplete_description subject =
     permanentError ''invalid_service_description'' (''ROS1 service '' @ subject @ '' description is incomplete'')"

definition template_of :: "'t message_description option \<Rightarrow> 't option" where
  "template_of d = Option.bind d message_template"

definition createServiceRequest :: "'t babel_fish \<Rightarrow> 't service_description option \<Rightarrow> msg result" where
  "createServiceRequest B description =
     (case Option.bind description (\<lambda>d. template_of (service_request d)) of
        None \<Rightarrow> incomplete_description ''request''
      | Some t \<Rightarrow> Inr (bf_createEmptyMessageFromTemplate B t))"

definition createServiceResponse :: "'t babel_fish \<Rightarrow> 't service_description option \<Rightarrow> msg result" where
  "createServiceResponse B description =
     (case Option.bind description (\<lambda>d. template_of (service_response d)) of
        None \<Rightarrow> incomplete_description ''response''
      | Some t \<Rightarrow> Inr (bf_createEmptyMessageFromTemplate B t))"

definition serialize :: "'t babel_fish \<Rightarrow> msg option \<Rightarrow> byte list option result" where
  "serialize B message =
     (case message of
        None \<Rightarrow> permanentError ''invalid_message'' ''ROS1 message is empty''
      | Some m \<Rightarrow>
          catch_std (bf_translateMessage B m) (\<lambda>exception.
            permanentError ''message_serialization_failed''
              (''unable to serialize ROS1 message: '' @ exception)))"

text \<open>The argument \<open>advertised\<close> is what the native call returns or throws.\<close>

definition advertise :: "'p result \<Rightarrow> string \<Rightarrow> string \<Rightarrow> 'p result" where
  "advertise advertised type topic =
     catch_std advertised (\<lambda>exception.
       permanentError ''publisher_advertise_failed''
         (''unable to advertise ROS1 topic '' @ [CHR 0x27] @ topic @ [CHR 0x27] @ '' as '' @ [CHR 0x27] @
          type @ [CHR 0x27] @ '': '' @ exception))"

section \<open>Lemmas\<close>

lemma catch_std_Inr [simp]: "catch_std (Inr x) h = Inr x"
  by (simp add: catch_std_def)

lemma catch_std_eq_Inr:
  "(\<And>w. \<exists>e. h w = Inl e) \<Longrightarrow> catch_std m h = Inr x \<longleftrightarrow> m = Inr x"
  by (auto simp: catch_std_def split: sum.splits if_splits) (metis Inl_Inr_False)

lemma resolveService_Inr:
  "resolveService B type = Inr d \<longleftrightarrow> bf_getServiceDescription B type = Inr (Some d)"
  by (auto simp: resolveService_def permanentError_def bindE_def
    split: sum.splits exn.splits option.splits)

end
