(* ===== verification/Json_Codec.thy ===== *)
theory Json_Codec
  imports Json_Value Ros_Message
begin

text \<open>
  The conversion between JSON values and dynamic ROS messages
  (\<^verbatim>\<open>json_codec.cpp\<close>). JsonCpp's numeric interface \<open>J\<close> and the ROS time
  constructors \<open>R\<close> are arguments. A decoder that assigns to a message in place is a
  function from the message to the message it leaves behind; when an exception is thrown
  the callers drop the message, so its partial contents are not modelled.
\<close>

section \<open>Scalar conversions\<close>

definition codecError :: "string \<Rightarrow> string \<Rightarrow> 'a result" where
  "codecError path message = permanentError ''invalid_message_payload'' (path @ '': '' @ message)"

definition checkDepth :: "nat \<Rightarrow> nat \<Rightarrow> string \<Rightarrow> unit result" where
  "checkDepth depth maximum path =
     (if depth > maximum then codecError path ''maximum message nesting depth exceeded'' else Inr ())"

definition canonical_decimal_error :: "string \<Rightarrow> 'a result" where
  "canonical_decimal_error path = codecError path ''integer string must use canonical decimal syntax''"

definition integerText_string :: "string \<Rightarrow> string \<Rightarrow> string result" where
  "integerText_string s path =
     (if s = [] then codecError path ''integer string must not be empty''
      else
        let first_digit = (if hd s = CHR ''-'' then 1 else 0) in
        if first_digit = length s \<or> \<not> is_digit (s ! first_digit)
           \<or> (s ! first_digit = CHR ''0'' \<and> length s \<noteq> first_digit + 1)
        then canonical_decimal_error path
        else if \<not> list_all is_digit (drop (first_digit + 1) s) then canonical_decimal_error path
        else if s = ''-0'' then canonical_decimal_error path
        else Inr s)"

definition integerText :: "jsoncpp \<Rightarrow> json \<Rightarrow> string \<Rightarrow> string result" where
  "integerText J v path =
     (case v of
        JString s \<Rightarrow> integerText_string s path
      | _ \<Rightarrow>
        if isIntegral J v then
          if isUInt64 J v then bindE (asUInt64 J v) (\<lambda>n. Inr (nat_to_string n))
          else bindE (asInt64 J v) (\<lambda>i. Inr (int_to_string i))
        else codecError path ''expected an integer or decimal integer string'')"

definition signedInteger :: "jsoncpp \<Rightarrow> json \<Rightarrow> string \<Rightarrow> 'w::len word result" where
  "signedInteger J v path =
     bindE (integerText J v path) (\<lambda>s.
       case stoll s of
         Inl _ \<Rightarrow> codecError path ''signed integer is outside the supported range''
       | Inr (parsed, consumed) \<Rightarrow>
           if consumed \<noteq> length s \<or> parsed < - (2 ^ (LENGTH('w) - 1))
              \<or> parsed > 2 ^ (LENGTH('w) - 1) - 1
           then codecError path ''signed integer is outside the ROS field range''
           else Inr (word_of_int parsed))"

definition unsignedInteger :: "jsoncpp \<Rightarrow> json \<Rightarrow> string \<Rightarrow> 'w::len word result" where
  "unsignedInteger J v path =
     bindE (integerText J v path) (\<lambda>s.
       if s \<noteq> [] \<and> hd s = CHR ''-''
       then codecError path ''unsigned integer must not be negative''
       else case stoull s of
         Inl _ \<Rightarrow> codecError path ''unsigned integer is outside the supported range''
       | Inr (parsed, consumed) \<Rightarrow>
           if consumed \<noteq> length s \<or> parsed > 2 ^ LENGTH('w) - 1
           then codecError path ''unsigned integer is outside the ROS field range''
           else Inr (word_of_nat parsed))"

definition floatingPoint :: "jsoncpp \<Rightarrow> json \<Rightarrow> string \<Rightarrow> fp result" where
  "floatingPoint J v path =
     (if \<not> isNumeric J v then codecError path ''expected a finite JSON number''
      else bindE (asDouble J v) (\<lambda>d.
        if \<not> isfinite binary64 d
        then codecError path ''non-finite floating point values are not supported''
        else Inr d))"

text \<open>The conversion of a \<^verbatim>\<open>float32\<close> field and of an element of such an array.\<close>

definition float32Value :: "jsoncpp \<Rightarrow> json \<Rightarrow> string \<Rightarrow> fp result" where
  "float32Value J v path =
     bindE (floatingPoint J v path) (\<lambda>parsed.
       if fp_less binary64 parsed (fp_neg (float_to_double float_max))
          \<or> fp_less binary64 (float_to_double float_max) parsed
       then codecError path ''number is outside the ROS float32 range''
       else Inr (double_to_float parsed))"

definition booleanValue :: "json \<Rightarrow> string \<Rightarrow> bool result" where
  "booleanValue v path = (case v of JBool b \<Rightarrow> Inr b | _ \<Rightarrow> codecError path ''expected a boolean'')"

definition stringValue :: "json \<Rightarrow> string \<Rightarrow> string result" where
  "stringValue v path = (case v of JString s \<Rightarrow> Inr s | _ \<Rightarrow> codecError path ''expected a string'')"

definition rejectUnknownMembers :: "json \<Rightarrow> string list \<Rightarrow> string \<Rightarrow> unit result" where
  "rejectUnknownMembers v allowed path =
     bindE (forE (\<lambda>member.
       if member \<notin> set allowed then codecError (path @ ''.'' @ member) ''unknown field''
       else Inr ()) (getMemberNames v)) (\<lambda>_. Inr ())"

definition timeValue :: "jsoncpp \<Rightarrow> ros_time_api \<Rightarrow> json \<Rightarrow> string \<Rightarrow> (32 word \<times> 32 word) result" where
  "timeValue J R v path =
     (if \<not> isObject v then codecError path ''expected {secs, nsecs} for ROS time''
      else bindE (rejectUnknownMembers v [''secs'', ''nsecs''] path) (\<lambda>_.
        if \<not> isMember v ''secs'' \<or> \<not> isMember v ''nsecs''
        then codecError path ''ROS time requires secs and nsecs''
        else bindE (unsignedInteger J (json_get v ''secs'') (path @ ''.secs'')) (\<lambda>secs.
          bindE (unsignedInteger J (json_get v ''nsecs'') (path @ ''.nsecs'')) (\<lambda>nsecs.
            if nsecs \<ge> 1000000000
            then codecError (path @ ''.nsecs'') ''ROS time nanoseconds must be below 1e9''
            else newTime R secs nsecs))))"

definition durationValue :: "jsoncpp \<Rightarrow> ros_time_api \<Rightarrow> json \<Rightarrow> string \<Rightarrow> (32 word \<times> 32 word) result" where
  "durationValue J R v path =
     (if \<not> isObject v then codecError path ''expected {secs, nsecs} for ROS duration''
      else bindE (rejectUnknownMembers v [''secs'', ''nsecs''] path) (\<lambda>_.
        if \<not> isMember v ''secs'' \<or> \<not> isMember v ''nsecs''
        then codecError path ''ROS duration requires secs and nsecs''
        else bindE (signedInteger J (json_get v ''secs'') (path @ ''.secs'')) (\<lambda>secs.
          bindE (signedInteger J (json_get v ''nsecs'') (path @ ''.nsecs'')) (\<lambda>nsecs.
            if sint nsecs \<le> - 1000000000 \<or> sint nsecs \<ge> 1000000000
            then codecError (path @ ''.nsecs'')
                   ''ROS duration nanoseconds must be between -1e9 and 1e9''
            else newDuration R secs nsecs))))"

definition encodeTime :: "32 word \<Rightarrow> 32 word \<Rightarrow> json" where
  "encodeTime sec nsec =
     json_set (json_set (JObject []) ''secs'' (JUInt (unat sec))) ''nsecs'' (JUInt (unat nsec))"

definition encodeDuration :: "32 word \<Rightarrow> 32 word \<Rightarrow> json" where
  "encodeDuration sec nsec =
     json_set (json_set (JObject []) ''secs'' (JInt (sint sec))) ''nsecs'' (JInt (sint nsec))"

section \<open>Arrays\<close>

definition item_path :: "string \<Rightarrow> nat \<Rightarrow> string" where
  "item_path path index = path @ ''['' @ nat_to_string index @ '']''"

definition validateArrayInput :: "json \<Rightarrow> bool \<Rightarrow> nat \<Rightarrow> nat \<Rightarrow> string \<Rightarrow> json list result" where
  "validateArrayInput v fixed len maximum_elements path =
     (case v of
        JArray xs \<Rightarrow>
          if length xs > maximum_elements
          then codecError path ''maximum array element count exceeded''
          else if fixed \<and> length xs \<noteq> len
          then codecError path (''fixed ROS array requires exactly '' @ nat_to_string len @ '' elements'')
          else if \<not> fixed \<and> len \<noteq> 0
          then codecError path ''dynamic ROS array target must be empty before decoding''
          else Inr xs
      | _ \<Rightarrow> codecError path ''expected an array'')"

text \<open>The loop over the elements: a fixed array is assigned by index, a dynamic one grows.\<close>

fun decodePrimitiveItems ::
  "(json \<Rightarrow> string \<Rightarrow> msg result) \<Rightarrow> string \<Rightarrow> bool \<Rightarrow> nat \<Rightarrow> json list \<Rightarrow> msg list \<Rightarrow> msg list result" where
  "decodePrimitiveItems converter path fixed index [] items = Inr items"
| "decodePrimitiveItems converter path fixed index (x # xs) items =
     bindE (converter x (item_path path index)) (\<lambda>item.
       decodePrimitiveItems converter path fixed (Suc index) xs
         (if fixed then items[index := item] else items @ [item]))"

definition decodePrimitiveArray ::
  "(json \<Rightarrow> string \<Rightarrow> msg result) \<Rightarrow> mtype \<Rightarrow> json \<Rightarrow> bool \<Rightarrow> msg list \<Rightarrow> nat \<Rightarrow> string \<Rightarrow> msg result" where
  "decodePrimitiveArray converter t v fixed items maximum_elements path =
     bindE (validateArrayInput v fixed (length items) maximum_elements path) (\<lambda>xs.
       bindE (decodePrimitiveItems converter path fixed 0 xs items) (\<lambda>items'.
         Inr (MArray t fixed items')))"

definition encodePrimitiveArray :: "(msg \<Rightarrow> string \<Rightarrow> json result) \<Rightarrow> msg list \<Rightarrow> string \<Rightarrow> json result" where
  "encodePrimitiveArray encoder items path =
     bindE (forE (\<lambda>(index, item). encoder item (item_path path index)) (enumerate 0 items))
       (\<lambda>xs. Inr (JArray xs))"

text \<open>
  The converter and the encoder that the codec names for each scalar type, for a field and
  for an array element alike.
\<close>

definition mapE :: "('a \<Rightarrow> 'b) \<Rightarrow> 'a result \<Rightarrow> 'b result" where
  "mapE f m = bindE m (\<lambda>x. Inr (f x))"

definition decodeScalar :: "jsoncpp \<Rightarrow> ros_time_api \<Rightarrow> mtype \<Rightarrow> json \<Rightarrow> string \<Rightarrow> msg result" where
  "decodeScalar J R t v path =
     (case t of
        TBool \<Rightarrow> mapE MBool (booleanValue v path)
      | TUInt8 \<Rightarrow> mapE MUInt8 (unsignedInteger J v path)
      | TUInt16 \<Rightarrow> mapE MUInt16 (unsignedInteger J v path)
      | TUInt32 \<Rightarrow> mapE MUInt32 (unsignedInteger J v path)
      | TUInt64 \<Rightarrow> mapE MUInt64 (unsignedInteger J v path)
      | TInt8 \<Rightarrow> mapE MInt8 (signedInteger J v path)
      | TInt16 \<Rightarrow> mapE MInt16 (signedInteger J v path)
      | TInt32 \<Rightarrow> mapE MInt32 (signedInteger J v path)
      | TInt64 \<Rightarrow> mapE MInt64 (signedInteger J v path)
      | TFloat32 \<Rightarrow> mapE MFloat32 (float32Value J v path)
      | TFloat64 \<Rightarrow> mapE MFloat64 (floatingPoint J v path)
      | TString \<Rightarrow> mapE MString (stringValue v path)
      | TTime \<Rightarrow> mapE (\<lambda>(s, n). MTime s n) (timeValue J R v path)
      | TDuration \<Rightarrow> mapE (\<lambda>(s, n). MDuration s n) (durationValue J R v path)
      | _ \<Rightarrow> codecError path ''unsupported ROS message field type'')"

definition encodeScalar :: "msg \<Rightarrow> string \<Rightarrow> json result" where
  "encodeScalar m path =
     (case m of
        MBool b \<Rightarrow> Inr (JBool b)
      | MUInt8 w \<Rightarrow> Inr (JUInt (unat w))
      | MUInt16 w \<Rightarrow> Inr (JUInt (unat w))
      | MUInt32 w \<Rightarrow> Inr (JUInt (unat w))
      | MUInt64 w \<Rightarrow> Inr (JString (nat_to_string (unat w)))
      | MInt8 w \<Rightarrow> Inr (JInt (sint w))
      | MInt16 w \<Rightarrow> Inr (JInt (sint w))
      | MInt32 w \<Rightarrow> Inr (JInt (sint w))
      | MInt64 w \<Rightarrow> Inr (JString (int_to_string (sint w)))
      | MFloat32 x \<Rightarrow>
          if \<not> isfinite binary32 x
          then codecError path ''non-finite float32 cannot be represented as JSON''
          else Inr (JReal (float_to_double x))
      | MFloat64 x \<Rightarrow>
          if \<not> isfinite binary64 x
          then codecError path ''non-finite float64 cannot be represented as JSON''
          else Inr (JReal x)
      | MString s \<Rightarrow> Inr (JString s)
      | MTime s n \<Rightarrow> Inr (encodeTime s n)
      | MDuration s n \<Rightarrow> Inr (encodeDuration s n)
      | _ \<Rightarrow> codecError path ''unsupported ROS message field type'')"

section \<open>The codec\<close>

record codec_limits =
  maximum_depth :: nat
  maximum_array_elements :: nat

definition default_codec_limits :: codec_limits where
  "default_codec_limits = \<lparr>maximum_depth = 64, maximum_array_elements = 1000000\<rparr>"

definition JsonCodec :: "codec_limits \<Rightarrow> codec_limits result" where
  "JsonCodec limits =
     (if maximum_depth limits = 0 \<or> maximum_array_elements limits = 0
      then permanentError ''invalid_configuration'' ''JSON codec limits must be greater than zero''
      else Inr limits)"

lemma checkDepth_Inr [simp]: "checkDepth depth maximum path = Inr u \<longleftrightarrow> depth \<le> maximum"
  by (auto simp: checkDepth_def codecError_def permanentError_def)

definition invalid_cast :: "'a result" where
  "invalid_cast = stdError ''Invalid cast!''"

text \<open>
  Decoding: the message is the value of the ROS type to fill in. Fields that the JSON object
  does not mention keep their value; array elements are decoded into the elements of a
  fixed array or into copies of the template appended to a dynamic one.
\<close>

function decodeValue ::
  "jsoncpp \<Rightarrow> ros_time_api \<Rightarrow> codec_limits \<Rightarrow> json \<Rightarrow> msg \<Rightarrow> string \<Rightarrow> nat \<Rightarrow> msg result" where
  "decodeValue J R limits v message path depth =
     bindE (checkDepth depth (maximum_depth limits) path) (\<lambda>_.
       case message of
         MCompound keys values \<Rightarrow>
           if \<not> isObject v then codecError path ''expected an object''
           else bindE (rejectUnknownMembers v keys path) (\<lambda>_.
             if length keys \<noteq> length values
             then codecError path ''invalid dynamic message field table''
             else mapE (MCompound keys) (forE (\<lambda>(key, child).
                 if isMember v key
                 then decodeValue J R limits (json_get v key) child (path @ ''.'' @ key) (depth + 1)
                 else Inr child) (zip keys values)))
       | MArray t fixed items \<Rightarrow>
           if t = TCompound then invalid_cast
           else if t = TArray \<or> t = TNone
           then codecError path ''unsupported ROS array element type''
           else decodePrimitiveArray (decodeScalar J R t) t v fixed items
                  (maximum_array_elements limits) path
       | MCompoundArray fixed template items \<Rightarrow>
           bindE (validateArrayInput v fixed (length items) (maximum_array_elements limits) path) (\<lambda>xs.
             mapE (MCompoundArray fixed template) (forE (\<lambda>(index, x).
                 decodeValue J R limits x (if fixed then items ! index else template)
                   (item_path path index) (depth + 1)) (enumerate 0 xs)))
       | _ \<Rightarrow> decodeScalar J R (message_type message) v path)"
  by pat_completeness auto

termination
  by (relation "measure (\<lambda>(J, R, limits, v, message, path, depth). Suc (maximum_depth limits) - depth)")
    auto

function encodeValue :: "codec_limits \<Rightarrow> msg \<Rightarrow> string \<Rightarrow> nat \<Rightarrow> json result" where
  "encodeValue limits message path depth =
     bindE (checkDepth depth (maximum_depth limits) path) (\<lambda>_.
       case message of
         MCompound keys values \<Rightarrow>
           if length keys \<noteq> length values
           then codecError path ''invalid dynamic message field table''
           else mapE (\<lambda>vs. foldl (\<lambda>result (key, x). json_set result key x) (JObject []) (zip keys vs))
             (forE (\<lambda>(key, child). encodeValue limits child (path @ ''.'' @ key) (depth + 1))
               (zip keys values))
       | MArray t fixed items \<Rightarrow>
           if length items > maximum_array_elements limits
           then codecError path ''maximum array element count exceeded''
           else if t = TCompound then invalid_cast
           else if t = TArray \<or> t = TNone
           then codecError path ''unsupported ROS array element type''
           else encodePrimitiveArray encodeScalar items path
       | MCompoundArray fixed template items \<Rightarrow>
           if length items > maximum_array_elements limits
           then codecError path ''maximum array element count exceeded''
           else mapE JArray (forE (\<lambda>(index, child).
               encodeValue limits child (item_path path index) (depth + 1)) (enumerate 0 items))
       | _ \<Rightarrow> encodeScalar message path)"
  by pat_completeness auto

termination
  by (relation "measure (\<lambda>(limits, message, path, depth). Suc (maximum_depth limits) - depth)")
    auto

declare decodeValue.simps [simp del] encodeValue.simps [simp del]

definition decode :: "jsoncpp \<Rightarrow> ros_time_api \<Rightarrow> codec_limits \<Rightarrow> json \<Rightarrow> msg \<Rightarrow> msg result" where
  "decode J R limits v message = decodeValue J R limits v message ''$'' 0"

definition encode :: "codec_limits \<Rightarrow> msg \<Rightarrow> json result" where
  "encode limits message = encodeValue limits message ''$'' 0"

section \<open>Lemmas on scalars\<close>

lemmas codec_error_defs = codecError_def canonical_decimal_error_def invalid_cast_def error_defs

lemma mapE_eq_Inr [result_simps]: "mapE f m = Inr y \<longleftrightarrow> (\<exists>x. m = Inr x \<and> y = f x)"
  by (auto simp: mapE_def bindE_eq_Inr)

lemma mapE_eq_Inl [result_simps]: "mapE f m = Inl e \<longleftrightarrow> m = Inl e"
  by (auto simp: mapE_def bindE_eq_Inl)

lemma mapE_Inr [simp]: "mapE f (Inr x) = Inr (f x)"
  by (simp add: mapE_def)

lemma integerText_string_minus:
  "integerText_string (CHR ''-'' # t) path = Inr u \<longleftrightarrow>
     u = CHR ''-'' # t \<and> canonical_digits t \<and> t \<noteq> ''0''"
  by (cases t) (auto simp: integerText_string_def codec_error_defs canonical_digits_def)

lemma integerText_string_plain:
  "c \<noteq> CHR ''-'' \<Longrightarrow>
   integerText_string (c # t) path = Inr u \<longleftrightarrow> u = c # t \<and> canonical_digits (c # t)"
  by (auto simp: integerText_string_def codec_error_defs canonical_digits_def)

lemma canonical_minus: "\<not> canonical_digits (CHR ''-'' # t)"
  by (simp add: canonical_digits_def)

lemma integerText_string_iff:
  "integerText_string s path = Inr t \<longleftrightarrow> t = s \<and> canonical_integer s"
proof (cases s)
  case Nil
  then show ?thesis
    by (simp add: integerText_string_def codec_error_defs canonical_integer_def canonical_digits_def)
next
  case (Cons c cs)
  then show ?thesis
    by (cases "c = CHR ''-''")
      (auto simp: integerText_string_minus integerText_string_plain canonical_integer_def
        canonical_minus)
qed

lemma integerText_string_int [simp]: "integerText_string (int_to_string i) path = Inr (int_to_string i)"
  by (simp add: integerText_string_iff int_to_string_canonical)

lemma integerText_canonical:
  assumes "integerText J v path = Inr s"
  obtains i where "s = int_to_string i"
proof -
  have "nat_to_string n = int_to_string (int n)" for n by (simp add: int_to_string_def)
  with assms show thesis
    by (auto simp: integerText_def result_simps codec_error_defs integerText_string_iff
      dest!: canonical_integer_exists intro: that split: json.splits if_splits)
qed

lemma power_63: "n \<le> 64 \<Longrightarrow> (2::int) ^ (n - 1) \<le> 9223372036854775808"
  using power_increasing [of "n - 1" 63 "2::int"] by simp

lemma power_64: "n \<le> 64 \<Longrightarrow> (2::nat) ^ n \<le> 18446744073709551616"
  using power_increasing [of n 64 "2::nat"] by simp

lemma signedInteger_iff:
  fixes w :: "'w::len word"
  assumes "LENGTH('w) \<le> 64"
  shows "signedInteger J v path = Inr w \<longleftrightarrow> integerText J v path = Inr (int_to_string (sint w))"
proof (cases "integerText J v path")
  case (Inl e)
  then show ?thesis by (simp add: signedInteger_def)
next
  case (Inr s)
  then obtain i where s: "s = int_to_string i" by (rule integerText_canonical)
  note range = power_63 [OF assms] sint_bounds [of w]
  show ?thesis
  proof (cases "- (2 ^ (LENGTH('w) - 1)) \<le> i \<and> i < 2 ^ (LENGTH('w) - 1)")
    case True
    then have "signedInteger J v path = Inr (word_of_int i :: 'w word)"
      using range by (simp add: signedInteger_def Inr s stoll_int_to_string)
    then show ?thesis using True
      by (auto simp: Inr s int_to_string_inject sint_word_of_int_range)
  next
    case False
    then have "signedInteger J v path \<noteq> Inr w" and "i \<noteq> sint w"
      using range by (auto simp: signedInteger_def Inr s stoll_int_to_string codec_error_defs)
    then show ?thesis by (simp add: Inr s int_to_string_inject)
  qed
qed

lemma unsignedInteger_iff:
  fixes w :: "'w::len word"
  assumes "LENGTH('w) \<le> 64"
  shows "unsignedInteger J v path = Inr w \<longleftrightarrow> integerText J v path = Inr (nat_to_string (unat w))"
proof (cases "integerText J v path")
  case (Inl e)
  then show ?thesis by (simp add: unsignedInteger_def)
next
  case (Inr s)
  then obtain i where s: "s = int_to_string i" by (rule integerText_canonical)
  have w: "nat_to_string (unat w) = int_to_string (int (unat w))" by (simp add: int_to_string_def)
  show ?thesis
  proof (cases "i < 0")
    case True
    then show ?thesis
      by (simp add: unsignedInteger_def Inr s int_to_string_minus codec_error_defs w
        int_to_string_inject del: of_nat_unat)
  next
    case False
    then obtain n where i: "i = int n" using nonneg_int_cases by (metis not_less)
    then have n: "s = nat_to_string n" by (simp add: s int_to_string_nonneg)
    have head: "hd (nat_to_string n) \<noteq> CHR ''-''"
      using int_to_string_minus [of i] by (simp add: i int_to_string_nonneg)
    have inj: "nat_to_string n = nat_to_string (unat w) \<longleftrightarrow> n = unat w"
      using digits_val_nat_to_string by metis
    have bound: "unat w < 2 ^ LENGTH('w)" by (rule unsigned_less)
    show ?thesis
    proof (cases "n < 2 ^ LENGTH('w)")
      case True
      then have "\<not> n > 2 ^ LENGTH('w) - 1" "n \<le> 18446744073709551615"
        using power_64 [OF assms] by linarith+
      then have "unsignedInteger J v path = Inr (word_of_nat n :: 'w word)"
        using head by (simp add: unsignedInteger_def Inr n stoull_nat_to_string)
      moreover have "word_of_nat n = w \<longleftrightarrow> n = unat w"
        using True by (auto simp: unat_of_nat)
      ultimately show ?thesis by (simp add: Inr n inj)
    next
      case False
      moreover have "(0::nat) < 2 ^ LENGTH('w)" by simp
      ultimately have "n > 2 ^ LENGTH('w) - 1" by linarith
      then have "unsignedInteger J v path \<noteq> Inr w"
        using head by (simp add: unsignedInteger_def Inr n stoull_nat_to_string codec_error_defs)
      moreover have "n \<noteq> unat w" using False bound by blast
      ultimately show ?thesis by (simp add: Inr n inj)
    qed
  qed
qed

lemma rejectUnknownMembers_iff:
  "rejectUnknownMembers v allowed path = Inr u \<longleftrightarrow> set (getMemberNames v) \<subseteq> set allowed"
proof -
  have "rejectUnknownMembers v allowed path = Inr u \<longleftrightarrow>
      (\<exists>us. forE (\<lambda>member. if member \<notin> set allowed
        then codecError (path @ ''.'' @ member) ''unknown field'' else Inr ()) (getMemberNames v) = Inr us)"
    by (simp add: rejectUnknownMembers_def bindE_eq_Inr)
  also have "\<dots> \<longleftrightarrow> set (getMemberNames v) \<subseteq> set allowed"
    by (auto simp: forE_total codec_error_defs)
  finally show ?thesis .
qed

lemma nat_to_string_int: "nat_to_string n = int_to_string (int n)"
  by (simp add: int_to_string_def)

lemma unsigned_text_roundtrip:
  fixes w :: "'w::len word"
  assumes "LENGTH('w) \<le> 64"
  shows "unsignedInteger J (JString (nat_to_string (unat w))) path = Inr w"
  by (simp add: unsignedInteger_iff [OF assms] integerText_def nat_to_string_int del: of_nat_unat)

lemma signed_text_roundtrip:
  fixes w :: "'w::len word"
  assumes "LENGTH('w) \<le> 64"
  shows "signedInteger J (JString (int_to_string (sint w))) path = Inr w"
  by (simp add: signedInteger_iff [OF assms] integerText_def)

section \<open>Lemmas on arrays and nesting\<close>

text \<open>The element loop is the loop over the indexed elements, for both kinds of array.\<close>

lemma decodePrimitiveItems_eq:
  assumes "fixed \<longrightarrow> length items = index + length xs"
  shows "decodePrimitiveItems converter path fixed index xs items =
    mapE (\<lambda>ys. (if fixed then take index items else items) @ ys)
      (forE (\<lambda>(i, x). converter x (item_path path i)) (enumerate index xs))"
  using assms
proof (induction xs arbitrary: index items)
  case Nil
  then show ?case by simp
next
  case (Cons x xs)
  have step: "decodePrimitiveItems converter path fixed (Suc index) xs
        (if fixed then items[index := y] else items @ [y]) =
      mapE (\<lambda>ys. (if fixed then take index items else items) @ y # ys)
        (forE (\<lambda>(i, x). converter x (item_path path i)) (enumerate (Suc index) xs))" for y
    using Cons.IH [of "if fixed then items[index := y] else items @ [y]" "Suc index"] Cons.prems
    by (cases fixed) (simp_all add: take_Suc_conv_app_nth mapE_def)
  show ?case
    by (cases "converter x (item_path path index)")
      (auto simp: step mapE_def bindE_def split: sum.splits)
qed

lemma validateArrayInput_iff:
  "validateArrayInput v fixed len maximum path = Inr xs \<longleftrightarrow>
     v = JArray xs \<and> length xs \<le> maximum \<and> len = (if fixed then length xs else 0)"
  by (cases v) (auto simp: validateArrayInput_def codec_error_defs)

lemma decodePrimitiveArray_eq:
  "decodePrimitiveArray converter t v fixed items maximum path =
     bindE (validateArrayInput v fixed (length items) maximum path) (\<lambda>xs.
       mapE (MArray t fixed)
         (forE (\<lambda>(i, x). converter x (item_path path i)) (enumerate 0 xs)))"
  unfolding decodePrimitiveArray_def
proof (rule bindE_cong [OF refl])
  fix xs
  assume "validateArrayInput v fixed (length items) maximum path = Inr xs"
  then have "fixed \<longrightarrow> length items = 0 + length xs" "\<not> fixed \<longrightarrow> items = []"
    by (auto simp: validateArrayInput_iff)
  then show "bindE (decodePrimitiveItems converter path fixed 0 xs items) (\<lambda>items'. Inr (MArray t fixed items')) =
      mapE (MArray t fixed) (forE (\<lambda>(i, x). converter x (item_path path i)) (enumerate 0 xs))"
    by (cases fixed) (simp_all add: decodePrimitiveItems_eq mapE_def bindE_def split: sum.splits)
qed

text \<open>Both recursions go one level down and stop at the maximum depth.\<close>

lemma depth_induct:
  fixes P :: "nat \<Rightarrow> bool"
  assumes "\<And>depth. (depth \<le> maximum \<Longrightarrow> P (depth + 1)) \<Longrightarrow> P depth"
  shows "P depth"
proof (induction "Suc maximum - depth" arbitrary: depth)
  case 0
  then show ?case using assms by (metis diff_is_0_eq not_less_eq_eq)
next
  case (Suc n)
  then show ?case using assms [of depth] by (metis Suc_diff_Suc Suc_eq_plus1 diff_Suc_Suc nat.inject zero_less_Suc zero_less_diff)
qed

lemma list_all2_enumerate:
  "list_all2 P (enumerate n xs) ys \<longleftrightarrow>
     length xs = length ys \<and> (\<forall>i < length xs. P (n + i, xs ! i) (ys ! i))"
  by (simp add: list_all2_conv_all_nth nth_enumerate_eq)

lemma forE_enumerate_iff:
  "forE (\<lambda>(i, x). f i x) (enumerate 0 xs) = Inr ys \<longleftrightarrow>
     length xs = length ys \<and> (\<forall>i < length xs. f i (xs ! i) = Inr (ys ! i))"
  by (simp add: forE_Inr_iff list_all2_enumerate)

lemma forE_zip_iff:
  assumes "length ks = length vs"
  shows "forE (\<lambda>(k, v). f k v) (zip ks vs) = Inr ys \<longleftrightarrow>
     length vs = length ys \<and> (\<forall>i < length vs. f (ks ! i) (vs ! i) = Inr (ys ! i))"
  using assms by (simp add: forE_Inr_iff list_all2_conv_all_nth)

text \<open>The object an encoded compound is: its members are the fields.\<close>

lemma foldl_json_set:
  "json_members (foldl (\<lambda>r (k, x). json_set r k x) v kvs) =
     foldl (\<lambda>ms (k, x). insert_member k x ms) (json_members v) kvs"
  by (induction kvs arbitrary: v) (auto simp: split_beta)

lemma isObject_foldl: "isObject v \<Longrightarrow> isObject (foldl (\<lambda>r (k, x). json_set r k x) v kvs)"
  by (induction kvs arbitrary: v) (auto simp: split_beta json_set_def)

lemma map_of_foldl_insert:
  "map_of (foldl (\<lambda>ms (k, x). insert_member k x ms) ms kvs) = map_of ms ++ map_of (rev kvs)"
proof (induction kvs arbitrary: ms)
  case (Cons kv kvs)
  then show ?case
    by (cases kv) (auto simp: map_of_insert_member map_add_def fun_eq_iff split: option.splits)
qed simp

lemma keys_foldl_insert:
  "fst ` set (foldl (\<lambda>ms (k, x). insert_member k x ms) ms kvs) = fst ` set ms \<union> fst ` set kvs"
  by (induction kvs arbitrary: ms) (auto simp: split_beta keys_insert_member)

lemma encoded_object:
  fixes ks vs
  defines "v \<equiv> foldl (\<lambda>r (k, x). json_set r k x) (JObject []) (zip ks vs)"
  assumes "distinct ks" and "length ks = length vs"
  shows "isObject v" "set (getMemberNames v) = set ks"
    "\<And>i. i < length ks \<Longrightarrow> json_member v (ks ! i) = Some (vs ! i)"
proof -
  show "isObject v" by (simp add: v_def isObject_foldl)
  show "set (getMemberNames v) = set ks"
    using assms(2,3)
    by (simp add: v_def getMemberNames_def foldl_json_set keys_foldl_insert)
      (metis list.set_map map_fst_zip)
  fix i assume "i < length ks"
  moreover have "distinct (map fst (rev (zip ks vs)))"
    using assms by (simp add: rev_map [symmetric] map_fst_zip)
  ultimately show "json_member v (ks ! i) = Some (vs ! i)"
    using assms
    by (auto simp: v_def json_member_def foldl_json_set map_of_foldl_insert in_set_zip
      intro!: map_of_is_SomeI)
qed

lemma decodeValue_deep: "\<not> depth \<le> maximum_depth limits \<Longrightarrow>
    decodeValue J R limits v m path depth = codecError path ''maximum message nesting depth exceeded''"
  by (simp add: decodeValue.simps checkDepth_def codec_error_defs)

lemma encodeValue_deep: "\<not> depth \<le> maximum_depth limits \<Longrightarrow>
    encodeValue limits m path depth = codecError path ''maximum message nesting depth exceeded''"
  by (simp add: encodeValue.simps checkDepth_def codec_error_defs)

lemma decodeValue_scalar:
  "depth \<le> maximum_depth limits \<Longrightarrow> scalar_type (message_type m) \<Longrightarrow>
   decodeValue J R limits v m path depth = decodeScalar J R (message_type m) v path"
  by (cases m) (simp_all add: decodeValue.simps checkDepth_def scalar_type_def)

lemma encodeValue_scalar:
  "depth \<le> maximum_depth limits \<Longrightarrow> scalar_type (message_type m) \<Longrightarrow>
   encodeValue limits m path depth = encodeScalar m path"
  by (cases m) (simp_all add: encodeValue.simps checkDepth_def scalar_type_def)

lemma decodeValue_compound:
  assumes "depth \<le> maximum_depth limits" and "length ks = length vs"
  shows "decodeValue J R limits v (MCompound ks vs) path depth = Inr m \<longleftrightarrow>
    isObject v \<and> set (getMemberNames v) \<subseteq> set ks \<and>
    (\<exists>ws. m = MCompound ks ws \<and> length vs = length ws \<and>
      (\<forall>i < length vs.
        if isMember v (ks ! i)
        then decodeValue J R limits (json_get v (ks ! i)) (vs ! i) (path @ ''.'' @ ks ! i) (depth + 1)
          = Inr (ws ! i)
        else ws ! i = vs ! i))"
proof -
  have eq: "(if b then x else Inr y) = Inr z \<longleftrightarrow> (if b then x = Inr z else z = y)"
    for b and x :: "msg result" and y z by auto
  show ?thesis
    unfolding decodeValue.simps [of J R limits v "MCompound ks vs"]
    using assms
    by (auto simp: checkDepth_def bindE_eq_Inr mapE_eq_Inr rejectUnknownMembers_iff
      forE_zip_iff eq codec_error_defs)
qed

lemma encodeValue_compound:
  assumes "depth \<le> maximum_depth limits" and "length ks = length vs"
  shows "encodeValue limits (MCompound ks vs) path depth = Inr v \<longleftrightarrow>
    (\<exists>xs. v = foldl (\<lambda>r (k, x). json_set r k x) (JObject []) (zip ks xs) \<and> length vs = length xs \<and>
      (\<forall>i < length vs.
        encodeValue limits (vs ! i) (path @ ''.'' @ ks ! i) (depth + 1) = Inr (xs ! i)))"
  unfolding encodeValue.simps [of limits "MCompound ks vs"]
  using assms
  by (auto simp: checkDepth_def mapE_eq_Inr forE_zip_iff)

lemma decodeValue_array:
  assumes "depth \<le> maximum_depth limits" and "primitive_type t"
  shows "decodeValue J R limits v (MArray t fixed items) path depth = Inr m \<longleftrightarrow>
    (\<exists>xs ys. v = JArray xs \<and> length xs \<le> maximum_array_elements limits \<and>
      length items = (if fixed then length xs else 0) \<and> m = MArray t fixed ys \<and>
      length xs = length ys \<and>
      (\<forall>i < length xs. decodeScalar J R t (xs ! i) (item_path path i) = Inr (ys ! i)))"
  unfolding decodeValue.simps [of J R limits v "MArray t fixed items"]
  using assms
  by (auto simp: checkDepth_def primitive_type_def decodePrimitiveArray_eq bindE_eq_Inr mapE_eq_Inr
    validateArrayInput_iff forE_enumerate_iff)

lemma encodeValue_array:
  assumes "depth \<le> maximum_depth limits" and "primitive_type t"
  shows "encodeValue limits (MArray t fixed items) path depth = Inr v \<longleftrightarrow>
    (\<exists>xs. v = JArray xs \<and> length items \<le> maximum_array_elements limits \<and>
      length items = length xs \<and>
      (\<forall>i < length items. encodeScalar (items ! i) (item_path path i) = Inr (xs ! i)))"
  unfolding encodeValue.simps [of limits "MArray t fixed items"]
  using assms
  by (auto simp: checkDepth_def primitive_type_def encodePrimitiveArray_def bindE_eq_Inr
    forE_enumerate_iff codec_error_defs)

lemma decodeValue_compound_array:
  assumes "depth \<le> maximum_depth limits"
  shows "decodeValue J R limits v (MCompoundArray fixed template items) path depth = Inr m \<longleftrightarrow>
    (\<exists>xs ys. v = JArray xs \<and> length xs \<le> maximum_array_elements limits \<and>
      length items = (if fixed then length xs else 0) \<and> m = MCompoundArray fixed template ys \<and>
      length xs = length ys \<and>
      (\<forall>i < length xs. decodeValue J R limits (xs ! i) (if fixed then items ! i else template)
        (item_path path i) (depth + 1) = Inr (ys ! i)))"
  unfolding decodeValue.simps [of J R limits v "MCompoundArray fixed template items"]
  using assms
  by (auto simp: checkDepth_def bindE_eq_Inr mapE_eq_Inr validateArrayInput_iff forE_enumerate_iff)

lemma encodeValue_compound_array:
  assumes "depth \<le> maximum_depth limits"
  shows "encodeValue limits (MCompoundArray fixed template items) path depth = Inr v \<longleftrightarrow>
    (\<exists>xs. v = JArray xs \<and> length items \<le> maximum_array_elements limits \<and>
      length items = length xs \<and>
      (\<forall>i < length items. encodeValue limits (items ! i) (item_path path i) (depth + 1) = Inr (xs ! i)))"
  unfolding encodeValue.simps [of limits "MCompoundArray fixed template items"]
  using assms
  by (auto simp: checkDepth_def mapE_eq_Inr forE_enumerate_iff codec_error_defs)

text \<open>Encoding fails only on what the limits and JSON cannot represent.\<close>

lemma encodeScalar_total:
  "wf_msg m \<Longrightarrow> scalar_type (message_type m) \<Longrightarrow> (\<exists>v. encodeScalar m path = Inr v) \<longleftrightarrow> finite_msg m"
  by (cases m) (auto simp: encodeScalar_def scalar_type_def codec_error_defs)

lemma primitive_scalar: "primitive_type t \<Longrightarrow> scalar_type t"
  by (auto simp: primitive_type_def scalar_type_def)

lemma all_nth_choice:
  "(\<exists>ys. length xs = length ys \<and> (\<forall>i < length xs. P i (xs ! i) (ys ! i))) \<longleftrightarrow>
   (\<forall>i < length xs. \<exists>y. P i (xs ! i) y)"
proof
  assume "\<forall>i < length xs. \<exists>y. P i (xs ! i) y"
  then obtain f where "\<forall>i < length xs. P i (xs ! i) (f i)" by metis
  then have "length xs = length (map f [0..<length xs]) \<and>
      (\<forall>i < length xs. P i (xs ! i) (map f [0..<length xs] ! i))" by simp
  then show "\<exists>ys. length xs = length ys \<and> (\<forall>i < length xs. P i (xs ! i) (ys ! i))" by blast
qed blast

lemma encodeValue_total:
  "wf_msg m \<Longrightarrow> (\<exists>v. encodeValue limits m path depth = Inr v) \<longleftrightarrow>
     depth \<le> maximum_depth limits \<and> nesting_within (maximum_depth limits - depth) m \<and>
     arrays_within (maximum_array_elements limits) m \<and> finite_msg m"
proof (induction depth arbitrary: m path rule: depth_induct [of "maximum_depth limits"])
  case (1 depth)
  show ?case
  proof (cases "depth \<le> maximum_depth limits")
    case False
    then show ?thesis by (simp add: encodeValue_deep codec_error_defs)
  next
    case True
    define ok where "ok x \<longleftrightarrow> depth + 1 \<le> maximum_depth limits \<and>
      nesting_within (maximum_depth limits - (depth + 1)) x \<and>
      arrays_within (maximum_array_elements limits) x \<and> finite_msg x" for x
    have step: "(\<exists>v. encodeValue limits x p (depth + 1) = Inr v) \<longleftrightarrow> ok x" if "wf_msg x" for x p
      unfolding ok_def by (rule "1.IH" [OF True that])
    show ?thesis
    proof (cases m rule: message_shape)
      case scalar
      then have "nesting_within n m" "arrays_within n m" for n
        by (cases m; simp add: scalar_type_def)+
      then show ?thesis
        using encodeScalar_total [OF "1.prems" scalar] scalar True by (simp add: encodeValue_scalar)
    next
      case (compound ks vs)
      have len: "length ks = length vs" using "1.prems" compound by simp
      have "(\<exists>v. encodeValue limits m path depth = Inr v) \<longleftrightarrow>
          (\<forall>i < length vs. \<exists>y. encodeValue limits (vs ! i) (path @ ''.'' @ ks ! i) (depth + 1) = Inr y)"
        using all_nth_choice [of vs "\<lambda>i x y. encodeValue limits x (path @ ''.'' @ ks ! i) (depth + 1) = Inr y"]
        unfolding compound encodeValue_compound [OF True len] by auto
      also have "\<dots> \<longleftrightarrow> (\<forall>x \<in> set vs. ok x)"
        using step "1.prems" compound by (simp add: all_set_conv_all_nth)
      finally show ?thesis using True unfolding compound ok_def by auto
    next
      case (array t fixed items)
      have prim: "primitive_type t" using "1.prems" array by simp
      have "(\<exists>v. encodeValue limits m path depth = Inr v) \<longleftrightarrow>
          length items \<le> maximum_array_elements limits \<and>
          (\<forall>i < length items. \<exists>y. encodeScalar (items ! i) (item_path path i) = Inr y)"
        using all_nth_choice [of items "\<lambda>i x y. encodeScalar x (item_path path i) = Inr y"]
        unfolding array encodeValue_array [OF True prim] by auto
      also have "(\<forall>i < length items. \<exists>y. encodeScalar (items ! i) (item_path path i) = Inr y) \<longleftrightarrow>
          (\<forall>x \<in> set items. finite_msg x)"
        using encodeScalar_total "1.prems" array primitive_scalar [OF prim]
        by (simp add: all_set_conv_all_nth)
      finally show ?thesis using True unfolding array by auto
    next
      case (compound_array fixed t items)
      have "(\<exists>v. encodeValue limits m path depth = Inr v) \<longleftrightarrow>
          length items \<le> maximum_array_elements limits \<and>
          (\<forall>i < length items. \<exists>y. encodeValue limits (items ! i) (item_path path i) (depth + 1) = Inr y)"
        using all_nth_choice [of items "\<lambda>i x y. encodeValue limits x (item_path path i) (depth + 1) = Inr y"]
        unfolding compound_array encodeValue_compound_array [OF True] by auto
      also have "(\<forall>i < length items. \<exists>y. encodeValue limits (items ! i) (item_path path i) (depth + 1) = Inr y)
          \<longleftrightarrow> (\<forall>x \<in> set items. ok x)"
        using step "1.prems" compound_array by (simp add: all_set_conv_all_nth)
      finally show ?thesis using True unfolding compound_array ok_def by auto
    qed
  qed
qed

text \<open>The error every rejected payload is reported with.\<close>

definition payload_error :: "exn \<Rightarrow> bool" where
  "payload_error e \<longleftrightarrow> (\<exists>message. e = Ros1ToolsError ''invalid_message_payload'' ''permanent'' message)"

lemma codecError_payload [simp]: "codecError path message = Inl e \<Longrightarrow> payload_error e"
  by (auto simp: codecError_def permanentError_def payload_error_def)

lemma checkDepth_payload: "checkDepth depth maximum path = Inl e \<Longrightarrow> payload_error e"
  by (auto simp: checkDepth_def split: if_splits)

lemma rejectUnknownMembers_payload:
  "rejectUnknownMembers v allowed path = Inl e \<Longrightarrow> payload_error e"
  by (auto simp: rejectUnknownMembers_def bindE_eq_Inl split: if_splits dest!: forE_Inl)

lemma validateArrayInput_payload:
  "validateArrayInput v fixed len maximum path = Inl e \<Longrightarrow> payload_error e"
  by (auto simp: validateArrayInput_def split: json.splits if_splits)

lemma integerText_string_payload: "integerText_string s path = Inl e \<Longrightarrow> payload_error e"
  by (auto simp: integerText_string_def canonical_decimal_error_def Let_def split: if_splits)

text \<open>The libraries the codec is built on.\<close>

locale codec_libraries = jsoncpp_numbers J + ros_time R
  for J :: jsoncpp and R :: ros_time_api
begin

lemma integerText_uint: "uint64_range n \<Longrightarrow> integerText J (JUInt n) path = Inr (nat_to_string n)"
  by (simp add: integerText_def integral_uint uint64_uint as_uint64_uint)

lemma integerText_int: "int64_range i \<Longrightarrow> integerText J (JInt i) path = Inr (int_to_string i)"
  by (simp add: integerText_def integral_int uint64_int as_uint64_int as_int64_int
    int_to_string_nonneg)

lemma unsigned_roundtrip:
  fixes w :: "'w::len word"
  assumes "LENGTH('w) \<le> 64"
  shows "unsignedInteger J (JUInt (unat w)) path = Inr w"
proof -
  have "unat w < 2 ^ LENGTH('w)" by (rule unsigned_less)
  then have "uint64_range (unat w)" using power_64 [OF assms] unfolding uint64_range_def by linarith
  then show ?thesis by (simp add: unsignedInteger_iff [OF assms] integerText_uint)
qed

lemma signed_roundtrip:
  fixes w :: "'w::len word"
  assumes "LENGTH('w) \<le> 64"
  shows "signedInteger J (JInt (sint w)) path = Inr w"
proof -
  have "int64_range (sint w)"
    using power_63 [OF assms] sint_bounds [of w] by (simp add: int64_range_def)
  then show ?thesis by (simp add: signedInteger_iff [OF assms] integerText_int)
qed

lemma time_roundtrip:
  assumes "unat n < 1000000000"
  shows "timeValue J R (encodeTime s n) path = Inr (s, n)"
proof -
  have "\<not> 1000000000 \<le> n" using assms by (simp add: word_le_nat_alt)
  then show ?thesis
    by (simp add: timeValue_def encodeTime_def json_set_def rejectUnknownMembers_def
      getMemberNames_def isMember_def json_member_def json_get_def unsigned_roundtrip
      time_normal [OF assms])
qed

lemma duration_roundtrip:
  assumes "0 \<le> sint n" and "sint n < 1000000000"
  shows "durationValue J R (encodeDuration s n) path = Inr (s, n)"
  using assms
  by (simp add: durationValue_def encodeDuration_def json_set_def rejectUnknownMembers_def
      getMemberNames_def isMember_def json_member_def json_get_def signed_roundtrip
      duration_normal)

lemma float64_roundtrip:
  "isfinite binary64 x \<Longrightarrow> floatingPoint J (JReal x) path = Inr x"
  by (simp add: floatingPoint_def numeric_kinds as_double_real)

lemma float32_roundtrip:
  assumes "wf_fp binary32 x" and "isfinite binary32 x"
  shows "float32Value J (JReal (float_to_double x)) path = Inr x"
proof -
  note wide = float_to_double_exact [OF assms]
  have "units binary64 (float_to_double x) \<le> units binary64 (float_to_double float_max)"
    using units_le_float_max [OF assms]
    by (simp add: wide(1) float_to_double_exact(1) [OF wf_float_max])
  then show ?thesis using wide(2) float_range_iff [OF wide(2)]
    by (auto simp: float32Value_def floatingPoint_def numeric_kinds as_double_real
      double_to_float_to_double [OF assms])
qed

lemma decodeScalar_encodeScalar:
  assumes "wf_msg m" and "encodeScalar m path = Inr v"
  shows "decodeScalar J R (message_type m) v path' = Inr m"
  using assms
  by (cases m)
    (auto simp: encodeScalar_def decodeScalar_def booleanValue_def stringValue_def
      unsigned_roundtrip signed_roundtrip unsigned_text_roundtrip signed_text_roundtrip
      time_roundtrip duration_roundtrip float32_roundtrip float64_roundtrip
      codec_error_defs split: if_splits)

text \<open>Decoding what was encoded gives the message back.\<close>

lemma compound_roundtrip:
  assumes step: "\<And>m b path v. encodeValue limits m path (depth + 1) = Inr v \<Longrightarrow> wf_msg m \<Longrightarrow>
      wf_msg b \<Longrightarrow> fresh_msg b \<Longrightarrow> same_type b m \<Longrightarrow>
      decodeValue J R limits v b path (depth + 1) = Inr m"
    and depth: "depth \<le> maximum_depth limits"
    and enc: "encodeValue limits (MCompound ks vs) path depth = Inr v"
    and wf: "wf_msg (MCompound ks vs)" "wf_msg b" "fresh_msg b" "same_type b (MCompound ks vs)"
  shows "decodeValue J R limits v b path depth = Inr (MCompound ks vs)"
proof -
  obtain us where b: "b = MCompound ks us" and us: "list_all2 same_type us vs"
    using wf(4) by (auto simp: same_type_to_compound)
  have len: "length ks = length vs" "length us = length vs"
    using wf us by (auto dest: list_all2_lengthD)
  obtain xs where v: "v = foldl (\<lambda>r (k, x). json_set r k x) (JObject []) (zip ks xs)"
      and xs: "length vs = length xs"
        "\<And>i. i < length vs \<Longrightarrow>
           encodeValue limits (vs ! i) (path @ ''.'' @ ks ! i) (depth + 1) = Inr (xs ! i)"
    using enc by (auto simp: encodeValue_compound [OF depth len(1)])
  note obj = encoded_object [of ks xs, folded v]
  have "distinct ks" using wf by simp
  then have members: "i < length vs \<Longrightarrow> json_member v (ks ! i) = Some (xs ! i)" for i
    using obj(3) len xs(1) by simp
  have "decodeValue J R limits (xs ! i) (us ! i) (path @ ''.'' @ ks ! i) (depth + 1) = Inr (vs ! i)"
    if "i < length vs" for i
    using that wf us len b xs(2) [OF that]
    by (intro step) (auto simp: list_all2_conv_all_nth)
  then show ?thesis
    unfolding b using obj(1,2) \<open>distinct ks\<close> len xs(1) members
    by (subst decodeValue_compound [OF depth])
      (auto simp: isMember_def json_get_def)
qed

lemma compound_array_roundtrip:
  assumes step: "\<And>m b path v. encodeValue limits m path (depth + 1) = Inr v \<Longrightarrow> wf_msg m \<Longrightarrow>
      wf_msg b \<Longrightarrow> fresh_msg b \<Longrightarrow> same_type b m \<Longrightarrow>
      decodeValue J R limits v b path (depth + 1) = Inr m"
    and depth: "depth \<le> maximum_depth limits"
    and enc: "encodeValue limits (MCompoundArray fixed t items) path depth = Inr v"
    and wf: "wf_msg (MCompoundArray fixed t items)" "wf_msg b" "fresh_msg b"
      "same_type b (MCompoundArray fixed t items)"
  shows "decodeValue J R limits v b path depth = Inr (MCompoundArray fixed t items)"
proof -
  obtain us where b: "b = MCompoundArray fixed t us" and us: "fixed \<longrightarrow> length us = length items"
    using wf(4) same_type_to_compound_array by blast
  obtain xs where v: "v = JArray xs" "length items \<le> maximum_array_elements limits"
      and xs: "length items = length xs" "\<And>i. i < length items \<Longrightarrow>
        encodeValue limits (items ! i) (item_path path i) (depth + 1) = Inr (xs ! i)"
    using enc by (auto simp: encodeValue_compound_array [OF depth])
  have target: "wf_msg (if fixed then us ! i else t)" "fresh_msg (if fixed then us ! i else t)"
      "same_type (if fixed then us ! i else t) (items ! i)" if "i < length items" for i
  proof -
    have item: "same_type t (items ! i)" using wf(1) that by simp
    have elem: "wf_msg (us ! i) \<and> same_type t (us ! i) \<and> fresh_msg (us ! i)" if fixed
    proof -
      have "us ! i \<in> set us" using us \<open>i < length items\<close> that by simp
      then show ?thesis using wf(2,3) that by (simp add: b)
    qed
    show "wf_msg (if fixed then us ! i else t)" using elem wf(1) by simp
    show "fresh_msg (if fixed then us ! i else t)" using elem wf(3) by (simp add: b)
    show "same_type (if fixed then us ! i else t) (items ! i)"
      using elem item same_type_common [of t "us ! i" "items ! i"] by simp
  qed
  have "decodeValue J R limits (xs ! i) (if fixed then us ! i else t) (item_path path i) (depth + 1)
      = Inr (items ! i)" if "i < length items" for i
    using that wf(1) xs(2) [OF that] target [OF that] by (intro step) auto
  then show ?thesis
    unfolding b v using wf(3) us v(2) xs(1)
    by (subst decodeValue_compound_array [OF depth]) (auto simp: b)
qed

lemma decodeValue_encodeValue:
  "encodeValue limits m path depth = Inr v \<Longrightarrow> wf_msg m \<Longrightarrow> wf_msg b \<Longrightarrow> fresh_msg b \<Longrightarrow>
   same_type b m \<Longrightarrow> decodeValue J R limits v b path depth = Inr m"
proof (induction depth arbitrary: m b path v rule: depth_induct [of "maximum_depth limits"])
  case (1 depth)
  have depth: "depth \<le> maximum_depth limits"
    using "1.prems"(1) by (rule contrapos_pp) (simp add: encodeValue_deep codec_error_defs)
  note step = "1.IH" [OF depth]
  show ?case
  proof (cases m rule: message_shape)
    case scalar
    then have "message_type b = message_type m"
      using "1.prems"(5) same_type_message_type by metis
    then show ?thesis
      using "1.prems"(1,2) scalar depth decodeScalar_encodeScalar [of m path v path]
      by (simp add: decodeValue_scalar encodeValue_scalar)
  next
    case (compound ks vs)
    show ?thesis unfolding compound
    proof (rule compound_roundtrip [OF _ depth], goal_cases)
      case 1
      then show ?case by (rule step)
    qed (use "1.prems" in \<open>simp_all only: compound\<close>)
  next
    case (array t fixed items)
    obtain us where b: "b = MArray t fixed us" "fixed \<longrightarrow> length us = length items"
      using "1.prems"(5) array same_type_to_array by blast
    have prim: "primitive_type t" using "1.prems"(2) array by simp
    obtain xs where "v = JArray xs" "length items \<le> maximum_array_elements limits"
        "length items = length xs"
        "\<And>i. i < length items \<Longrightarrow> encodeScalar (items ! i) (item_path path i) = Inr (xs ! i)"
      using "1.prems"(1) array by (auto simp: encodeValue_array [OF depth prim])
    moreover from this(4) have
      "decodeScalar J R t (xs ! i) (item_path path i) = Inr (items ! i)" if "i < length items" for i
      using decodeScalar_encodeScalar [of "items ! i" "item_path path i" "xs ! i"]
        "1.prems"(2) that array by simp
    ultimately show ?thesis
      using "1.prems"(4) b array by (auto simp: decodeValue_array [OF depth prim])
  next
    case (compound_array fixed t items)
    show ?thesis unfolding compound_array
    proof (rule compound_array_roundtrip [OF _ depth], goal_cases)
      case 1
      then show ?case by (rule step)
    qed (use "1.prems" in \<open>simp_all only: compound_array\<close>)
  qed
qed

text \<open>A decoded scalar has the type it was decoded for and is a finite, normalised value.\<close>

lemma floatingPoint_wf:
  assumes "floatingPoint J v path = Inr d" and "wf_json v"
  shows "wf_fp binary64 d" "isfinite binary64 d"
proof -
  have d: "isNumeric J v" "asDouble J v = Inr d" and fin: "isfinite binary64 d"
    using assms(1) by (auto simp: floatingPoint_def result_simps codec_error_defs split: if_splits)
  from d(1) consider i where "v = JInt i" | n where "v = JUInt n" | x where "v = JReal x"
    by (auto simp: numeric_kinds)
  then show "wf_fp binary64 d"
  proof cases
    case 1
    then show ?thesis using as_double_int [of i] d(2) by auto
  next
    case 2
    then show ?thesis using as_double_uint [of n] d(2) by auto
  next
    case 3
    then show ?thesis using as_double_real [of x] d(2) assms(2) by simp
  qed
  show "isfinite binary64 d" by (rule fin)
qed

lemma float32Value_wf:
  assumes "float32Value J v path = Inr x"
  shows "wf_fp binary32 x" "isfinite binary32 x"
proof -
  obtain d where d: "floatingPoint J v path = Inr d" "x = double_to_float d"
      and range: "\<not> fp_less binary64 d (fp_neg (float_to_double float_max))"
        "\<not> fp_less binary64 (float_to_double float_max) d"
    using assms by (auto simp: float32Value_def result_simps codec_error_defs split: if_splits)
  have "isfinite binary64 d"
    using d(1) by (auto simp: floatingPoint_def result_simps codec_error_defs split: if_splits)
  then show "wf_fp binary32 x" "isfinite binary32 x"
    using float_range_finite [OF _ range] d(2) by auto
qed

lemma timeValue_normal:
  assumes "timeValue J R v path = Inr (s, n)"
  shows "unat n < 1000000000"
proof -
  obtain s' n' where "newTime R s' n' = Inr (s, n)" and "\<not> 1000000000 \<le> n'"
    using assms by (auto simp: timeValue_def result_simps codec_error_defs split: if_splits)
  moreover from this(2) have "unat n' < 1000000000" by (simp add: word_le_nat_alt)
  ultimately show ?thesis using time_normal [of n' s'] by simp
qed

lemma durationValue_normal:
  assumes "durationValue J R v path = Inr (s, n)"
  shows "0 \<le> sint n" "sint n < 1000000000"
proof -
  obtain s' n' where "newDuration R s' n' = Inr (s, n)"
    using assms by (auto simp: durationValue_def result_simps codec_error_defs split: if_splits)
  then show "0 \<le> sint n" "sint n < 1000000000" using duration_normalised by blast+
qed

lemma decodeScalar_type:
  assumes "decodeScalar J R t v path = Inr m" and "wf_json v"
  shows "message_type m = t \<and> wf_msg m \<and> finite_msg m"
  using assms
  by (cases t)
    (auto simp: decodeScalar_def mapE_eq_Inr codec_error_defs
      dest: floatingPoint_wf float32Value_wf timeValue_normal durationValue_normal)

lemma decodeValue_type:
  "decodeValue J R limits v t path depth = Inr m \<Longrightarrow> wf_json v \<Longrightarrow> wf_msg t \<Longrightarrow> finite_msg t \<Longrightarrow>
   same_type t m \<and> wf_msg m \<and> finite_msg m"
proof (induction depth arbitrary: m t path v rule: depth_induct [of "maximum_depth limits"])
  case (1 depth)
  have depth: "depth \<le> maximum_depth limits"
    using "1.prems"(1) by (rule contrapos_pp) (simp add: decodeValue_deep codec_error_defs)
  note step = "1.IH" [OF depth]
  show ?case
  proof (cases t rule: message_shape)
    case scalar
    then show ?thesis
      using "1.prems"(1,2) depth decodeScalar_type [of "message_type t" v path m]
      by (simp add: decodeValue_scalar same_type_scalar)
  next
    case (compound ks vs)
    have len: "length ks = length vs" "distinct ks" using "1.prems"(3) compound by simp_all
    obtain ws where m: "m = MCompound ks ws" and ws: "length vs = length ws"
        "\<And>i. i < length vs \<Longrightarrow> if isMember v (ks ! i)
          then decodeValue J R limits (json_get v (ks ! i)) (vs ! i) (path @ ''.'' @ ks ! i) (depth + 1)
            = Inr (ws ! i)
          else ws ! i = vs ! i"
      using "1.prems"(1) unfolding compound decodeValue_compound [OF depth len(1)] by blast
    have "same_type (vs ! i) (ws ! i) \<and> wf_msg (ws ! i) \<and> finite_msg (ws ! i)" if "i < length vs" for i
    proof (cases "isMember v (ks ! i)")
      case True
      then show ?thesis using ws(2) [OF that] step wf_json_get "1.prems" that by (simp add: compound)
    next
      case False
      then show ?thesis using ws(2) [OF that] "1.prems" that by (simp add: compound same_type_refl)
    qed
    then show ?thesis using ws(1) len unfolding compound m
      by (auto simp: list_all2_conv_all_nth in_set_conv_nth)
  next
    case (array e fixed items)
    have prim: "primitive_type e" using "1.prems"(3) array by simp
    obtain xs ys where "v = JArray xs" "length items = (if fixed then length xs else 0)"
        and m: "m = MArray e fixed ys" "length xs = length ys"
          "\<And>i. i < length xs \<Longrightarrow> decodeScalar J R e (xs ! i) (item_path path i) = Inr (ys ! i)"
      using "1.prems"(1) unfolding array decodeValue_array [OF depth prim] by auto
    moreover from this(1) have "wf_json (xs ! i)" if "i < length xs" for i
      using "1.prems"(2) that by simp
    ultimately have "message_type y = e \<and> wf_msg y \<and> finite_msg y" if "y \<in> set ys" for y
      using decodeScalar_type that by (metis in_set_conv_nth)
    then show ?thesis using m(2) prim \<open>length items = _\<close> unfolding array m(1) by auto
  next
    case (compound_array fixed t' items)
    obtain xs ys where v: "v = JArray xs" and len: "length items = (if fixed then length xs else 0)"
        and m: "m = MCompoundArray fixed t' ys" "length xs = length ys"
          "\<And>i. i < length xs \<Longrightarrow> decodeValue J R limits (xs ! i)
             (if fixed then items ! i else t') (item_path path i) (depth + 1) = Inr (ys ! i)"
      using "1.prems"(1) unfolding compound_array decodeValue_compound_array [OF depth] by auto
    have "same_type t' (ys ! i) \<and> wf_msg (ys ! i) \<and> finite_msg (ys ! i)" if "i < length xs" for i
    proof -
      let ?c = "if fixed then items ! i else t'"
      have c: "wf_msg ?c \<and> finite_msg ?c \<and> same_type t' ?c"
        using "1.prems"(3,4) that len same_type_refl [of t'] by (auto simp: compound_array)
      have "wf_json (xs ! i)" using "1.prems"(2) that by (simp add: v)
      then have "same_type ?c (ys ! i) \<and> wf_msg (ys ! i) \<and> finite_msg (ys ! i)"
        using step [OF m(3) [OF that]] c by blast
      then show ?thesis using c same_type_trans by blast
    qed
    then have "same_type t' y \<and> wf_msg y \<and> finite_msg y" if "y \<in> set ys" for y
      using that m(2) by (metis in_set_conv_nth)
    moreover from this have "message_type y = TCompound" if "y \<in> set ys" for y
      using that same_type_message_type "1.prems"(3) by (force simp: compound_array)
    ultimately show ?thesis using m(2) "1.prems"(3) len unfolding compound_array m(1) by auto
  qed
qed

lemma integerText_payload: "integerText J v path = Inl e \<Longrightarrow> payload_error e"
  using as_uint64_total [of v] as_int64_total [of v]
  by (auto simp: integerText_def bindE_eq_Inl integerText_string_payload split: json.splits if_splits)

lemma signedInteger_payload:
  assumes "signedInteger J v path = Inl e"
  shows "payload_error e"
proof (cases "integerText J v path")
  case (Inr s)
  with assms show ?thesis
    by (cases "stoll s") (auto simp: signedInteger_def split: if_splits)
qed (use assms integerText_payload in \<open>simp add: signedInteger_def\<close>)

lemma unsignedInteger_payload:
  assumes "unsignedInteger J v path = Inl e"
  shows "payload_error e"
proof (cases "integerText J v path")
  case (Inr s)
  with assms show ?thesis
    by (cases "stoull s") (auto simp: unsignedInteger_def split: if_splits)
qed (use assms integerText_payload in \<open>simp add: unsignedInteger_def\<close>)

lemma floatingPoint_payload:
  assumes "floatingPoint J v path = Inl e"
  shows "payload_error e"
proof (cases "isNumeric J v")
  case True
  then have "\<exists>d. asDouble J v = Inr d"
    using as_double_int as_double_uint as_double_real unfolding numeric_kinds by blast
  with assms True show ?thesis by (auto simp: floatingPoint_def split: if_splits)
qed (use assms in \<open>simp add: floatingPoint_def\<close>)

lemma float32Value_payload: "float32Value J v path = Inl e \<Longrightarrow> payload_error e"
  by (auto simp: float32Value_def bindE_eq_Inl floatingPoint_payload split: if_splits)

lemma timeValue_payload:
  assumes "timeValue J R v path = Inl e"
  shows "payload_error e"
proof -
  have "newTime R s n \<noteq> Inl e" if "\<not> 1000000000 \<le> n" for s n
    using that time_normal [of n s] by (simp add: word_le_nat_alt)
  with assms show ?thesis
    by (auto simp: timeValue_def bindE_eq_Inl rejectUnknownMembers_payload unsignedInteger_payload
      split: if_splits)
qed

lemma durationValue_payload:
  assumes "durationValue J R v path = Inl e"
  shows "payload_error e \<or> (\<exists>s n. newDuration R s n = Inl e)"
  using assms
  by (auto simp: durationValue_def bindE_eq_Inl rejectUnknownMembers_payload signedInteger_payload
    split: if_splits)

lemma decodeScalar_payload:
  "decodeScalar J R t v path = Inl e \<Longrightarrow> payload_error e \<or> (\<exists>s n. newDuration R s n = Inl e)"
  by (cases t)
    (auto simp: decodeScalar_def mapE_eq_Inl signedInteger_payload unsignedInteger_payload
      floatingPoint_payload float32Value_payload timeValue_payload durationValue_payload
      booleanValue_def stringValue_def split: json.splits)

lemma decodeValue_payload:
  "decodeValue J R limits v t path depth = Inl e \<Longrightarrow> wf_msg t \<Longrightarrow>
   payload_error e \<or> (\<exists>s n. newDuration R s n = Inl e)"
proof (induction depth arbitrary: t path v rule: depth_induct [of "maximum_depth limits"])
  case (1 depth)
  show ?case
  proof (cases "depth \<le> maximum_depth limits")
    case False
    then show ?thesis using "1.prems"(1) by (auto simp: decodeValue_deep)
  next
    case True
    note step = "1.IH" [OF True]
    show ?thesis
    proof (cases t rule: message_shape)
      case scalar
      then show ?thesis using "1.prems"(1) True decodeScalar_payload by (simp add: decodeValue_scalar)
    next
      case (compound ks vs)
      show ?thesis using "1.prems" True step unfolding compound decodeValue.simps [of J R limits v "MCompound ks vs"]
        by (fastforce simp: checkDepth_def bindE_eq_Inl mapE_eq_Inl rejectUnknownMembers_payload
          split: if_splits dest!: forE_Inl dest: set_zip_rightD)
    next
      case (array e' fixed items)
      show ?thesis using "1.prems" True decodeScalar_payload unfolding array decodeValue.simps [of J R limits v "MArray e' fixed items"]
        by (fastforce simp: checkDepth_def bindE_eq_Inl mapE_eq_Inl decodePrimitiveArray_eq primitive_type_def
          validateArrayInput_payload split: if_splits dest!: forE_Inl)
    next
      case (compound_array fixed t' items)
      have "wf_msg (if fixed then items ! i else t')" if "i < length items \<or> \<not> fixed" for i
        using "1.prems"(2) that by (auto simp: compound_array)
      then show ?thesis using "1.prems" True step unfolding compound_array decodeValue.simps [of J R limits v "MCompoundArray fixed t' items"]
        by (fastforce simp: checkDepth_def bindE_eq_Inl mapE_eq_Inl validateArrayInput_payload
          validateArrayInput_iff in_set_enumerate_eq split: if_splits dest!: forE_Inl)
    qed
  qed
qed

end

interpretation reference_codec: codec_libraries jsoncpp_reference ros_time_reference
  by unfold_locales

section \<open>Properties\<close>

text \<open>
  C27. An integer given as text is accepted exactly when it is the canonical decimal of a
  value of the field: no sign on zero, no leading zero, no plus sign, no white space, nothing
  out of range; and the field receives that value. This holds for every integer width up to
  64 bits.
\<close>

theorem integer_text_exact:
  fixes w :: "'w::len word"
  assumes "LENGTH('w) \<le> 64"
  shows "(signedInteger J (JString s) path = Inr w \<longleftrightarrow> s = int_to_string (sint w)) \<and>
    (unsignedInteger J (JString s) path = Inr w \<longleftrightarrow> s = nat_to_string (unat w))"
  using assms
  by (auto simp: signedInteger_iff unsignedInteger_iff integerText_def integerText_string_iff
    int_to_string_canonical nat_to_string_int simp del: of_nat_unat)

theorem integer_text_exact_witness:
  "signedInteger jsoncpp_reference (JString ''-128'') ''$'' = Inr (- 128 :: 8 word) \<and>
   unsignedInteger jsoncpp_reference (JString ''256'') ''$'' \<noteq> Inr (0 :: 8 word)"
  using integer_text_exact [of jsoncpp_reference "''-128''" "''$''" "- 128 :: 8 word"]
    integer_text_exact [of jsoncpp_reference "''256''" "''$''" "0 :: 8 word"]
  by (simp add: int_to_string_def nat_to_string.simps)

text \<open>
  C10. Whatever the codec encodes it decodes to the same message: for a well-formed message
  \<open>m\<close> whose encoding succeeds, decoding the JSON value into any newly created message of the
  same type gives \<open>m\<close> back, field by field and bit by bit.
\<close>

theorem codec_roundtrip:
  assumes "jsoncpp_numbers J" and "ros_time R"
    and "encode limits m = Inr v" and "wf_msg m"
    and "wf_msg b" and "fresh_msg b" and "same_type b m"
  shows "decode J R limits v b = Inr m"
  using codec_libraries.decodeValue_encodeValue [OF codec_libraries.intro, OF assms(1,2)] assms(3-)
  unfolding encode_def decode_def by blast

definition sample_message :: msg where
  "sample_message =
     MCompound [''seq'', ''stamp'', ''ids'']
       [MInt64 (- 7), MTime 12 500000000, MArray TUInt8 False [MUInt8 255, MUInt8 0]]"

definition sample_blank :: msg where
  "sample_blank =
     MCompound [''seq'', ''stamp'', ''ids''] [MInt64 0, MTime 0 0, MArray TUInt8 False []]"

lemma sample_wf:
  "wf_msg sample_message" "wf_msg sample_blank" "fresh_msg sample_blank"
  "same_type sample_blank sample_message" "finite_msg sample_message" "finite_msg sample_blank"
  by (simp_all add: sample_message_def sample_blank_def primitive_type_def same_type_scalar
    scalar_type_def)

theorem codec_roundtrip_witness:
  "\<exists>v. encode default_codec_limits sample_message = Inr v \<and>
     decode jsoncpp_reference ros_time_reference default_codec_limits v sample_blank = Inr sample_message"
proof -
  obtain v where v: "encode default_codec_limits sample_message = Inr v"
    using encodeValue_total [OF sample_wf(1), of default_codec_limits "''$''" 0] sample_wf(5)
    by (auto simp: encode_def default_codec_limits_def sample_message_def)
  then have "decode jsoncpp_reference ros_time_reference default_codec_limits v sample_blank =
      Inr sample_message"
    by (rule codec_roundtrip [OF reference_numbers.jsoncpp_numbers_axioms
      reference_time.ros_time_axioms _ sample_wf(1-4)])
  with v show ?thesis by blast
qed

text \<open>
  C23. Decoding preserves the type: the message keeps the ROS type of the message it is
  decoded into (field tables, array element types and fixed array sizes), it satisfies the
  message invariant, and it holds no infinity and no NaN. In particular a \<^verbatim>\<open>float32\<close>
  field never overflows to infinity in the narrowing conversion.
\<close>

theorem decode_preserves_type:
  assumes "jsoncpp_numbers J" and "ros_time R"
    and "decode J R limits v t = Inr m" and "wf_json v" and "wf_msg t" and "finite_msg t"
  shows "same_type t m \<and> wf_msg m \<and> finite_msg m"
  using codec_libraries.decodeValue_type [OF codec_libraries.intro, OF assms(1,2)] assms(3-)
  unfolding decode_def by blast

theorem decode_preserves_type_witness:
  "decode jsoncpp_reference ros_time_reference default_codec_limits
     (JObject [(''ids'', JArray [JUInt 3, JString ''4''])]) sample_blank =
     Inr (MCompound [''seq'', ''stamp'', ''ids'']
       [MInt64 0, MTime 0 0, MArray TUInt8 False [MUInt8 3, MUInt8 4]]) \<and>
   same_type sample_blank (MCompound [''seq'', ''stamp'', ''ids'']
     [MInt64 0, MTime 0 0, MArray TUInt8 False [MUInt8 3, MUInt8 4]])"
proof -
  let ?v = "JObject [(''ids'', JArray [JUInt 3, JString ''4''])]"
  let ?m = "MCompound [''seq'', ''stamp'', ''ids'']
       [MInt64 0, MTime 0 0, MArray TUInt8 False [MUInt8 3, MUInt8 4]]"
  have ints: "unsignedInteger jsoncpp_reference (JUInt 3) p = Inr (3 :: 8 word)"
      "unsignedInteger jsoncpp_reference (JString ''4'') p = Inr (4 :: 8 word)" for p
    using reference_codec.unsigned_roundtrip [of "3 :: 8 word" p]
      unsigned_text_roundtrip [of jsoncpp_reference "4 :: 8 word" p]
    by (simp_all add: nat_to_string.simps)
  have dec: "decode jsoncpp_reference ros_time_reference default_codec_limits ?v sample_blank = Inr ?m"
    by (simp add: decode_def sample_blank_def decodeValue.simps checkDepth_def default_codec_limits_def
      rejectUnknownMembers_def getMemberNames_def isMember_def json_member_def json_get_def
      decodePrimitiveArray_def validateArrayInput_def decodeScalar_def ints mapE_def)
  have "same_type sample_blank ?m"
    using decode_preserves_type [OF reference_numbers.jsoncpp_numbers_axioms
      reference_time.ros_time_axioms dec _ sample_wf(2) sample_wf(6)] by simp
  with dec show ?thesis by blast
qed

text \<open>
  C26. A payload that is rejected is rejected with the permanent error
  \<^verbatim>\<open>invalid_message_payload\<close>, with one exception: an error thrown by the constructor
  of \<^verbatim>\<open>ros::Duration\<close> goes through unchanged.
\<close>

theorem decode_error_class:
  assumes "jsoncpp_numbers J" and "ros_time R"
    and "decode J R limits v t = Inl e" and "wf_msg t"
  shows "payload_error e \<or> (\<exists>s n. newDuration R s n = Inl e)"
  using codec_libraries.decodeValue_payload [OF codec_libraries.intro, OF assms(1,2)] assms(3-)
  unfolding decode_def by blast

theorem decode_error_class_witness:
  "decode jsoncpp_reference ros_time_reference default_codec_limits
     (JObject [(''nope'', JNull)]) sample_blank =
     Inl (Ros1ToolsError ''invalid_message_payload'' ''permanent'' ''$.nope: unknown field'') \<and>
   payload_error (Ros1ToolsError ''invalid_message_payload'' ''permanent'' ''$.nope: unknown field'')"
proof -
  let ?e = "Ros1ToolsError ''invalid_message_payload'' ''permanent'' ''$.nope: unknown field''"
  have dec: "decode jsoncpp_reference ros_time_reference default_codec_limits
      (JObject [(''nope'', JNull)]) sample_blank = Inl ?e"
    by (simp add: decode_def sample_blank_def decodeValue.simps checkDepth_def default_codec_limits_def
      rejectUnknownMembers_def getMemberNames_def codec_error_defs)
  have "payload_error ?e \<or> (\<exists>s n. newDuration ros_time_reference s n = Inl ?e)"
    by (rule decode_error_class [OF reference_numbers.jsoncpp_numbers_axioms
      reference_time.ros_time_axioms dec sample_wf(2)])
  then have "payload_error ?e"
    by (auto simp: ros_time_reference_def Let_def stdError_def split: if_splits)
  with dec show ?thesis by blast
qed

text \<open>
  C24. Encoding a well-formed message succeeds exactly when the message nests no deeper than
  the depth limit, none of its arrays is longer than the element limit, and every floating
  point field is finite.
\<close>

theorem encode_total:
  assumes "wf_msg m"
  shows "(\<exists>v. encode limits m = Inr v) \<longleftrightarrow>
    nesting_within (maximum_depth limits) m \<and>
    arrays_within (maximum_array_elements limits) m \<and> finite_msg m"
  using encodeValue_total [OF assms, of limits "''$''" 0] by (simp add: encode_def)

theorem encode_total_witness:
  "\<not> (\<exists>v. encode \<lparr>maximum_depth = 1, maximum_array_elements = 1\<rparr> sample_message = Inr v)"
  using encode_total [OF sample_wf(1), of "\<lparr>maximum_depth = 1, maximum_array_elements = 1\<rparr>"]
  by (simp add: sample_message_def)



end
