(* ===== verification/Publisher_Registry.thy ===== *)
theory Publisher_Registry
  imports Program_Monad Type_Registry Json_Codec "HOL-Library.Multiset"
begin

text \<open>
  The cache of ROS publishers and the publishing of a message
  (\<^verbatim>\<open>publisher_registry.cpp\<close>).

  An \<^verbatim>\<open>Entry\<close> is shared by the cache and by the calls that lease it, so entries live in a
  store and the cache maps topics to positions of the store. The blocks the code guards with
  its mutex are functions on the registry. A call of \<^verbatim>\<open>publish\<close> is a program over a world
  with a tick that counts the observations it makes of its surroundings: the record
  \<open>pub_env\<close> gives for every tick what the clocks, \<^verbatim>\<open>ros::ok\<close>, the native publisher and
  the master answer, and what other threads have done to the registry before a guarded block.
\<close>

section \<open>Data\<close>

record 'p entry =
  entry_message_type :: string
  entry_latch :: bool
  entry_queue_size :: "32 word"
  entry_publisher :: 'p
  active_calls :: nat
  native_dispatch_committed :: bool

record 'p registry =
  maximum_publishers :: nat
  master_generation :: int
  entries :: "(string \<times> nat) list"
  store :: "'p entry list"

record publish_request =
  pub_topic :: string
  pub_message_type :: string
  pub_message :: json
  publish_count :: "32 word"
  publish_rate_hz :: fp
  pub_latch :: bool
  pub_queue_size :: "32 word"
  wait_for_subscribers_ms :: "32 word"
  pub_deadline_unix_nanos :: int
  pub_has_cancellation :: bool

record publish_result =
  result_topic :: string
  result_message_type :: string
  serialized_bytes :: "32 word"
  published_count :: nat
  subscriber_count :: nat

datatype master_binding_state = Unbound | Bound | Changed | Unavailable

section \<open>The guarded blocks\<close>

definition PublisherRegistry :: "nat \<Rightarrow> 'p registry result" where
  "PublisherRegistry maximum =
     (if maximum = 0
      then permanentError ''invalid_configuration''
             ''maximum cached ROS1 publishers must be greater than zero''
      else Inr \<lparr>maximum_publishers = maximum, master_generation = 0, entries = [], store = []\<rparr>)"

definition new_entry :: "publish_request \<Rightarrow> 'p \<Rightarrow> 'p entry" where
  "new_entry request publisher =
     \<lparr>entry_message_type = pub_message_type request, entry_latch = pub_latch request,
      entry_queue_size = pub_queue_size request, entry_publisher = publisher, active_calls = 1,
      native_dispatch_committed = False\<rparr>"

definition acquire ::
  "'p result \<Rightarrow> publish_request \<Rightarrow> 'p registry \<Rightarrow> ('p \<times> nat) result \<times> 'p registry" where
  "acquire advertised request reg =
     (case map_of (entries reg) (pub_topic request) of
        None \<Rightarrow>
          if length (entries reg) \<ge> maximum_publishers reg then
            (resourceExhaustedError ''publisher_capacity_exhausted''
               ''maximum cached ROS1 publishers reached; replace or stop the Adapter instance before publishing another topic'',
             reg)
          else
            (case advertise advertised (pub_message_type request) (pub_topic request) of
               Inl e \<Rightarrow> (Inl e, reg)
             | Inr publisher \<Rightarrow>
                 (Inr (publisher, length (store reg)),
                  reg\<lparr>store := store reg @ [new_entry request publisher],
                      entries := entries reg @ [(pub_topic request, length (store reg))]\<rparr>))
      | Some position \<Rightarrow>
          let entry = store reg ! position in
          if entry_message_type entry \<noteq> pub_message_type request
             \<or> entry_latch entry \<noteq> pub_latch request
             \<or> entry_queue_size entry \<noteq> pub_queue_size request
          then (permanentError ''publisher_configuration_conflict''
                  (''topic '' @ [CHR 0x27] @ pub_topic request @ [CHR 0x27] @
                   '' is already cached with a different type, latch, or queueSize''), reg)
          else (Inr (entry_publisher entry, position),
                reg\<lparr>store := (store reg)[position := entry\<lparr>active_calls := active_calls entry + 1\<rparr>]\<rparr>))"

definition release_entry :: "bool \<Rightarrow> 'p entry \<Rightarrow> 'p entry" where
  "release_entry committed entry =
     entry\<lparr>active_calls := active_calls entry - 1,
           native_dispatch_committed := native_dispatch_committed entry \<or> committed\<rparr>"

definition release :: "string \<Rightarrow> nat \<Rightarrow> bool \<Rightarrow> 'p registry \<Rightarrow> 'p registry" where
  "release topic position committed reg =
     (let entry = release_entry committed (store reg ! position);
          reg' = reg\<lparr>store := (store reg)[position := entry]\<rparr>
      in if map_of (entries reg) topic = Some position \<and> active_calls entry = 0
            \<and> \<not> native_dispatch_committed entry
         then reg'\<lparr>entries := filter (\<lambda>(t, _). t \<noteq> topic) (entries reg)\<rparr>
         else reg')"

definition refresh_generation :: "int \<Rightarrow> 'p registry \<Rightarrow> unit result \<times> 'p registry" where
  "refresh_generation current reg =
     (if current \<le> 0 then
        (transientError ''ros_master_generation_unavailable''
           ''ROS1 master process generation is invalid'', reg)
      else if master_generation reg = 0 then (Inr (), reg\<lparr>master_generation := current\<rparr>)
      else if master_generation reg \<noteq> current then
        (transientError ''ros_master_generation_changed''
           ''ROS1 master process generation changed; this Adapter process is bound to the previous master and must be recycled'',
         reg\<lparr>entries := []\<rparr>)
      else (Inr (), reg))"

definition unbound_or_unavailable :: "'p registry \<Rightarrow> master_binding_state" where
  "unbound_or_unavailable reg = (if master_generation reg = 0 then Unbound else Unavailable)"

text \<open>The state, the generation written to \<^verbatim>\<open>current_out\<close>, and the registry afterwards.\<close>

definition probeMasterBinding ::
  "int result \<Rightarrow> 'p registry \<Rightarrow> (master_binding_state \<times> int) \<times> 'p registry" where
  "probeMasterBinding provided reg =
     (case provided of
        Inl _ \<Rightarrow> ((unbound_or_unavailable reg, 0), reg)
      | Inr current \<Rightarrow>
          if current \<le> 0 then ((unbound_or_unavailable reg, current), reg)
          else if master_generation reg = 0
          then ((Bound, current), reg\<lparr>master_generation := current\<rparr>)
          else if master_generation reg \<noteq> current then ((Changed, current), reg)
          else ((Bound, current), reg))"

definition clear :: "'p registry \<Rightarrow> 'p registry" where
  "clear reg = reg\<lparr>entries := []\<rparr>"

definition registry_size :: "'p registry \<Rightarrow> nat" where
  "registry_size reg = length (entries reg)"

text \<open>
  \<^verbatim>\<open>currentMasterGeneration\<close>: the answer of the master to \<^verbatim>\<open>getPid\<close>, \<open>None\<close> when the
  request fails or its payload is not an integer.
\<close>

definition currentMasterGeneration :: "int option \<Rightarrow> int result" where
  "currentMasterGeneration payload =
     (case payload of
        Some pid \<Rightarrow> if pid \<le> 0 then transientError ''ros_master_generation_unavailable''
            ''ROS1 master process generation is unavailable'' else Inr pid
      | None \<Rightarrow> transientError ''ros_master_generation_unavailable''
            ''ROS1 master process generation is unavailable'')"

section \<open>Publishing\<close>

record 'p pub_env =
  env_cancel :: "nat \<Rightarrow> bool"
  env_system_now :: "nat \<Rightarrow> int"
  env_steady_now :: "nat \<Rightarrow> int"
  env_ros_ok :: "nat \<Rightarrow> bool"
  env_subscribers :: "nat \<Rightarrow> nat result"
  env_native_publish :: "nat \<Rightarrow> unit result"
  env_generation :: "nat \<Rightarrow> int result"
  env_advertise :: "nat \<Rightarrow> 'p result"
  env_publisher_valid :: "nat \<Rightarrow> 'p \<Rightarrow> bool"
  env_interfere :: "nat \<Rightarrow> 'p registry \<Rightarrow> 'p registry"

record 'p pub_world =
  tick :: nat
  registry :: "'p registry"
  released :: bool
  dispatched :: "nat list"

definition observeP :: "(nat \<Rightarrow> 'a) \<Rightarrow> ('p pub_world, 'a) prog" where
  "observeP f = (\<lambda>w. Some (Inr (f (tick w)), w\<lparr>tick := Suc (tick w)\<rparr>))"

definition observeE :: "(nat \<Rightarrow> 'a result) \<Rightarrow> ('p pub_world, 'a) prog" where
  "observeE f = (\<lambda>w. Some (f (tick w), w\<lparr>tick := Suc (tick w)\<rparr>))"

text \<open>A block under the mutex, after what other threads did before it was entered.\<close>

definition guardedP ::
  "'p pub_env \<Rightarrow> ('p registry \<Rightarrow> 'a result \<times> 'p registry) \<Rightarrow> ('p pub_world, 'a) prog" where
  "guardedP E f = (\<lambda>w.
     case f (env_interfere E (tick w) (registry w)) of
       (r, reg) \<Rightarrow> Some (r, w\<lparr>registry := reg, tick := Suc (tick w)\<rparr>))"

definition pub_deadlineExpired :: "'p pub_env \<Rightarrow> int \<Rightarrow> ('p pub_world, bool) prog" where
  "pub_deadlineExpired E deadline =
     (if deadline \<le> 0 then returnP False
      else bindP (observeP (env_system_now E)) (\<lambda>now. returnP (now \<ge> deadline)))"

definition pub_cancellationRequested :: "'p pub_env \<Rightarrow> publish_request \<Rightarrow> ('p pub_world, bool) prog" where
  "pub_cancellationRequested E request =
     (if pub_has_cancellation request then observeP (env_cancel E) else returnP False)"

definition requireDispatchAllowed :: "'p pub_env \<Rightarrow> publish_request \<Rightarrow> ('p pub_world, unit) prog" where
  "requireDispatchAllowed E request =
     bindP (pub_cancellationRequested E request) (\<lambda>cancelled.
       if cancelled
       then liftP (cancelledError ''publish_cancelled''
              ''ROS1 topic publish was cancelled before dispatch'')
       else bindP (pub_deadlineExpired E (pub_deadline_unix_nanos request)) (\<lambda>expired.
         if expired
         then liftP (deadlineError ''publish_deadline_elapsed''
                ''ROS1 topic publish deadline elapsed before dispatch'')
         else returnP ()))"

definition requireContinuationAllowed :: "'p pub_env \<Rightarrow> publish_request \<Rightarrow> ('p pub_world, unit) prog" where
  "requireContinuationAllowed E request =
     bindP (pub_cancellationRequested E request) (\<lambda>cancelled.
       if cancelled
       then liftP (uncertainError ''publish_cancelled_after_dispatch''
              ''ROS1 topic publish was cancelled after native dispatch'')
       else bindP (pub_deadlineExpired E (pub_deadline_unix_nanos request)) (\<lambda>expired.
         if expired
         then liftP (uncertainError ''publish_deadline_after_dispatch''
                ''ROS1 topic publish crossed its deadline after native dispatch'')
         else returnP ()))"

text \<open>The clock is read once more for the time to sleep; sleeping itself has no effect here.\<close>

definition wait_round ::
  "'p pub_env \<Rightarrow> publish_request \<Rightarrow> int \<Rightarrow> unit \<Rightarrow> ('p pub_world, (unit, unit) flow) prog" where
  "wait_round E request target = (\<lambda>_.
     bindP (observeP (env_steady_now E)) (\<lambda>now.
       if now < target
       then thenP (requireContinuationAllowed E request)
              (bindP (observeP (env_steady_now E)) (\<lambda>_. returnP (Again ())))
       else returnP (Done ())))"

definition waitUntil :: "nat \<Rightarrow> 'p pub_env \<Rightarrow> publish_request \<Rightarrow> int \<Rightarrow> ('p pub_world, unit) prog" where
  "waitUntil fuel E request target = iterP fuel (wait_round E request target) ()"

definition refreshMasterGeneration :: "'p pub_env \<Rightarrow> ('p pub_world, unit) prog" where
  "refreshMasterGeneration E =
     bindP (observeE (env_generation E)) (\<lambda>current. guardedP E (refresh_generation current))"

definition acquireP :: "'p pub_env \<Rightarrow> publish_request \<Rightarrow> ('p pub_world, 'p \<times> nat) prog" where
  "acquireP E request =
     bindP (getP tick) (\<lambda>now. guardedP E (acquire (env_advertise E now) request))"

definition releaseP :: "'p pub_env \<Rightarrow> string \<Rightarrow> nat \<Rightarrow> bool \<Rightarrow> ('p pub_world, unit) prog" where
  "releaseP E topic position committed =
     guardedP E (\<lambda>reg. (Inr (), release topic position committed reg))"

definition subscriber_round ::
  "'p pub_env \<Rightarrow> publish_request \<Rightarrow> int \<Rightarrow> unit \<Rightarrow> ('p pub_world, (unit, unit) flow) prog" where
  "subscriber_round E request deadline = (\<lambda>_.
     bindP (observeE (env_subscribers E)) (\<lambda>n.
       if n \<noteq> 0 then returnP (Done ())
       else bindP (observeP (env_ros_ok E)) (\<lambda>ok.
         if \<not> ok then returnP (Done ())
         else bindP (observeP (env_steady_now E)) (\<lambda>now.
           if \<not> now < deadline then returnP (Done ())
           else thenP (requireDispatchAllowed E request) (returnP (Again ()))))))"

definition waitForSubscribers ::
  "nat \<Rightarrow> 'p pub_env \<Rightarrow> publish_request \<Rightarrow> ('p pub_world, unit) prog" where
  "waitForSubscribers fuel E request =
     (if wait_for_subscribers_ms request = 0 then returnP ()
      else bindP (observeP (env_steady_now E)) (\<lambda>now.
        thenP (iterP fuel
          (subscriber_round E request (now + milliseconds (wait_for_subscribers_ms request))) ())
        (thenP (requireDispatchAllowed E request)
        (bindP (observeE (env_subscribers E)) (\<lambda>n.
          if n = 0
          then liftP (transientError ''subscriber_wait_timeout''
                 (''no subscriber connected to topic '' @ [CHR 0x27] @ pub_topic request @ [CHR 0x27] @
                  '' before waitForSubscribersMs elapsed''))
          else returnP ())))))"

text \<open>
  \<^verbatim>\<open>duration_cast\<close> of \<open>1.0 / publish_rate_hz\<close> seconds to the nanoseconds of the steady
  clock: the product with \<open>1e9\<close> in double arithmetic, truncated.
\<close>

definition publish_interval :: "publish_request \<Rightarrow> int" where
  "publish_interval request =
     int (double_trunc (double_mul (double_div (double_of_nat 1) (publish_rate_hz request)) double_1e9))"

text \<open>Entering the native call is the side effect, whatever it returns or throws.\<close>

definition nativePublish :: "'p pub_env \<Rightarrow> ('p pub_world, unit) prog" where
  "nativePublish E = (\<lambda>w.
     let w' = w\<lparr>tick := Suc (tick w), dispatched := dispatched w @ [tick w]\<rparr> in
     Some (case env_native_publish E (tick w) of
         Inr _ \<Rightarrow> Inr ()
       | Inl UnknownException \<Rightarrow>
           uncertainError ''publish_dispatch_failed'' ''ROS1 topic publish may have been dispatched''
       | Inl e \<Rightarrow>
           uncertainError ''publish_dispatch_failed''
             (''ROS1 topic publish may have been dispatched: '' @ what e), w'))"

definition publish_attempt ::
  "'p pub_env \<Rightarrow> publish_request \<Rightarrow> nat \<Rightarrow> int \<Rightarrow> ('p pub_world, (nat \<times> int, nat) flow) prog" where
  "publish_attempt E request index next_publish =
     bindP (observeP (env_ros_ok E)) (\<lambda>ok.
       if \<not> ok
       then liftP (uncertainError ''ros_shutdown_after_dispatch''
              ''ROS1 shut down after one or more messages may have been published'')
       else thenP (requireContinuationAllowed E request)
         (thenP (nativePublish E)
         (thenP (requireContinuationAllowed E request)
           (returnP (Again (Suc index, next_publish))))))"

definition publish_round ::
  "nat \<Rightarrow> 'p pub_env \<Rightarrow> publish_request \<Rightarrow> nat \<times> int \<Rightarrow>
   ('p pub_world, (nat \<times> int, nat) flow) prog" where
  "publish_round fuel E request = (\<lambda>(index, next_publish).
     if index < unat (publish_count request) then
       if index > 0 then
         let next' = next_publish + publish_interval request
         in thenP (waitUntil fuel E request next') (publish_attempt E request index next')
       else publish_attempt E request index next_publish
     else returnP (Done index))"

definition publish_committed ::
  "nat \<Rightarrow> 'p pub_env \<Rightarrow> publish_request \<Rightarrow> byte list \<Rightarrow> ('p pub_world, publish_result) prog" where
  "publish_committed fuel E request serialized =
     bindP (observeP (env_steady_now E)) (\<lambda>start.
       bindP (iterP fuel (publish_round fuel E request) (0, start)) (\<lambda>count.
         bindP (observeE (env_subscribers E)) (\<lambda>n.
           returnP \<lparr>result_topic = pub_topic request, result_message_type = pub_message_type request,
             serialized_bytes = word_of_nat (length serialized), published_count = count,
             subscriber_count = n\<rparr>)))"

definition publish_leased ::
  "nat \<Rightarrow> 'p pub_env \<Rightarrow> publish_request \<Rightarrow> 'p \<Rightarrow> nat \<Rightarrow> byte list \<Rightarrow> ('p pub_world, publish_result) prog" where
  "publish_leased fuel E request publisher position serialized =
     bindP (observeP (\<lambda>t. env_publisher_valid E t publisher)) (\<lambda>valid.
       if \<not> valid
       then liftP (transientError ''publisher_unavailable''
              (''ROS1 publisher is not available for topic '' @ [CHR 0x27] @ pub_topic request @ [CHR 0x27]))
       else thenP (waitForSubscribers fuel E request)
         (bindP (observeP (env_ros_ok E)) (\<lambda>ok.
           if \<not> ok
           then liftP (transientError ''ros_shutdown''
                  ''ROS1 is shutting down before the message can be published'')
           else bindP (observeE (env_subscribers E)) (\<lambda>_.
             thenP (requireDispatchAllowed E request)
             (thenP (releaseP E (pub_topic request) position True)
             (thenP (modifyP (\<lambda>w. w\<lparr>released := True\<rparr>))
               (publish_committed fuel E request serialized)))))))"

text \<open>The three handlers around the leased part.\<close>

definition publish_failed ::
  "'p pub_env \<Rightarrow> publish_request \<Rightarrow> nat \<Rightarrow> exn \<Rightarrow> ('p pub_world, publish_result) prog" where
  "publish_failed E request position e =
     bindP (getP released) (\<lambda>was_released.
       if \<not> was_released
       then thenP (releaseP E (pub_topic request) position False) (liftP (Inl e))
       else (case e of
           Ros1ToolsError code cls message \<Rightarrow> liftP (Inl e)
         | StdException exception \<Rightarrow>
             liftP (uncertainError ''publish_completion_failed''
               (''ROS1 topic publish committed but completion failed: '' @ exception))
         | UnknownException \<Rightarrow>
             liftP (uncertainError ''publish_completion_failed''
               ''ROS1 topic publish committed but completion failed'')))"

definition publish ::
  "nat \<Rightarrow> 'p pub_env \<Rightarrow> 't babel_fish \<Rightarrow> jsoncpp \<Rightarrow> ros_time_api \<Rightarrow> codec_limits \<Rightarrow>
   publish_request \<Rightarrow> ('p pub_world, publish_result) prog" where
  "publish fuel E B J R limits request =
     thenP (requireDispatchAllowed E request)
     (thenP (refreshMasterGeneration E)
     (bindP (liftP (createMessage B (pub_message_type request))) (\<lambda>blank.
      bindP (liftP (decode J R limits (pub_message request) blank)) (\<lambda>message.
      bindP (liftP (serialize B (Some message))) (\<lambda>serialized.
        case serialized of
          None \<Rightarrow> liftP (permanentError ''message_serialization_failed''
                    ''dynamic ROS1 serializer returned no message'')
        | Some bytes \<Rightarrow>
            bindP (acquireP E request) (\<lambda>(publisher, position).
              thenP (modifyP (\<lambda>w. w\<lparr>released := False\<rparr>))
                (catchP (publish_leased fuel E request publisher position bytes)
                  (publish_failed E request position))))))))"

section \<open>Lemmas on publishing\<close>

lemma wp_observe [wp_simps]:
  "wp (observeP f) Q X = (\<lambda>w. Q (f (tick w)) (w\<lparr>tick := Suc (tick w)\<rparr>))"
  by (simp add: fun_eq_iff wp_def observeP_def)

lemma wp_observeE [wp_simps]:
  "wp (observeE f) Q X = (\<lambda>w.
     case f (tick w) of Inl e \<Rightarrow> X e (w\<lparr>tick := Suc (tick w)\<rparr>)
      | Inr x \<Rightarrow> Q x (w\<lparr>tick := Suc (tick w)\<rparr>))"
  by (simp add: fun_eq_iff wp_def observeE_def split: sum.splits)

lemma wp_guarded [wp_simps]:
  "wp (guardedP E f) Q X = (\<lambda>w.
     case f (env_interfere E (tick w) (registry w)) of
        (Inl e, reg) \<Rightarrow> X e (w\<lparr>registry := reg, tick := Suc (tick w)\<rparr>)
      | (Inr x, reg) \<Rightarrow> Q x (w\<lparr>registry := reg, tick := Suc (tick w)\<rparr>))"
  by (simp add: fun_eq_iff wp_def guardedP_def split: sum.splits prod.splits)

text \<open>Observing the surroundings changes nothing but the tick.\<close>

definition ticked :: "'p pub_world \<Rightarrow> 'p pub_world \<Rightarrow> bool" where
  "ticked w w' \<longleftrightarrow> registry w' = registry w \<and> released w' = released w \<and>
     dispatched w' = dispatched w \<and> tick w \<le> tick w'"

text \<open>The cancellation and deadline readings immediately before tick \<open>t\<close> allow dispatch.\<close>

definition dispatch_allowed :: "'p pub_env \<Rightarrow> publish_request \<Rightarrow> nat \<Rightarrow> bool" where
  "dispatch_allowed E request t \<longleftrightarrow>
     (let k = (if pub_deadline_unix_nanos request > 0 then 1 else 0) in
      (pub_deadline_unix_nanos request > 0 \<longrightarrow>
         0 < t \<and> env_system_now E (t - 1) < pub_deadline_unix_nanos request) \<and>
      (pub_has_cancellation request \<longrightarrow> k < t \<and> \<not> env_cancel E (t - 1 - k)))"

lemma continuation_vc:
  "(\<And>v'. ticked v v' \<Longrightarrow> dispatch_allowed E request (tick v') \<Longrightarrow> Q () v') \<Longrightarrow>
   (\<And>e v'. ticked v v' \<Longrightarrow> uncertain e \<Longrightarrow> X e v') \<Longrightarrow>
   wp (requireContinuationAllowed E request) Q X v"
  by (auto simp: requireContinuationAllowed_def pub_cancellationRequested_def pub_deadlineExpired_def
    wp_simps uncertainError_def uncertain_def dispatch_allowed_def ticked_def)

lemma dispatch_vc:
  "(\<And>v'. ticked v v' \<Longrightarrow> dispatch_allowed E request (tick v') \<Longrightarrow> Q () v') \<Longrightarrow>
   (\<And>e v'. ticked v v' \<Longrightarrow> X e v') \<Longrightarrow>
   wp (requireDispatchAllowed E request) Q X v"
  by (auto simp: requireDispatchAllowed_def pub_cancellationRequested_def pub_deadlineExpired_def
    wp_simps cancelledError_def deadlineError_def dispatch_allowed_def ticked_def)

lemma waitUntil_vc:
  assumes "\<And>v' t. ticked v v' \<Longrightarrow> tick v \<le> t \<Longrightarrow> t < tick v' \<Longrightarrow> target \<le> env_steady_now E t \<Longrightarrow> Q () v'"
    and "\<And>e v'. ticked v v' \<Longrightarrow> uncertain e \<Longrightarrow> X e v'"
  shows "wp (waitUntil fuel E request target) Q X v"
  unfolding waitUntil_def
proof (rule wp_iter [where I = "\<lambda>_. ticked v"])
  fix a and w :: "'a pub_world"
  assume w: "ticked v w"
  then show "wp (wait_round E request target a)
      (\<lambda>r s'. case r of Again a' \<Rightarrow> ticked v s' | Done b \<Rightarrow> Q b s') X w"
    unfolding wait_round_def using assms(1) [of "w\<lparr>tick := Suc (tick w)\<rparr>" "tick w"]
    by (auto simp: wp_simps not_less ticked_def intro!: continuation_vc assms(2))
qed (simp add: ticked_def)

lemma waitForSubscribers_vc:
  assumes "\<And>v'. ticked v v' \<Longrightarrow> Q () v'" and "\<And>e v'. ticked v v' \<Longrightarrow> X e v'"
  shows "wp (waitForSubscribers fuel E request) Q X v"
proof -
  have round: "wp (subscriber_round E request deadline a)
      (\<lambda>r s'. case r of Again a' \<Rightarrow> ticked w s' | Done b \<Rightarrow> ticked w s') (\<lambda>e. ticked w) u"
    if "ticked w u" for deadline a w u
    unfolding subscriber_round_def using that
    by (auto simp: wp_simps ticked_def intro!: dispatch_vc split: sum.splits)
  have loop: "wp (iterP fuel (subscriber_round E request deadline) ()) (\<lambda>_. ticked w) (\<lambda>e. ticked w) w"
    for deadline w
    by (rule wp_iter [where I = "\<lambda>_. ticked w", OF _ round]) (simp add: ticked_def)
  show ?thesis unfolding waitForSubscribers_def
    by (auto simp: wp_simps transientError_def ticked_def intro!: wp_mono [OF loop] dispatch_vc assms
      split: sum.splits)
qed

text \<open>
  The native calls of one publish: each is allowed by the readings right before it, and from
  the second on each comes after a reading of the steady clock at or past its slot.
\<close>

definition dispatch_trace :: "'p pub_env \<Rightarrow> publish_request \<Rightarrow> int \<Rightarrow> nat list \<Rightarrow> bool" where
  "dispatch_trace E request start ds \<longleftrightarrow>
     (\<forall>t \<in> set ds. dispatch_allowed E request t) \<and>
     (\<forall>i < length ds. 0 < i \<longrightarrow>
        (\<exists>t. ds ! (i - 1) < t \<and> t < ds ! i \<and>
           start + int i * publish_interval request \<le> env_steady_now E t))"

lemma dispatch_trace_snoc:
  assumes "dispatch_trace E request start ds" and "dispatch_allowed E request u"
    and "ds \<noteq> [] \<Longrightarrow> \<exists>t. last ds < t \<and> t < u \<and>
      start + int (length ds) * publish_interval request \<le> env_steady_now E t"
  shows "dispatch_trace E request start (ds @ [u])"
  using assms unfolding dispatch_trace_def
  by (auto simp: nth_append less_Suc_eq last_conv_nth)

definition round_inv ::
  "'p pub_env \<Rightarrow> publish_request \<Rightarrow> int \<Rightarrow> 'p pub_world \<Rightarrow> nat \<times> int \<Rightarrow> 'p pub_world \<Rightarrow> bool" where
  "round_inv E request start w0 = (\<lambda>(index, next_publish) w.
     registry w = registry w0 \<and> released w \<and>
     (\<exists>ds. dispatched w = dispatched w0 @ ds \<and> length ds = index \<and>
        index \<le> unat (publish_count request) \<and> dispatch_trace E request start ds \<and>
        (\<forall>t \<in> set ds. env_native_publish E t = Inr ()) \<and> (\<forall>t \<in> set ds. t < tick w)) \<and>
     next_publish = start + int (index - 1) * publish_interval request)"

definition round_failed ::
  "'p pub_env \<Rightarrow> publish_request \<Rightarrow> int \<Rightarrow> 'p pub_world \<Rightarrow> exn \<Rightarrow> 'p pub_world \<Rightarrow> bool" where
  "round_failed E request start w0 e w \<longleftrightarrow>
     registry w = registry w0 \<and> released w \<and> uncertain e \<and>
     (\<exists>ds. dispatched w = dispatched w0 @ ds \<and> length ds \<le> unat (publish_count request) \<and>
        dispatch_trace E request start ds)"

lemma round_inv_ticked: "round_inv E request start w0 a w \<Longrightarrow> ticked w v \<Longrightarrow> round_inv E request start w0 a v"
  by (auto simp: round_inv_def ticked_def split: prod.splits) (metis order_less_le_trans)

lemma round_inv_failed:
  "round_inv E request start w0 a w \<Longrightarrow> uncertain e \<Longrightarrow> round_failed E request start w0 e w"
  by (auto simp: round_inv_def round_failed_def split: prod.splits)

lemma native_call_vc:
  assumes "env_native_publish E (tick w) = Inr () \<Longrightarrow>
      Q () (w\<lparr>tick := Suc (tick w), dispatched := dispatched w @ [tick w]\<rparr>)"
    and "\<And>e. uncertain e \<Longrightarrow> X e (w\<lparr>tick := Suc (tick w), dispatched := dispatched w @ [tick w]\<rparr>)"
  shows "wp (nativePublish E) Q X w"
proof (cases "env_native_publish E (tick w)")
  case (Inl e)
  then show ?thesis using assms(2)
    by (cases e) (simp_all add: wp_def nativePublish_def uncertainError_def uncertain_def)
next
  case (Inr u)
  then show ?thesis using assms(1) by (simp add: wp_def nativePublish_def)
qed

text \<open>One native call and the check after it.\<close>

lemma nativePublish_vc:
  assumes inv: "round_inv E request start w0 (index, next_publish) w"
    and count: "index < unat (publish_count request)"
    and allowed: "dispatch_allowed E request (tick w)"
    and slot: "0 < index \<Longrightarrow> \<exists>t. t < tick w \<and>
      start + int index * publish_interval request \<le> env_steady_now E t \<and>
      (\<forall>ds. dispatched w = dispatched w0 @ ds \<longrightarrow> (\<forall>d \<in> set ds. d < t))"
    and next': "next' = start + int index * publish_interval request"
  shows "wp (thenP (nativePublish E)
      (thenP (requireContinuationAllowed E request) (returnP (Again (Suc index, next')))))
    (\<lambda>r v. case r of Again a \<Rightarrow> round_inv E request start w0 a v | Done b \<Rightarrow> False)
    (round_failed E request start w0) w"
proof -
  obtain ds where ds: "dispatched w = dispatched w0 @ ds" "length ds = index"
      "dispatch_trace E request start ds" "\<forall>t \<in> set ds. env_native_publish E t = Inr ()"
      "\<forall>t \<in> set ds. t < tick w" and w: "registry w = registry w0" "released w"
    using inv by (auto simp: round_inv_def)
  let ?v = "w\<lparr>tick := Suc (tick w), dispatched := dispatched w @ [tick w]\<rparr>"
  have trace: "dispatch_trace E request start (ds @ [tick w])"
  proof (rule dispatch_trace_snoc [OF ds(3) allowed])
    assume "ds \<noteq> []"
    then have "0 < index" "last ds \<in> set ds" using ds(2) by auto
    then show "\<exists>t. last ds < t \<and> t < tick w \<and>
        start + int (length ds) * publish_interval request \<le> env_steady_now E t"
      using slot ds(1,2) by blast
  qed
  have failed: "round_failed E request start w0 e ?v" if "uncertain e" for e
    unfolding round_failed_def using that trace ds count w by auto
  have inv': "round_inv E request start w0 (Suc index, next') ?v"
    if "env_native_publish E (tick w) = Inr ()"
    unfolding round_inv_def using that trace ds count w next' by auto
  have "wp (requireContinuationAllowed E request) (\<lambda>_. round_inv E request start w0 (Suc index, next'))
      (round_failed E request start w0) ?v" if "env_native_publish E (tick w) = Inr ()"
    by (rule continuation_vc)
      (use inv' [OF that] round_inv_ticked round_inv_failed in \<open>blast+\<close>)
  then show ?thesis
    unfolding wp_simps by (intro native_call_vc failed) simp_all
qed

lemma publish_attempt_vc:
  assumes inv: "round_inv E request start w0 (index, next_publish) w"
    and less: "index < unat (publish_count request)"
    and v: "ticked w v"
    and slot: "0 < index \<Longrightarrow> \<exists>t. tick w \<le> t \<and> t < tick v \<and> target \<le> env_steady_now E t"
    and target: "target = start + int index * publish_interval request"
  shows "wp (publish_attempt E request index target)
    (\<lambda>r v. case r of Again a \<Rightarrow> round_inv E request start w0 a v | Done b \<Rightarrow> False)
    (round_failed E request start w0) v"
proof -
  have inv_v: "round_inv E request start w0 (index, next_publish) u" if "ticked v u" for u
    using inv v that round_inv_ticked by blast
  have native: "wp (thenP (nativePublish E)
      (thenP (requireContinuationAllowed E request) (returnP (Again (Suc index, target) :: (nat \<times> int, nat) flow))))
      (\<lambda>r v. case r of Again a \<Rightarrow> round_inv E request start w0 a v | Done b \<Rightarrow> False)
      (round_failed E request start w0) u"
    if u: "ticked v u" "dispatch_allowed E request (tick u)" for u
  proof (rule nativePublish_vc [OF inv_v [OF u(1)] less u(2) _ target])
    assume "0 < index"
    then obtain t where "tick w \<le> t" "t < tick v" "target \<le> env_steady_now E t" using slot by blast
    moreover have "\<forall>ds. dispatched u = dispatched w0 @ ds \<longrightarrow> (\<forall>d \<in> set ds. d < tick w)"
      using inv v u(1) by (auto simp: round_inv_def ticked_def)
    ultimately show "\<exists>t<tick u. start + int index * publish_interval request \<le> env_steady_now E t \<and>
        (\<forall>ds. dispatched u = dispatched w0 @ ds \<longrightarrow> (\<forall>d\<in>set ds. d < t))"
      using u(1) by (intro exI [of _ t]) (auto simp: target ticked_def intro: order_less_le_trans)
  qed
  have failed: "round_failed E request start w0 e u" if "ticked v u" "uncertain e" for e u
    using round_inv_failed [OF inv_v [OF that(1)] that(2)] .
  have step: "ticked v u" if "ticked (v\<lparr>tick := Suc (tick v)\<rparr>) u" for u
    using that by (simp add: ticked_def)
  have check: "wp (requireContinuationAllowed E request)
      (\<lambda>_. wp (thenP (nativePublish E)
        (thenP (requireContinuationAllowed E request) (returnP (Again (Suc index, target) :: (nat \<times> int, nat) flow))))
        (\<lambda>r v. case r of Again a \<Rightarrow> round_inv E request start w0 a v | Done b \<Rightarrow> False)
        (round_failed E request start w0))
      (round_failed E request start w0) (v\<lparr>tick := Suc (tick v)\<rparr>)"
    by (rule continuation_vc) (use native failed step in blast)+
  have shutdown: "round_failed E request start w0 (Ros1ToolsError code ''uncertain'' message)
      (v\<lparr>tick := Suc (tick v)\<rparr>)" for code message
    by (rule failed) (auto simp: ticked_def uncertain_def)
  show ?thesis
    unfolding publish_attempt_def wp_bind wp_observe wp_if wp_then [of "requireContinuationAllowed E request"]
      wp_lift uncertainError_def
    using check shutdown by simp
qed

lemma publish_round_vc:
  assumes inv: "round_inv E request start w0 a w"
  shows "wp (publish_round fuel E request a)
    (\<lambda>r v. case r of Again a' \<Rightarrow> round_inv E request start w0 a' v
      | Done k \<Rightarrow> k = unat (publish_count request) \<and>
          (\<exists>next_publish. round_inv E request start w0 (k, next_publish) v))
    (round_failed E request start w0) w"
proof -
  obtain index next_publish where a: "a = (index, next_publish)" by (cases a)
  have next_publish: "next_publish = start + int (index - 1) * publish_interval request"
      and le: "index \<le> unat (publish_count request)"
    using inv by (auto simp: a round_inv_def)
  let ?Q = "\<lambda>r v. case r of Again a' \<Rightarrow> round_inv E request start w0 a' v
      | Done k \<Rightarrow> k = unat (publish_count request) \<and>
          (\<exists>next_publish. round_inv E request start w0 (k, next_publish) v)"
  show ?thesis
  proof (cases "index < unat (publish_count request)")
    case False
    then show ?thesis using inv le by (auto simp: a publish_round_def wp_simps)
  next
    case less: True
    define target where "target = start + int index * publish_interval request"
    have attempt: "wp (publish_attempt E request index target) ?Q (round_failed E request start w0) v"
      if "ticked w v" "0 < index \<Longrightarrow> \<exists>t. tick w \<le> t \<and> t < tick v \<and> target \<le> env_steady_now E t" for v
      by (rule wp_mono [OF publish_attempt_vc [OF inv [unfolded a] less that target_def]])
        (auto split: flow.splits)
    show ?thesis
    proof (cases "index = 0")
      case True
      then have "next_publish = target" using next_publish by (simp add: target_def)
      then show ?thesis using attempt [of w] less True by (simp add: a publish_round_def ticked_def)
    next
      case False
      have next': "next_publish + publish_interval request = target"
        using False next_publish by (simp add: target_def algebra_simps of_nat_diff)
      have "wp (waitUntil fuel E request target)
          (\<lambda>_. wp (publish_attempt E request index target) ?Q (round_failed E request start w0))
          (round_failed E request start w0) w"
        by (rule waitUntil_vc) (use attempt round_inv_failed round_inv_ticked inv in blast)+
      then show ?thesis using less False by (simp add: a publish_round_def wp_then Let_def next')
    qed
  qed
qed

text \<open>The native library throws exceptions of its own, never the adapter's.\<close>

definition native_errors :: "(nat \<Rightarrow> 'a result) \<Rightarrow> bool" where
  "native_errors f \<longleftrightarrow> (\<forall>t e. f t = Inl e \<longrightarrow> \<not> adapter_error e)"

text \<open>What a completed publish has done.\<close>

definition publish_completed ::
  "'p pub_env \<Rightarrow> publish_request \<Rightarrow> nat list \<Rightarrow> publish_result \<Rightarrow> 'p pub_world \<Rightarrow> bool" where
  "publish_completed E request before r w \<longleftrightarrow>
     result_topic r = pub_topic request \<and> result_message_type r = pub_message_type request \<and>
     published_count r = unat (publish_count request) \<and>
     (\<exists>start ds. dispatched w = before @ ds \<and> length ds = unat (publish_count request) \<and>
        dispatch_trace E request (env_steady_now E start) ds \<and>
        (\<forall>t \<in> set ds. env_native_publish E t = Inr ()))"

text \<open>What an interrupted publish may have done once its lease was released for dispatch.\<close>

definition publish_interrupted :: "'p pub_env \<Rightarrow> publish_request \<Rightarrow> nat list \<Rightarrow> 'p pub_world \<Rightarrow> bool" where
  "publish_interrupted E request before w \<longleftrightarrow>
     (\<exists>start ds. dispatched w = before @ ds \<and> length ds \<le> unat (publish_count request) \<and>
        dispatch_trace E request (env_steady_now E start) ds)"

lemma publish_committed_vc:
  assumes "released w" and native: "native_errors (env_subscribers E)"
  shows "wp (publish_committed fuel E request bytes)
    (\<lambda>r v. registry v = registry w \<and> publish_completed E request (dispatched w) r v)
    (\<lambda>e v. registry v = registry w \<and> released v \<and> (uncertain e \<or> \<not> adapter_error e) \<and>
       publish_interrupted E request (dispatched w) v) w"
proof -
  define w1 where "w1 = w\<lparr>tick := Suc (tick w)\<rparr>"
  define start where "start = env_steady_now E (tick w)"
  have init: "round_inv E request start w1 (0, start) w1"
    using assms(1) by (simp add: round_inv_def dispatch_trace_def w1_def)
  have loop: "wp (iterP fuel (publish_round fuel E request) (0, start))
      (\<lambda>k v. k = unat (publish_count request) \<and> (\<exists>next_publish. round_inv E request start w1 (k, next_publish) v))
      (round_failed E request start w1) w1"
    by (rule wp_iter [OF init publish_round_vc])
  have interrupted: "registry v = registry w \<and> released v \<and> (uncertain e \<or> \<not> adapter_error e) \<and>
      publish_interrupted E request (dispatched w) v"
    if "round_failed E request start w1 e v" for e v
    using that unfolding round_failed_def publish_interrupted_def start_def w1_def by auto
  have finished: "case env_subscribers E (tick v) of
      Inl e \<Rightarrow> registry v = registry w \<and> released v \<and> (uncertain e \<or> \<not> adapter_error e) \<and>
        publish_interrupted E request (dispatched w) (v\<lparr>tick := Suc (tick v)\<rparr>)
    | Inr n \<Rightarrow> registry v = registry w \<and> publish_completed E request (dispatched w)
        \<lparr>result_topic = pub_topic request, result_message_type = pub_message_type request,
          serialized_bytes = word_of_nat (length bytes), published_count = k, subscriber_count = n\<rparr>
        (v\<lparr>tick := Suc (tick v)\<rparr>)"
    if "k = unat (publish_count request)" "round_inv E request start w1 (k, next_publish) v" for k next_publish v
    using that native
    unfolding round_inv_def publish_interrupted_def publish_completed_def start_def w1_def native_errors_def
    by (fastforce split: sum.splits)
  show ?thesis
    unfolding publish_committed_def wp_bind wp_observe wp_observeE wp_return
      start_def [symmetric] w1_def [symmetric]
    by (rule wp_mono [OF loop])
      (use interrupted finished in \<open>fastforce split: sum.splits\<close>)+
qed

text \<open>
  The registry's side of a publish: \<open>G\<close> holds of the registry while the call has no lease,
  \<open>H position\<close> while it leases an entry; both survive what other threads do.
\<close>

locale lease_discipline =
  fixes E :: "'p pub_env" and request :: publish_request
    and G :: "'p registry \<Rightarrow> bool" and H :: "nat \<Rightarrow> 'p registry \<Rightarrow> bool"
  assumes G_stable: "G reg \<Longrightarrow> G (env_interfere E t reg)"
    and H_stable: "H position reg \<Longrightarrow> H position (env_interfere E t reg)"
    and G_refresh: "G reg \<Longrightarrow> G (snd (refresh_generation current reg))"
    and G_acquire: "G reg \<Longrightarrow> acquire advertised request reg = (Inr (publisher, position), reg') \<Longrightarrow>
      H position reg'"
    and G_refused: "G reg \<Longrightarrow> acquire advertised request reg = (Inl e, reg') \<Longrightarrow> G reg'"
    and H_release: "H position reg \<Longrightarrow> G (release (pub_topic request) position committed reg)"
begin

lemma publish_leased_vc:
  assumes native: "native_errors (env_subscribers E)"
    and "dispatched w = D" and "\<not> released w" and "H position (registry w)"
  shows "wp (publish_leased fuel E request publisher position bytes)
    (\<lambda>r v. G (registry v) \<and> publish_completed E request D r v)
    (\<lambda>e v. if released v
       then G (registry v) \<and> (uncertain e \<or> \<not> adapter_error e) \<and> publish_interrupted E request D v
       else H position (registry v) \<and> dispatched v = D) w"
proof -
  define Q where "Q r v \<longleftrightarrow> G (registry v) \<and> publish_completed E request D r v"
    for r and v :: "'p pub_world"
  define X where "X e v \<longleftrightarrow> (if released v
      then G (registry v) \<and> (uncertain e \<or> \<not> adapter_error e) \<and> publish_interrupted E request D v
      else H position (registry v) \<and> dispatched v = D)"
    for e and v :: "'p pub_world"
  have same: "X e v" if "ticked w v" for e v
    using that assms by (simp add: X_def ticked_def)
  have committed: "wp (publish_committed fuel E request bytes) Q X v"
    if "released v" "G (registry v)" "dispatched v = D" for v
    by (rule wp_mono [OF publish_committed_vc [OF that(1) native]]) (use that in \<open>auto simp: Q_def X_def\<close>)
  have pre: "wp (requireDispatchAllowed E request)
      (\<lambda>_ v. wp (publish_committed fuel E request bytes) Q X
        (v\<lparr>registry := release (pub_topic request) position True (env_interfere E (tick v) (registry v)),
            tick := Suc (tick v), released := True\<rparr>)) X v"
    if "ticked w v" for v
  proof (rule dispatch_vc)
    fix v' assume "ticked v v'"
    then have "H position (registry v')" "dispatched v' = D"
      using that assms by (auto simp: ticked_def)
    then show "wp (publish_committed fuel E request bytes) Q X
        (v'\<lparr>registry := release (pub_topic request) position True (env_interfere E (tick v') (registry v')),
            tick := Suc (tick v'), released := True\<rparr>)"
      by (intro committed) (auto intro: H_release H_stable)
  next
    fix e v' assume "ticked v v'"
    then show "X e v'" using that by (intro same) (auto simp: ticked_def)
  qed
  have "wp (publish_leased fuel E request publisher position bytes) Q X w"
    by (auto simp: publish_leased_def releaseP_def wp_simps transientError_def ticked_def
      intro!: waitForSubscribers_vc same pre split: sum.splits)
  then show ?thesis by (simp add: Q_def [abs_def] X_def [abs_def])
qed

lemma publish_failed_vc:
  assumes "if released v
      then G (registry v) \<and> (uncertain e \<or> \<not> adapter_error e) \<and> publish_interrupted E request D v
      else H position (registry v) \<and> dispatched v = D"
  shows "wp (publish_failed E request position e) Q
    (\<lambda>e v. G (registry v) \<and> (dispatched v = D \<or> uncertain e \<and> publish_interrupted E request D v)) v"
proof (cases "released v")
  case True
  then show ?thesis using assms
    by (cases e) (auto simp: publish_failed_def wp_simps uncertainError_def uncertain_def adapter_error_def)
next
  case False
  then show ?thesis using assms
    by (auto simp: publish_failed_def releaseP_def wp_simps intro!: H_release H_stable)
qed

lemma publish_vc:
  assumes native: "native_errors (env_subscribers E)" and G: "G (registry w)"
  shows "wp (publish fuel E B J R limits request)
    (\<lambda>r v. G (registry v) \<and> publish_completed E request (dispatched w) r v)
    (\<lambda>e v. G (registry v) \<and>
       (dispatched v = dispatched w \<or> uncertain e \<and> publish_interrupted E request (dispatched w) v)) w"
proof -
  define D where "D = dispatched w"
  define Q where "Q r v \<longleftrightarrow> G (registry v) \<and> publish_completed E request D r v"
    for r and v :: "'p pub_world"
  define X where "X e v \<longleftrightarrow> G (registry v) \<and>
      (dispatched v = D \<or> uncertain e \<and> publish_interrupted E request D v)"
    for e and v :: "'p pub_world"
  have leased: "wp (publish_leased fuel E request publisher position bytes) Q
      (\<lambda>e. wp (publish_failed E request position e) Q X) v"
    if "dispatched v = D" "\<not> released v" "H position (registry v)" for publisher position bytes v
    by (rule wp_mono [OF publish_leased_vc [OF native that]])
      (use publish_failed_vc [of _ _ D position Q] in \<open>auto simp: Q_def X_def [abs_def]\<close>)
  have refused: "X e v" if "G (registry v)" "dispatched v = D" for e v
    using that by (simp add: X_def)
  have acq: "wp (acquireP E request) (\<lambda>x u. case x of (publisher, position) \<Rightarrow>
        wp (publish_leased fuel E request publisher position bytes) Q
          (\<lambda>e. wp (publish_failed E request position e) Q X) (u\<lparr>released := False\<rparr>)) X v"
    if "G (registry v)" "dispatched v = D" for bytes v
    using that G_acquire [OF G_stable] G_refused [OF G_stable]
    by (auto simp: acquireP_def wp_simps intro!: leased refused split: sum.splits prod.splits)
  have pure: "wp (bindP (liftP (createMessage B (pub_message_type request))) (\<lambda>blank.
      bindP (liftP (decode J R limits (pub_message request) blank)) (\<lambda>message.
      bindP (liftP (serialize B (Some message))) (\<lambda>serialized.
        case serialized of
          None \<Rightarrow> liftP (permanentError ''message_serialization_failed''
                    ''dynamic ROS1 serializer returned no message'')
        | Some bytes \<Rightarrow>
            bindP (acquireP E request) (\<lambda>(publisher, position).
              thenP (modifyP (\<lambda>w. w\<lparr>released := False\<rparr>))
                (catchP (publish_leased fuel E request publisher position bytes)
                  (publish_failed E request position))))))) Q X v"
    if "G (registry v)" "dispatched v = D" for v
    using that acq [OF that]
    by (auto simp: wp_simps permanentError_def intro!: refused split: sum.splits option.splits)
  have refresh: "wp (refreshMasterGeneration E) (\<lambda>_ v. G (registry v) \<and> dispatched v = D) X v"
    if "G (registry v)" "dispatched v = D" for v
    using that G_refresh [OF G_stable]
    by (auto simp: refreshMasterGeneration_def wp_simps intro!: refused split: sum.splits prod.splits)
      (metis snd_conv)+
  have "wp (publish fuel E B J R limits request) Q X w"
    unfolding publish_def wp_then
    by (rule dispatch_vc)
      (use G in \<open>auto simp: ticked_def D_def [symmetric] intro!: refused wp_mono [OF refresh] pure\<close>)
  then show ?thesis by (simp add: Q_def [abs_def] X_def [abs_def] D_def)
qed

end

section \<open>The registry under concurrent calls\<close>

text \<open>
  The guarded blocks of all threads, interleaved. Next to the registry the relation keeps the
  leases that calls hold: the topic and the entry, once for each call between its acquiring
  and its releasing block.
\<close>

type_synonym leases = "(string \<times> nat) multiset"

inductive registry_step :: "'p registry \<times> leases \<Rightarrow> 'p registry \<times> leases \<Rightarrow> bool" where
  refresh: "registry_step (reg, L) (snd (refresh_generation current reg), L)"
| probe: "registry_step (reg, L) (snd (probeMasterBinding provided reg), L)"
| clear: "registry_step (reg, L) (clear reg, L)"
| acquire: "acquire advertised request reg = (Inr (publisher, position), reg') \<Longrightarrow>
    registry_step (reg, L) (reg', add_mset (pub_topic request, position) L)"
| refuse: "acquire advertised request reg = (Inl e, reg') \<Longrightarrow> registry_step (reg, L) (reg', L)"
| release: "(topic, position) \<in># L \<Longrightarrow>
    registry_step (reg, L) (release topic position committed reg, L - {#(topic, position)#})"

definition leases_of :: "nat \<Rightarrow> leases \<Rightarrow> nat" where
  "leases_of i L = size (filter_mset (\<lambda>(t, j). j = i) L)"

definition cache_ok :: "'p registry \<Rightarrow> bool" where
  "cache_ok reg \<longleftrightarrow>
     distinct (map fst (entries reg)) \<and> distinct (map snd (entries reg)) \<and>
     length (entries reg) \<le> maximum_publishers reg \<and>
     (\<forall>(t, i) \<in> set (entries reg). i < length (store reg) \<and>
        (active_calls (store reg ! i) = 0 \<longrightarrow> native_dispatch_committed (store reg ! i)))"

definition leases_ok :: "'p registry \<Rightarrow> leases \<Rightarrow> bool" where
  "leases_ok reg L \<longleftrightarrow>
     (\<forall>(t, i) \<in># L. i < length (store reg)) \<and>
     (\<forall>i < length (store reg). active_calls (store reg ! i) = leases_of i L) \<and>
     (\<forall>(t, i) \<in># L. \<forall>t'. (t', i) \<in> set (entries reg) \<longrightarrow> t' = t)"

definition registry_inv :: "'p registry \<times> leases \<Rightarrow> bool" where
  "registry_inv = (\<lambda>(reg, L). cache_ok reg \<and> leases_ok reg L)"

lemmas registry_inv_defs = registry_inv_def cache_ok_def leases_ok_def

lemma leases_of_simps [simp]:
  "leases_of i {#} = 0" "leases_of i (add_mset (t, j) L) = (if j = i then Suc (leases_of i L) else leases_of i L)"
  by (auto simp: leases_of_def)

lemma leases_of_remove:
  "(t, j) \<in># L \<Longrightarrow> leases_of i (L - {#(t, j)#}) = (if j = i then leases_of i L - 1 else leases_of i L)"
  by (auto simp: leases_of_def filter_mset_eq_conv size_Diff_singleton)

lemma leases_of_none: "(\<And>t. (t, i) \<notin># L) \<Longrightarrow> leases_of i L = 0"
  by (auto simp: leases_of_def)

lemma entries_cleared: "registry_inv (reg, L) \<Longrightarrow> registry_inv (reg\<lparr>entries := []\<rparr>, L)"
  by (auto simp: registry_inv_defs)

lemma generation_inv: "registry_inv (reg, L) \<Longrightarrow> registry_inv (reg\<lparr>master_generation := g\<rparr>, L)"
  by (auto simp: registry_inv_defs)

lemma refresh_inv: "registry_inv (reg, L) \<Longrightarrow> registry_inv (snd (refresh_generation current reg), L)"
  by (auto simp: refresh_generation_def intro: entries_cleared generation_inv)

lemma probe_inv: "registry_inv (reg, L) \<Longrightarrow> registry_inv (snd (probeMasterBinding provided reg), L)"
  by (auto simp: probeMasterBinding_def intro: generation_inv split: sum.splits)

lemma refuse_same: "acquire advertised request reg = (Inl e, reg') \<Longrightarrow> reg' = reg"
  by (auto simp: acquire_def Let_def split: option.splits if_splits sum.splits)

lemma acquire_cases:
  assumes "acquire advertised request reg = (Inr (publisher, position), reg')"
  obtains (create) "map_of (entries reg) (pub_topic request) = None"
      "length (entries reg) < maximum_publishers reg" "position = length (store reg)"
      "reg' = reg\<lparr>store := store reg @ [new_entry request publisher],
         entries := entries reg @ [(pub_topic request, length (store reg))]\<rparr>"
    | (share) "map_of (entries reg) (pub_topic request) = Some position"
      "reg' = reg\<lparr>store := (store reg)[position := (store reg ! position)
         \<lparr>active_calls := active_calls (store reg ! position) + 1\<rparr>]\<rparr>"
  using assms
  by (auto simp: acquire_def Let_def resourceExhaustedError_def permanentError_def
    split: option.splits if_splits sum.splits)

lemma map_of_entry: "map_of (entries reg) topic = Some i \<Longrightarrow> (topic, i) \<in> set (entries reg)"
  by (rule map_of_SomeD)

lemma entry_topic_unique:
  assumes "cache_ok reg" and "(t, i) \<in> set (entries reg)" and "(t', i) \<in> set (entries reg)"
  shows "t' = t"
proof -
  have "inj_on snd (set (entries reg))" using assms(1) by (simp add: cache_ok_def distinct_map)
  from inj_onD [OF this _ assms(3,2)] show ?thesis by simp
qed

lemma acquire_inv:
  assumes inv: "registry_inv (reg, L)"
    and acq: "acquire advertised request reg = (Inr (publisher, position), reg')"
  shows "registry_inv (reg', add_mset (pub_topic request, position) L)"
  using acq
proof (cases rule: acquire_cases)
  case create
  have new: "pub_topic request \<notin> fst ` set (entries reg)" using create(1) by (simp add: map_of_eq_None_iff)
  have fresh: "\<And>t. (t, length (store reg)) \<notin># L" "length (store reg) \<notin> snd ` set (entries reg)"
    using inv by (auto simp: registry_inv_defs)
  then show ?thesis using inv create new leases_of_none [OF fresh(1)]
    by (fastforce simp: registry_inv_defs nth_append less_Suc_eq new_entry_def)
next
  case share
  have mem: "(pub_topic request, position) \<in> set (entries reg)" using share(1) by (rule map_of_entry)
  then have pos: "position < length (store reg)" using inv by (auto simp: registry_inv_defs)
  have uniq: "t' = pub_topic request" if "(t', position) \<in> set (entries reg)" for t'
    using inv entry_topic_unique [OF _ mem that] by (simp add: registry_inv_def)
  have "cache_ok reg'" using inv share pos
    by (auto simp: registry_inv_def cache_ok_def nth_list_update split: prod.splits)
  moreover have "leases_ok reg' (add_mset (pub_topic request, position) L)" using inv share pos uniq
    by (auto simp: registry_inv_def leases_ok_def nth_list_update split: prod.splits)
  ultimately show ?thesis by (simp add: registry_inv_def)
qed

lemma release_inv:
  assumes inv: "registry_inv (reg, L)" and lease: "(topic, position) \<in># L"
  shows "registry_inv (release topic position committed reg, L - {#(topic, position)#})"
proof -
  have pos: "position < length (store reg)"
      and topic: "\<And>t'. (t', position) \<in> set (entries reg) \<Longrightarrow> t' = topic"
      and active: "\<And>i. i < length (store reg) \<Longrightarrow> active_calls (store reg ! i) = leases_of i L"
    using inv lease by (auto simp: registry_inv_defs)
  have leases: "leases_ok (reg\<lparr>store := (store reg)[position := release_entry committed (store reg ! position)],
      entries := es\<rparr>) (L - {#(topic, position)#})" if "set es \<subseteq> set (entries reg)" for es
    using inv pos that
    by (auto simp: registry_inv_def leases_ok_def nth_list_update release_entry_def
      leases_of_remove [OF lease] dest!: in_diffD split: prod.splits)
  let ?e = "release_entry committed (store reg ! position)"
  let ?drop = "map_of (entries reg) topic = Some position \<and> active_calls ?e = 0 \<and> \<not> native_dispatch_committed ?e"
  show ?thesis
  proof (cases ?drop)
    case True
    let ?es = "filter (\<lambda>(t, _). t \<noteq> topic) (entries reg)"
    have "i \<noteq> position" if "(t, i) \<in> set ?es" for t i using topic that by auto
    then have "\<forall>(t, i) \<in> set ?es. i < length (store reg) \<and> i \<noteq> position \<and>
        (active_calls (store reg ! i) = 0 \<longrightarrow> native_dispatch_committed (store reg ! i))"
      using inv by (auto simp: registry_inv_def cache_ok_def)
    moreover have "distinct (map fst ?es)" "distinct (map snd ?es)" "length ?es \<le> maximum_publishers reg"
      using inv
      by (auto simp: registry_inv_def cache_ok_def distinct_map_filter
        intro: le_trans [OF length_filter_le])
    ultimately have "cache_ok (reg\<lparr>store := (store reg)[position := ?e], entries := ?es\<rparr>)"
      by (auto simp: cache_ok_def) (metis nth_list_update_neq)
    then show ?thesis using True leases [of ?es] by (simp add: registry_inv_def release_def Let_def)
  next
    case False
    have "i < length (store reg) \<and> (active_calls ((store reg)[position := ?e] ! i) = 0 \<longrightarrow>
        native_dispatch_committed ((store reg)[position := ?e] ! i))"
      if "(t, i) \<in> set (entries reg)" for t i
    proof (cases "i = position")
      case True
      then have "map_of (entries reg) topic = Some position"
        using inv topic that by (auto simp: registry_inv_def cache_ok_def map_of_eq_Some_iff)
      then show ?thesis using False True pos by auto
    next
      case False
      then show ?thesis using inv that by (auto simp: registry_inv_def cache_ok_def)
    qed
    then have "cache_ok (reg\<lparr>store := (store reg)[position := ?e]\<rparr>)"
      using inv by (auto simp: registry_inv_def cache_ok_def)
    then show ?thesis using False leases [of "entries reg"]
      by (auto simp: registry_inv_def release_def Let_def)
  qed
qed

lemma step_inv: "registry_step s s' \<Longrightarrow> registry_inv s \<Longrightarrow> registry_inv s'"
proof (induction rule: registry_step.induct)
  case (clear reg L)
  then show ?case unfolding Publisher_Registry.clear_def by (rule entries_cleared)
qed (auto intro: refresh_inv probe_inv acquire_inv release_inv dest: refuse_same)

lemma steps_inv: "registry_step\<^sup>*\<^sup>* s s' \<Longrightarrow> registry_inv s \<Longrightarrow> registry_inv s'"
  by (induction rule: rtranclp_induct) (auto intro: step_inv)

lemma step_maximum: "registry_step s s' \<Longrightarrow> maximum_publishers (fst s') = maximum_publishers (fst s)"
  by (induction rule: registry_step.induct)
    (auto simp: refresh_generation_def probeMasterBinding_def clear_def release_def Let_def
      dest: refuse_same elim!: acquire_cases split: sum.splits)

lemma steps_maximum: "registry_step\<^sup>*\<^sup>* s s' \<Longrightarrow> maximum_publishers (fst s') = maximum_publishers (fst s)"
  by (induction rule: rtranclp_induct) (auto dest: step_maximum)

lemma step_generation:
  "registry_step s s' \<Longrightarrow> master_generation (fst s) \<noteq> 0 \<Longrightarrow>
   master_generation (fst s') = master_generation (fst s)"
  by (induction rule: registry_step.induct)
    (auto simp: refresh_generation_def probeMasterBinding_def clear_def release_def Let_def
      dest: refuse_same elim!: acquire_cases split: sum.splits)

lemma steps_generation:
  "registry_step\<^sup>*\<^sup>* s s' \<Longrightarrow> master_generation (fst s) \<noteq> 0 \<Longrightarrow>
   master_generation (fst s') = master_generation (fst s)"
  by (induction rule: rtranclp_induct) (auto dest: step_generation)

section \<open>Publishing returns\<close>

lemma dispatch_returns: "\<exists>r w'. requireDispatchAllowed E request w = Some (r, w') \<and> tick w \<le> tick w'"
  by (auto simp: requireDispatchAllowed_def pub_cancellationRequested_def pub_deadlineExpired_def
    prog_defs observeP_def)

lemma continuation_returns:
  "\<exists>r w'. requireContinuationAllowed E request w = Some (r, w') \<and> tick w \<le> tick w'"
  by (auto simp: requireContinuationAllowed_def pub_cancellationRequested_def pub_deadlineExpired_def
    prog_defs observeP_def)

lemma wait_round_returns:
  "\<exists>r w'. wait_round E request target a w = Some (r, w') \<and>
     (\<forall>a'. r = Inr (Again a') \<longrightarrow> env_steady_now E (tick w) < target \<and> tick w < tick w')"
  using continuation_returns [of E request "w\<lparr>tick := Suc (tick w)\<rparr>"]
  by (auto simp: wait_round_def prog_defs observeP_def split: sum.splits)

lemma subscriber_round_returns:
  "\<exists>r w'. subscriber_round E request deadline a w = Some (r, w') \<and>
     (\<forall>a'. r = Inr (Again a') \<longrightarrow> env_steady_now E (tick w + 2) < deadline \<and> tick w < tick w')"
  using dispatch_returns [of E request "w\<lparr>tick := Suc (Suc (Suc (tick w)))\<rparr>"]
  by (auto simp: subscriber_round_def prog_defs observeP_def observeE_def split: sum.splits)

lemma waitUntil_returns:
  assumes "clock_advances (env_steady_now E)"
  shows "returns (\<lambda>n. waitUntil n E request target) w"
proof -
  obtain T where T: "\<And>t. T \<le> t \<Longrightarrow> target \<le> env_steady_now E t"
    using assms unfolding clock_advances_def by blast
  have "\<exists>r w'. wait_round E request target a v = Some (r, w') \<and>
      (\<forall>a'. r = Inr (Again a') \<longrightarrow> True \<and> T - tick w' < T - tick v)" for a v
    using wait_round_returns [of E request target a v] T [of "tick v"] by fastforce
  then show ?thesis unfolding waitUntil_def
    by (intro returns_iter [where I = "\<lambda>_ _. True" and measure_of = "\<lambda>_ v. T - tick v"]) auto
qed

lemma subscriber_loop_returns:
  assumes "clock_advances (env_steady_now E)"
  shows "returns (\<lambda>n. iterP n (subscriber_round E request deadline) ()) w"
proof -
  obtain T where T: "\<And>t. T \<le> t \<Longrightarrow> deadline \<le> env_steady_now E t"
    using assms unfolding clock_advances_def by blast
  have "\<exists>r w'. subscriber_round E request deadline a v = Some (r, w') \<and>
      (\<forall>a'. r = Inr (Again a') \<longrightarrow> True \<and> T - tick w' < T - tick v)" for a v
    using subscriber_round_returns [of E request deadline a v] T [of "tick v + 2"] by fastforce
  then show ?thesis
    by (intro returns_iter [where I = "\<lambda>_ _. True" and measure_of = "\<lambda>_ v. T - tick v"]) auto
qed

lemma total_returns:
  "returns (\<lambda>n. requireDispatchAllowed E request) w"
  "returns (\<lambda>n. requireContinuationAllowed E request) w"
  "returns (\<lambda>n. nativePublish E) w" "returns (\<lambda>n. guardedP E f) w"
  "returns (\<lambda>n. observeP g) w" "returns (\<lambda>n. observeE h) w"
  using dispatch_returns [of E request w] continuation_returns [of E request w]
  by (auto simp: returns_def nativePublish_def guardedP_def observeP_def observeE_def Let_def split: prod.splits)

lemma mono_publish [fuel_intros]:
  "mono_fuel (\<lambda>n. waitUntil n E request target)"
  "mono_fuel (\<lambda>n. waitForSubscribers n E request)"
  "mono_fuel (\<lambda>n. publish_round n E request a)"
  "mono_fuel (\<lambda>n. publish_committed n E request bytes)"
  "mono_fuel (\<lambda>n. publish_leased n E request publisher position bytes)"
proof -
  show wait: "mono_fuel (\<lambda>n. waitUntil n E request target)" for target
    unfolding waitUntil_def by (rule fuel_intros)
  show subs: "mono_fuel (\<lambda>n. waitForSubscribers n E request)"
    unfolding waitForSubscribers_def by (intro fuel_intros)
  show round: "mono_fuel (\<lambda>n. publish_round n E request a)" for a
    unfolding publish_round_def Let_def by (intro fuel_intros wait)
  show committed: "mono_fuel (\<lambda>n. publish_committed n E request bytes)"
    unfolding publish_committed_def by (intro fuel_intros mono_iter round)
  show "mono_fuel (\<lambda>n. publish_leased n E request publisher position bytes)"
    unfolding publish_leased_def by (intro fuel_intros subs committed)
qed

lemma publish_attempt_returns: "returns (\<lambda>n. publish_attempt E request index next_publish) w"
  unfolding publish_attempt_def by (intro returns_intros fuel_intros total_returns)

lemma publish_attempt_again:
  "wp (publish_attempt E request index next_publish)
     (\<lambda>r v. case r of Again a \<Rightarrow> fst a = Suc index | Done b \<Rightarrow> True) (\<lambda>_ _. True) w"
  unfolding publish_attempt_def by (auto simp: wp_simps uncertainError_def wp_def split: option.splits sum.splits)

lemma publish_round_again:
  assumes "publish_round n E request a w = Some (Inr (Again a'), w')"
  shows "fst a < unat (publish_count request)" "fst a' = Suc (fst a)"
proof -
  obtain index next_publish where a: "a = (index, next_publish)" by (cases a)
  have "wp (publish_round n E request a)
      (\<lambda>r v. case r of Again b \<Rightarrow> index < unat (publish_count request) \<and> fst b = Suc index | Done b \<Rightarrow> True)
      (\<lambda>_ _. True) w"
  proof (cases "index < unat (publish_count request)")
    case True
    then have "wp (publish_attempt E request index t)
        (\<lambda>r v. case r of Again b \<Rightarrow> index < unat (publish_count request) \<and> fst b = Suc index | Done b \<Rightarrow> True)
        (\<lambda>_ _. True) v" for t v
      by (intro wp_mono [OF publish_attempt_again]) (auto split: flow.splits)
    then show ?thesis using True
      by (auto simp: a publish_round_def wp_then Let_def intro!: waitUntil_vc)
  qed (simp add: a publish_round_def wp_return)
  from wp_Inr [OF this assms]
  show "fst a < unat (publish_count request)" "fst a' = Suc (fst a)" by (simp_all add: a)
qed

lemma publish_returns:
  assumes clock: "clock_advances (env_steady_now E)"
  shows "returns (\<lambda>n. publish n E B J R limits request) w"
proof -
  have round: "returns (\<lambda>n. publish_round n E request a) w" for a w
    unfolding publish_round_def Let_def
    by (intro returns_intros fuel_intros waitUntil_returns [OF clock] publish_attempt_returns)
  have loop: "returns (\<lambda>n. iterP n (publish_round n E request) a) w" for a w
    by (rule returns_iter_nested [where I = "\<lambda>_ _. True" and
      measure_of = "\<lambda>a _. unat (publish_count request) - fst a"])
      (use round fuel_intros publish_round_again in \<open>fastforce+\<close>)
  have committed: "returns (\<lambda>n. publish_committed n E request bytes) w" for bytes w
    unfolding publish_committed_def
    by (intro returns_intros fuel_intros mono_iter total_returns loop)
  have subscribers: "returns (\<lambda>n. waitForSubscribers n E request) w" for w
    unfolding waitForSubscribers_def
    by (intro returns_intros fuel_intros total_returns subscriber_loop_returns [OF clock])
  have leased: "returns (\<lambda>n. publish_leased n E request publisher position bytes) w"
    for publisher position bytes w
    unfolding publish_leased_def releaseP_def
    by (intro returns_intros fuel_intros total_returns subscribers committed)
  have failed: "returns (\<lambda>n. publish_failed E request position e) w" for position e w
    unfolding publish_failed_def releaseP_def
    by (cases e) (auto intro!: returns_intros fuel_intros total_returns)
  show ?thesis
    unfolding publish_def refreshMasterGeneration_def acquireP_def
    by (intro returns_intros fuel_intros total_returns leased failed)
qed

section \<open>Properties\<close>

text \<open>
  Two instances of the lease discipline: for the effects of a publish nothing is asked of the
  registry, whatever other threads do to it; for a call that runs alone the registry moves by
  the steps of the concurrent system and the call's own lease comes and goes.
\<close>

interpretation effects: lease_discipline E request "\<lambda>_. True" "\<lambda>_ _. True" for E request
  by unfold_locales simp_all

definition sequential :: "'p pub_env \<Rightarrow> 'p pub_env" where
  "sequential E = E\<lparr>env_interfere := \<lambda>_ reg. reg\<rparr>"

interpretation alone: lease_discipline "sequential E" request
    "\<lambda>reg. registry_step\<^sup>*\<^sup>* (reg0, L) (reg, L)"
    "\<lambda>position reg. registry_step\<^sup>*\<^sup>* (reg0, L) (reg, add_mset (pub_topic request, position) L)"
  for E request reg0 L
proof
  fix position committed and reg :: "'a registry"
  assume "registry_step\<^sup>*\<^sup>* (reg0, L) (reg, add_mset (pub_topic request, position) L)"
  moreover have "registry_step (reg, add_mset (pub_topic request, position) L)
      (release (pub_topic request) position committed reg, L)"
    using registry_step.release [of "pub_topic request" position "add_mset (pub_topic request, position) L"]
    by simp
  ultimately show "registry_step\<^sup>*\<^sup>* (reg0, L) (release (pub_topic request) position committed reg, L)"
    by (rule rtranclp.rtrancl_into_rtrancl)
qed (auto simp: sequential_def intro: rtranclp.rtrancl_into_rtrancl registry_step.intros)

text \<open>
  C5. The outcome of a publish tells what may have happened on the ROS side. If it succeeds,
  the native publisher was called exactly \<open>publish_count\<close> times and every call returned; each
  call came directly after readings that the request was not cancelled and not past its
  deadline, and from the second on after the steady clock had reached its slot. If it fails,
  either the native publisher was never called, or the error is of class uncertain and at
  most \<open>publish_count\<close> calls were made, under the same checks. This holds for every
  behaviour of other threads on the registry.
\<close>

theorem publish_outcome:
  assumes "native_errors (env_subscribers E)"
    and "publish fuel E B J R limits request w = Some (r, w')"
  shows "case r of
      Inr result \<Rightarrow> publish_completed E request (dispatched w) result w'
    | Inl e \<Rightarrow> dispatched w' = dispatched w \<or>
        uncertain e \<and> publish_interrupted E request (dispatched w) w'"
  using effects.publish_vc [OF assms(1), where w = w and fuel = fuel and B = B and J = J and R = R
      and limits = limits and request = request] assms(2)
  by (auto simp: wp_def split: sum.splits)

definition example_env :: "unit pub_env" where
  "example_env = \<lparr>env_cancel = \<lambda>_. False, env_system_now = \<lambda>_. 5, env_steady_now = \<lambda>t. int t,
     env_ros_ok = \<lambda>_. True, env_subscribers = \<lambda>_. Inr 1, env_native_publish = \<lambda>_. Inr (),
     env_generation = \<lambda>_. Inr 42, env_advertise = \<lambda>_. Inr (), env_publisher_valid = \<lambda>_ _. True,
     env_interfere = \<lambda>_ reg. reg\<rparr>"

definition example_library :: "unit babel_fish" where
  "example_library = \<lparr>bf_createMessage = \<lambda>_. Inr (MString []),
     bf_getServiceDescription = \<lambda>_. Inr None, bf_createEmptyMessageFromTemplate = \<lambda>_. MString [],
     bf_translateMessage = \<lambda>_. Inr (Some [1, 2]),
     bf_createMessageFromTemplate = \<lambda>_ _. Inr (None, 0), bf_sizeInBytes = \<lambda>_. 0,
     bf_writeToStream = \<lambda>_. []\<rparr>"

definition example_request :: publish_request where
  "example_request = \<lparr>pub_topic = ''/chatter'', pub_message_type = ''std_msgs/String'',
     pub_message = JString ''hello'', publish_count = 1, publish_rate_hz = double_240, pub_latch = False,
     pub_queue_size = 10, wait_for_subscribers_ms = 0, pub_deadline_unix_nanos = 9,
     pub_has_cancellation = True\<rparr>"

definition example_registry :: "unit registry" where
  "example_registry = \<lparr>maximum_publishers = 128, master_generation = 0, entries = [], store = []\<rparr>"

definition example_world :: "unit pub_world" where
  "example_world = \<lparr>tick = 0, registry = example_registry, released = False, dispatched = []\<rparr>"

lemmas publish_run_simps =
  publish_def requireDispatchAllowed_def requireContinuationAllowed_def pub_cancellationRequested_def
  pub_deadlineExpired_def refreshMasterGeneration_def refresh_generation_def acquireP_def acquire_def
  publish_leased_def publish_committed_def publish_round_def publish_attempt_def waitForSubscribers_def
  nativePublish_def releaseP_def release_def release_entry_def new_entry_def guardedP_def observeP_def
  observeE_def prog_defs createMessage_def serialize_def advertise_def Let_def

lemma example_publish:
  "publish 2 example_env example_library jsoncpp_reference ros_time_reference default_codec_limits
     example_request example_world =
   Some (Inr \<lparr>result_topic = ''/chatter'', result_message_type = ''std_msgs/String'',
       serialized_bytes = 2, published_count = 1, subscriber_count = 1\<rparr>,
     \<lparr>tick = 19, registry = \<lparr>maximum_publishers = 128, master_generation = 42,
        entries = [(''/chatter'', 0)],
        store = [\<lparr>entry_message_type = ''std_msgs/String'', entry_latch = False, entry_queue_size = 10,
          entry_publisher = (), active_calls = 0, native_dispatch_committed = True\<rparr>]\<rparr>,
      released = True, dispatched = [15]\<rparr>)"
  by (simp add: publish_run_simps numeral_2_eq_2 example_env_def example_library_def example_request_def
    example_world_def example_registry_def decode_def decodeValue_scalar scalar_type_def
    decodeScalar_def stringValue_def default_codec_limits_def mapE_def)

theorem publish_outcome_witness:
  "\<exists>result w'. publish 2 example_env example_library jsoncpp_reference ros_time_reference
     default_codec_limits example_request example_world = Some (Inr result, w') \<and>
   publish_completed example_env example_request [] result w'"
proof -
  have "native_errors (env_subscribers example_env)" by (simp add: native_errors_def example_env_def)
  from publish_outcome [OF this example_publish] show ?thesis
    unfolding example_publish by (simp add: example_world_def)
qed

text \<open>
  C16. A publish gives back what it takes: on every path, success or failure, the lease a
  call acquires is released. A call that runs alone leads, through the registry's own steps,
  from a registry with leases \<open>L\<close> to a registry with the same leases \<open>L\<close>.
\<close>

theorem publish_returns_lease:
  assumes "native_errors (env_subscribers E)"
    and "publish fuel (sequential E) B J R limits request w = Some (r, w')"
  shows "registry_step\<^sup>*\<^sup>* (registry w, L) (registry w', L)"
proof -
  have "native_errors (env_subscribers (sequential E))" using assms(1) by (simp add: sequential_def)
  from alone.publish_vc [OF this rtranclp.rtrancl_refl, where w = w and fuel = fuel and B = B and J = J
      and R = R and limits = limits and request = request and L = L] assms(2)
  show ?thesis by (auto simp: wp_def split: sum.splits)
qed

theorem publish_returns_lease_witness:
  "registry_step\<^sup>*\<^sup>* (example_registry, {#})
     (\<lparr>maximum_publishers = 128, master_generation = 42, entries = [(''/chatter'', 0)],
        store = [\<lparr>entry_message_type = ''std_msgs/String'', entry_latch = False, entry_queue_size = 10,
          entry_publisher = (), active_calls = 0, native_dispatch_committed = True\<rparr>]\<rparr>, {#})"
proof -
  have "native_errors (env_subscribers example_env)" by (simp add: native_errors_def example_env_def)
  moreover have "sequential example_env = example_env" by (simp add: sequential_def example_env_def)
  ultimately show ?thesis
    using publish_returns_lease [of example_env 2 example_library jsoncpp_reference ros_time_reference
      default_codec_limits example_request example_world _ _ "{#}"] example_publish
    by (simp add: example_world_def)
qed

text \<open>
  C9. The registry is consistent under every interleaving of concurrent calls. From a newly
  constructed registry, whatever publishes, probes, refreshes and clears do: the cache never
  holds more than its maximum of publishers, no topic twice; the counter of every entry is the
  number of calls that lease it; and a cached entry that no call leases has been committed to
  native dispatch, so failed calls leave no publisher behind.
\<close>

theorem registry_invariant:
  assumes "PublisherRegistry n = Inr reg0"
    and "registry_step\<^sup>*\<^sup>* (reg0, {#}) (reg, L)"
  shows "registry_size reg \<le> n \<and> distinct (map fst (entries reg)) \<and>
    (\<forall>i < length (store reg). active_calls (store reg ! i) = leases_of i L) \<and>
    (\<forall>(topic, i) \<in> set (entries reg). i < length (store reg) \<and>
       (leases_of i L = 0 \<longrightarrow> native_dispatch_committed (store reg ! i)))"
proof -
  have reg0: "reg0 = \<lparr>maximum_publishers = n, master_generation = 0, entries = [], store = []\<rparr>"
    using assms(1) by (auto simp: PublisherRegistry_def permanentError_def split: if_splits)
  then have "registry_inv (reg0, {#})" by (simp add: registry_inv_defs)
  then have "registry_inv (reg, L)" by (rule steps_inv [OF assms(2)])
  moreover have "maximum_publishers reg = n" using steps_maximum [OF assms(2)] reg0 by simp
  ultimately show ?thesis by (auto simp: registry_inv_defs registry_size_def)
qed

theorem registry_invariant_witness:
  "\<exists>reg L. registry_step\<^sup>*\<^sup>* (example_registry, {#}) (reg, L) \<and> registry_size reg = 1 \<and>
     registry_size reg \<le> 128 \<and> active_calls (store reg ! 0) = leases_of 0 L"
proof -
  let ?reg = "snd (acquire (Inr ()) example_request example_registry)"
  let ?L = "{#(''/chatter'', 0)#} :: leases"
  have acq: "acquire (Inr ()) example_request example_registry = (Inr ((), 0), ?reg)"
    by (simp add: acquire_def example_registry_def example_request_def advertise_def)
  have reach: "registry_step\<^sup>*\<^sup>* (example_registry, {#}) (?reg, ?L)"
    using registry_step.acquire [OF acq, of "{#}"] by (simp add: example_request_def r_into_rtranclp)
  have new: "PublisherRegistry 128 = Inr example_registry"
    by (simp add: PublisherRegistry_def example_registry_def)
  have "registry_size ?reg = 1" "length (store ?reg) = 1"
    by (simp_all add: registry_size_def acquire_def example_registry_def example_request_def advertise_def)
  with registry_invariant [OF new reach] reach show ?thesis
    by (intro exI [of _ ?reg] exI [of _ ?L]) auto
qed

text \<open>
  C15. The adapter is bound to one master process for life. Once a publish has passed the
  generation check with generation \<open>g\<close>, then after any steps of any threads another publish
  passes it only with the same generation; with any other answer of the master it is refused
  with a transient error and the stale publishers are dropped.
\<close>

theorem master_generation_fixed:
  assumes "refresh_generation g reg = (Inr (), reg1)"
    and "registry_step\<^sup>*\<^sup>* (reg1, L) (reg2, L')"
  shows "refresh_generation h reg2 =
    (if h = g then (Inr (), reg2)
     else if h \<le> 0 then (transientError ''ros_master_generation_unavailable''
        ''ROS1 master process generation is invalid'', reg2)
     else (transientError ''ros_master_generation_changed''
        ''ROS1 master process generation changed; this Adapter process is bound to the previous master and must be recycled'',
      clear reg2))"
proof -
  have "0 < g" "master_generation reg1 = g"
    using assms(1) by (auto simp: refresh_generation_def transientError_def split: if_splits)
  then have "master_generation reg2 = g" using steps_generation [OF assms(2)] by simp
  then show ?thesis using \<open>0 < g\<close> by (simp add: refresh_generation_def clear_def)
qed

theorem master_generation_fixed_witness:
  "fst (refresh_generation 43 (clear (example_registry\<lparr>master_generation := 42\<rparr>))) \<noteq> Inr ()"
proof -
  have "refresh_generation 42 example_registry = (Inr (), example_registry\<lparr>master_generation := 42\<rparr>)"
    by (simp add: refresh_generation_def example_registry_def)
  moreover have "registry_step\<^sup>*\<^sup>* (example_registry\<lparr>master_generation := 42\<rparr>, {#})
      (clear (example_registry\<lparr>master_generation := 42\<rparr>), {#})"
    by (rule r_into_rtranclp) (rule registry_step.clear)
  ultimately show ?thesis
    using master_generation_fixed [of 42 example_registry "example_registry\<lparr>master_generation := 42\<rparr>"
      "{#}" "clear (example_registry\<lparr>master_generation := 42\<rparr>)" "{#}" 43]
    by (simp add: transientError_def)
qed

text \<open>
  C29. A publish always returns: if the steady clock passes every instant, then for every
  request and every behaviour of ROS, the master and other threads, some number of loop rounds
  is enough for the call to return a result or an error.
\<close>

theorem publish_terminates:
  assumes "clock_advances (env_steady_now E)"
  shows "\<exists>fuel r w'. publish fuel E B J R limits request w = Some (r, w')"
  using publish_returns [OF assms] unfolding returns_def by fast

theorem publish_terminates_witness:
  "\<exists>fuel r w'. publish fuel example_env example_library jsoncpp_reference ros_time_reference
     default_codec_limits (example_request\<lparr>publish_count := 3, wait_for_subscribers_ms := 100\<rparr>)
     example_world = Some (r, w')"
proof -
  have "clock_advances (env_steady_now example_env)"
    unfolding clock_advances_def
  proof
    fix x :: int
    have "\<forall>t \<ge> nat x. x \<le> env_steady_now example_env t" by (auto simp: example_env_def)
    then show "\<exists>T. \<forall>t \<ge> T. x \<le> env_steady_now example_env t" by blast
  qed
  then show ?thesis by (rule publish_terminates)
qed

end
