(* ===== verification/Socket_Io.thy ===== *)
theory Socket_Io
  imports Program_Monad Helper_Protocol
begin

text \<open>
  The stream socket between the adapter and its service helper, as the calls
  \<^verbatim>\<open>recv\<close>, \<^verbatim>\<open>send\<close> and \<^verbatim>\<open>poll\<close> show it to one side. The world keeps the bytes that
  are still to be received from the peer, the bytes the socket has accepted for the peer, and
  a tick that counts the observations; a record of the environment says for every tick how
  the kernel answers. How many bytes a call moves is up to the kernel, between one and what is
  asked for and available. Records of the two processes extend both records.
\<close>

section \<open>World and environment\<close>

record sock_world =
  stick :: nat
  sinput :: "byte list"
  ssent :: "byte list"

datatype recv_answer = RecvBytes nat | RecvClosed | RecvInterrupted | RecvWouldBlock | RecvError string

datatype send_answer = SendBytes nat | SendNothing | SendInterrupted | SendWouldBlock | SendError string

datatype poll_answer = PollInterrupted | PollError string | PollTimeout | PollEvents bool bool

record sock_env =
  se_recv :: "nat \<Rightarrow> recv_answer"
  se_send :: "nat \<Rightarrow> send_answer"
  se_poll :: "nat \<Rightarrow> poll_answer"
  se_steady_now :: "nat \<Rightarrow> int"
  se_ros_ok :: "nat \<Rightarrow> bool"

definition lookP :: "(nat \<Rightarrow> 'a) \<Rightarrow> ('z sock_world_scheme, 'a) prog" where
  "lookP f = (\<lambda>w. Some (Inr (f (stick w)), w\<lparr>stick := Suc (stick w)\<rparr>))"

definition lookE :: "(nat \<Rightarrow> 'a result) \<Rightarrow> ('z sock_world_scheme, 'a) prog" where
  "lookE f = (\<lambda>w. Some (f (stick w), w\<lparr>stick := Suc (stick w)\<rparr>))"

section \<open>The calls\<close>

datatype recv_result = Received "byte list" | RecvEof | RecvEintr | RecvEagain | RecvFailed string

definition recvP :: "'e sock_env_scheme \<Rightarrow> nat \<Rightarrow> ('z sock_world_scheme, recv_result) prog" where
  "recvP E len = (\<lambda>w.
     let w' = w\<lparr>stick := Suc (stick w)\<rparr> in
     case se_recv E (stick w) of
       RecvBytes n \<Rightarrow>
         (let k = min (max 1 n) (min len (length (sinput w)))
          in if k = 0 then Some (Inr RecvEof, w')
             else Some (Inr (Received (take k (sinput w))), w'\<lparr>sinput := drop k (sinput w)\<rparr>))
     | RecvClosed \<Rightarrow> Some (Inr RecvEof, w')
     | RecvInterrupted \<Rightarrow> Some (Inr RecvEintr, w')
     | RecvWouldBlock \<Rightarrow> Some (Inr RecvEagain, w')
     | RecvError message \<Rightarrow> Some (Inr (RecvFailed message), w'))"

datatype send_result = Sent nat | SentNothing | SendEintr | SendEagain | SendFailed string

definition sendP :: "'e sock_env_scheme \<Rightarrow> byte list \<Rightarrow> ('z sock_world_scheme, send_result) prog" where
  "sendP E data = (\<lambda>w.
     let w' = w\<lparr>stick := Suc (stick w)\<rparr> in
     case se_send E (stick w) of
       SendBytes n \<Rightarrow>
         (let k = min (max 1 n) (length data)
          in Some (Inr (Sent k), w'\<lparr>ssent := ssent w @ take k data\<rparr>))
     | SendNothing \<Rightarrow> Some (Inr SentNothing, w')
     | SendInterrupted \<Rightarrow> Some (Inr SendEintr, w')
     | SendWouldBlock \<Rightarrow> Some (Inr SendEagain, w')
     | SendError message \<Rightarrow> Some (Inr (SendFailed message), w'))"

definition pollP :: "'e sock_env_scheme \<Rightarrow> ('z sock_world_scheme, poll_answer) prog" where
  "pollP E = lookP (se_poll E)"

section \<open>Lemmas\<close>

text \<open>Updates of the world in the order of its fields.\<close>

lemma sock_updates [simp]:
  "w\<lparr>sinput := input, stick := k\<rparr> = w\<lparr>stick := k, sinput := input\<rparr>"
  "w\<lparr>ssent := sent, stick := k\<rparr> = w\<lparr>stick := k, ssent := sent\<rparr>"
  "w\<lparr>ssent := sent, sinput := input\<rparr> = w\<lparr>sinput := input, ssent := sent\<rparr>"
  by simp_all

lemma wp_look [wp_simps]: "wp (lookP f) Q X = (\<lambda>w. Q (f (stick w)) (w\<lparr>stick := Suc (stick w)\<rparr>))"
  by (simp add: fun_eq_iff wp_def lookP_def)

lemma wp_lookE [wp_simps]:
  "wp (lookE f) Q X = (\<lambda>w.
     case f (stick w) of Inl e \<Rightarrow> X e (w\<lparr>stick := Suc (stick w)\<rparr>)
      | Inr x \<Rightarrow> Q x (w\<lparr>stick := Suc (stick w)\<rparr>))"
  by (simp add: fun_eq_iff wp_def lookE_def split: sum.splits)

lemma wp_poll [wp_simps]: "wp (pollP E) Q X = (\<lambda>w. Q (se_poll E (stick w)) (w\<lparr>stick := Suc (stick w)\<rparr>))"
  by (simp add: pollP_def wp_look)

text \<open>What a call may have done: bytes move from the input to the result, or are sent.\<close>

lemma recv_vc:
  assumes "\<And>data rest. data \<noteq> [] \<Longrightarrow> length data \<le> len \<Longrightarrow> sinput w = data @ rest \<Longrightarrow>
      Q (Received data) (w\<lparr>stick := Suc (stick w), sinput := rest\<rparr>)"
    and "\<And>r. r \<notin> range Received \<Longrightarrow> Q r (w\<lparr>stick := Suc (stick w)\<rparr>)"
  shows "wp (recvP E len) Q X w"
proof (cases "se_recv E (stick w)")
  case (RecvBytes n)
  define k where "k = min (max 1 n) (min len (length (sinput w)))"
  have eq: "recvP E len w =
      (if k = 0 then Some (Inr RecvEof, w\<lparr>stick := Suc (stick w)\<rparr>)
       else Some (Inr (Received (take k (sinput w))), w\<lparr>stick := Suc (stick w), sinput := drop k (sinput w)\<rparr>))"
    by (simp only: recvP_def Let_def k_def RecvBytes recv_answer.case)
  show ?thesis
  proof (cases "k = 0")
    case True
    then show ?thesis using eq assms(2) [of RecvEof] by (simp add: wp_def image_iff)
  next
    case False
    have "take k (sinput w) \<noteq> []" using False by (auto simp: k_def)
    moreover have "length (take k (sinput w)) \<le> len" by (simp add: k_def)
    moreover have "sinput w = take k (sinput w) @ drop k (sinput w)" by simp
    ultimately show ?thesis using eq False assms(1) by (simp add: wp_def)
  qed
qed (use assms(2) in \<open>simp_all add: wp_def recvP_def Let_def image_iff\<close>)

lemma send_vc:
  assumes "\<And>k. k \<le> length data \<Longrightarrow> (data \<noteq> [] \<Longrightarrow> 0 < k) \<Longrightarrow>
      Q (Sent k) (w\<lparr>stick := Suc (stick w), ssent := ssent w @ take k data\<rparr>)"
    and "\<And>r. r \<notin> range Sent \<Longrightarrow> Q r (w\<lparr>stick := Suc (stick w)\<rparr>)"
  shows "wp (sendP E data) Q X w"
proof (cases "se_send E (stick w)")
  case (SendBytes n)
  then show ?thesis
    using assms(1) [of "min (max 1 n) (length data)"]
    by (cases data) (simp_all add: wp_def sendP_def Let_def)
qed (use assms(2) in \<open>simp_all add: wp_def sendP_def Let_def image_iff\<close>)

text \<open>A socket that moves bytes whenever it is asked, in portions of any size.\<close>

definition eager :: "'e sock_env_scheme \<Rightarrow> bool" where
  "eager E \<longleftrightarrow> (\<forall>t. (\<exists>n. se_recv E t = RecvBytes n) \<and> (\<exists>n. se_send E t = SendBytes n))"

lemma recv_eager:
  assumes "eager E" and "0 < len" and "sinput w \<noteq> []"
    and "\<And>data rest. data \<noteq> [] \<Longrightarrow> length data \<le> len \<Longrightarrow> sinput w = data @ rest \<Longrightarrow>
      Q (Received data) (w\<lparr>stick := Suc (stick w), sinput := rest\<rparr>)"
  shows "twp (recvP E len) Q w"
proof -
  obtain n where n: "se_recv E (stick w) = RecvBytes n" using assms(1) by (auto simp: eager_def)
  define k where "k = min (max 1 n) (min len (length (sinput w)))"
  have k: "0 < k" "k \<le> len" using assms(2,3) by (auto simp: k_def)
  have eq: "recvP E len w =
      Some (Inr (Received (take k (sinput w))), w\<lparr>stick := Suc (stick w), sinput := drop k (sinput w)\<rparr>)"
    using k(1) by (simp only: recvP_def Let_def n recv_answer.case k_def [symmetric]) simp
  have "Q (Received (take k (sinput w))) (w\<lparr>stick := Suc (stick w), sinput := drop k (sinput w)\<rparr>)"
    using assms(3) k by (intro assms(4)) auto
  then show ?thesis by (simp add: twp_def eq)
qed

lemma send_eager:
  assumes "eager E" and "data \<noteq> []"
    and "\<And>k. 0 < k \<Longrightarrow> k \<le> length data \<Longrightarrow> Q (Sent k) (w\<lparr>stick := Suc (stick w), ssent := ssent w @ take k data\<rparr>)"
  shows "twp (sendP E data) Q w"
proof -
  obtain n where n: "se_send E (stick w) = SendBytes n" using assms(1) by (auto simp: eager_def)
  define k where "k = min (max 1 n) (length data)"
  have k: "0 < k" "k \<le> length data" using assms(2) by (auto simp: k_def)
  have eq: "sendP E data w = Some (Inr (Sent k), w\<lparr>stick := Suc (stick w), ssent := ssent w @ take k data\<rparr>)"
    by (simp only: sendP_def Let_def n send_answer.case k_def [symmetric])
  then show ?thesis using assms(3) [OF k] by (simp add: twp_def)
qed

lemma twp_look [twp_simps]: "twp (lookP f) Q = (\<lambda>w. Q (f (stick w)) (w\<lparr>stick := Suc (stick w)\<rparr>))"
  by (simp add: fun_eq_iff twp_def lookP_def)

end
