(* ===== verification/Service_Helper.thy ===== *)
theory Service_Helper
  imports Socket_Io
begin

text \<open>
  The one-shot service helper (\<^verbatim>\<open>service_helper_main.cpp\<close>): a process of its own that
  reads one request from its parent, reports that it is ready, waits for the commit frame and
  only then enters roscpp's \<^verbatim>\<open>call\<close>. Its socket is the one of Socket_Io; the
  world also logs the native calls. What roscpp and the kernel answer is in the records
  \<open>helper_env\<close> and \<open>helper_os\<close>.
\<close>

section \<open>Start of the process\<close>



text \<open>
  \<^verbatim>\<open>strtol\<close> with the checks of its caller: the whole text is one number in the range of
  \<^verbatim>\<open>long\<close>, not negative and within \<^verbatim>\<open>INT_MAX\<close>.
\<close>

definition parse_descriptor :: "string \<Rightarrow> int option" where
  "parse_descriptor val =
     (case stoll val of
        Inl _ \<Rightarrow> None
      | Inr (parsed, consumed) \<Rightarrow>
          if consumed \<noteq> length val \<or> parsed < 0 \<or> parsed > 2147483647 then None
          else Some parsed)"







section \<open>Exact reads and writes\<close>

definition waitForSocket :: "nat \<Rightarrow> 'e sock_env_scheme \<Rightarrow> ('z sock_world_scheme, bool) prog" where
  "waitForSocket fuel E =
     iterP fuel (\<lambda>_. bindP (pollP E) (\<lambda>result.
       returnP (case result of
          PollInterrupted \<Rightarrow> Again ()
        | PollError _ \<Rightarrow> Done False
        | PollTimeout \<Rightarrow> Done False
        | PollEvents ready bad \<Rightarrow> Done (\<not> bad \<and> ready)))) ()"

definition readExact_round ::
  "nat \<Rightarrow> 'e sock_env_scheme \<Rightarrow> nat \<Rightarrow> byte list \<Rightarrow>
   ('z sock_world_scheme, (byte list, byte list option) flow) prog" where
  "readExact_round fuel E len got =
     (if \<not> len - length got > 0 then returnP (Done (Some got))
      else bindP (recvP E (len - length got)) (\<lambda>received.
        case received of
          Received data \<Rightarrow> returnP (Again (got @ data))
        | RecvEof \<Rightarrow> returnP (Done None)
        | RecvEintr \<Rightarrow> returnP (Again got)
        | RecvFailed _ \<Rightarrow> returnP (Done None)
        | RecvEagain \<Rightarrow> bindP (waitForSocket fuel E) (\<lambda>ready.
            returnP (if \<not> ready then Done None else Again got))))"

definition readExact ::
  "nat \<Rightarrow> 'e sock_env_scheme \<Rightarrow> nat \<Rightarrow> ('z sock_world_scheme, byte list option) prog" where
  "readExact fuel E len = iterP fuel (readExact_round fuel E len) []"

definition writeExact_round ::
  "nat \<Rightarrow> 'e sock_env_scheme \<Rightarrow> byte list \<Rightarrow>
   ('z sock_world_scheme, (byte list, bool) flow) prog" where
  "writeExact_round fuel E data =
     (if \<not> length data > 0 then returnP (Done True)
      else bindP (sendP E data) (\<lambda>sent.
        case sent of
          Sent k \<Rightarrow> returnP (Again (drop k data))
        | SendEintr \<Rightarrow> returnP (Again data)
        | SentNothing \<Rightarrow> returnP (Done False)
        | SendFailed _ \<Rightarrow> returnP (Done False)
        | SendEagain \<Rightarrow> bindP (waitForSocket fuel E) (\<lambda>ready.
            returnP (if \<not> ready then Done False else Again data))))"

definition writeExact ::
  "nat \<Rightarrow> 'e sock_env_scheme \<Rightarrow> byte list \<Rightarrow> ('z sock_world_scheme, bool) prog" where
  "writeExact fuel E data = iterP fuel (writeExact_round fuel E) data"

section \<open>Serialized messages\<close>

text \<open>
  \<^verbatim>\<open>ros::SerializedMessage\<close>: a buffer and a pointer into it, kept as its distance from the
  start of the buffer.
\<close>

record serialized_message =
  num_bytes :: nat
  buf :: "byte list option"
  message_start :: "int option"

definition serviceRequest :: "byte list \<Rightarrow> serialized_message" where
  "serviceRequest payload =
     \<lparr>num_bytes = length payload + 4, buf = Some (le_bytes 4 (length payload) @ payload),
      message_start = Some 4\<rparr>"

definition responsePayload :: "serialized_message \<Rightarrow> byte list option" where
  "responsePayload response =
     (if num_bytes response = 0 then Some []
      else case (buf response, message_start response) of
        (Some bytes, Some start) \<Rightarrow>
          if start < 0 then None
          else let offset = nat start
               in if offset > num_bytes response then None
                  else Some (take (num_bytes response - offset) (drop offset bytes))
      | _ \<Rightarrow> None)"

section \<open>The exchange\<close>

record helper_world = sock_world +
  hcalls :: "(string \<times> string \<times> serialized_message) list"

record helper_env = sock_env +
  he_validate :: "string \<Rightarrow> bool"
  he_node_handle :: "nat \<Rightarrow> unit result"
  he_exists :: "nat \<Rightarrow> bool result"
  he_prepare :: "nat \<Rightarrow> unit result"
  he_call :: "nat \<Rightarrow> serialized_message option result"

definition bytes_string :: "byte list \<Rightarrow> string" where
  "bytes_string bs = map (\<lambda>b. char_of (unat b)) bs"

definition validAbsoluteServiceName :: "'e helper_env_scheme \<Rightarrow> string \<Rightarrow> bool" where
  "validAbsoluteServiceName E service \<longleftrightarrow>
     service \<noteq> [] \<and> hd service = CHR ''/'' \<and> service \<noteq> ''/'' \<and> he_validate E service"

definition serviceAvailable ::
  "nat \<Rightarrow> 'e helper_env_scheme \<Rightarrow> 32 word \<Rightarrow> ('z sock_world_scheme, bool) prog" where
  "serviceAvailable fuel E wait_ms =
     bindP (lookP (se_steady_now E)) (\<lambda>start.
       let deadline = start + int (unat wait_ms) * 1000000 in
       iterP fuel (\<lambda>_.
         bindP (lookE (he_exists E)) (\<lambda>exists.
         if exists then returnP (Done True)
         else bindP (lookP (se_ros_ok E)) (\<lambda>ok.
           if \<not> ok \<or> wait_ms = 0 then returnP (Done False)
           else bindP (lookP (se_steady_now E)) (\<lambda>now.
             returnP (if now \<ge> deadline then Done False else Again ()))))) ())"

definition respond :: "nat \<Rightarrow> 'e sock_env_scheme \<Rightarrow> frame \<Rightarrow> ('z sock_world_scheme, int) prog" where
  "respond fuel E f = thenP (writeExact fuel E (frame_bytes f)) (returnP 0)"

text \<open>\<^verbatim>\<open>client.call\<close> is logged when it is entered; a failed or throwing call gives nothing.\<close>

definition native_call ::
  "'e helper_env_scheme \<Rightarrow> string \<Rightarrow> string \<Rightarrow> serialized_message \<Rightarrow>
   (helper_world, serialized_message option) prog" where
  "native_call E service md5 request =
     thenP (modifyP (\<lambda>w. w\<lparr>hcalls := hcalls w @ [(service, md5, request)]\<rparr>))
       (catchP (lookE (he_call E)) (\<lambda>_. returnP None))"

definition dispatchHelper ::
  "nat \<Rightarrow> 'e helper_env_scheme \<Rightarrow> frame \<Rightarrow> string \<Rightarrow> string \<Rightarrow> serialized_message \<Rightarrow> (helper_world, int) prog"
  where
  "dispatchHelper fuel E request_frame service md5 serialized_request =
     (let rid = request_id request_frame in
      bindP (native_call E service md5 serialized_request) (\<lambda>called.
      case called of
        None \<Rightarrow> respond fuel E (makeServiceHelperResponse rid RespCallFailed 0)
      | Some serialized_response \<Rightarrow>
          (case responsePayload serialized_response of
             None \<Rightarrow> respond fuel E (makeServiceHelperResponse rid RespProtocolError 0)
           | Some response_data \<Rightarrow>
               if length response_data > kMaximumServicePayloadBytes
               then respond fuel E (makeServiceHelperResponse rid RespResponseTooLarge 0)
               else bindP (writeExact fuel E (frame_bytes
                     (makeServiceHelperResponse rid RespCompleted (of_nat (length response_data)))))
                 (\<lambda>written.
                   if \<not> written then returnP 0
                   else if length response_data > 0
                   then thenP (writeExact fuel E response_data) (returnP 0)
                   else returnP 0))))"

definition commitHelper ::
  "nat \<Rightarrow> 'e helper_env_scheme \<Rightarrow> frame \<Rightarrow> string \<Rightarrow> string \<Rightarrow> serialized_message \<Rightarrow> (helper_world, int) prog"
  where
  "commitHelper fuel E request_frame service md5 serialized_request =
     bindP (writeExact fuel E (frame_bytes (makeServiceHelperReady (request_id request_frame) ReadyReady)))
       (\<lambda>written.
     if \<not> written then returnP 0
     else bindP (readExact fuel E frame_size) (\<lambda>image.
     case image of
       None \<Rightarrow> returnP 0
     | Some bytes \<Rightarrow>
         if \<not> validateServiceHelperCommit (frame_of_bytes bytes) (request_id request_frame)
         then returnP 0
         else dispatchHelper fuel E request_frame service md5 serialized_request))"

text \<open>
  The steps up to the ready frame. \<^verbatim>\<open>he_prepare\<close> is the \<^verbatim>\<open>try\<close> block that builds
  the request and the client.
\<close>

definition prepareHelper ::
  "nat \<Rightarrow> 'e helper_env_scheme \<Rightarrow> frame \<Rightarrow> string \<Rightarrow> string \<Rightarrow> byte list \<Rightarrow> (helper_world, int) prog"
  where
  "prepareHelper fuel E request_frame service md5 request_payload =
     (let rid = request_id request_frame in
      if \<not> validAbsoluteServiceName E service \<or> \<not> validServiceMd5 md5
      then respond fuel E (makeServiceHelperReady rid ReadyProtocolError)
      else thenP (lookE (he_node_handle E))
        (bindP (serviceAvailable fuel E (wait_for_service_ms request_frame)) (\<lambda>available.
         if \<not> available then respond fuel E (makeServiceHelperReady rid ReadyServiceUnavailable)
         else bindP (catchP (thenP (lookE (he_prepare E)) (returnP (Some (serviceRequest request_payload))))
                (\<lambda>_. returnP None)) (\<lambda>prepared.
           case prepared of
             None \<Rightarrow> respond fuel E (makeServiceHelperReady rid ReadyProtocolError)
           | Some serialized_request \<Rightarrow>
               commitHelper fuel E request_frame service md5 serialized_request))))"

definition runHelper :: "nat \<Rightarrow> 'e helper_env_scheme \<Rightarrow> (helper_world, int) prog" where
  "runHelper fuel E =
     bindP (readExact fuel E frame_size) (\<lambda>image.
     case image of None \<Rightarrow> returnP 0 | Some bytes \<Rightarrow>
     let request_frame = frame_of_bytes bytes in
     if \<not> validateServiceHelperRequest request_frame then returnP 0
     else bindP (readExact fuel E (unat (service_name_bytes request_frame))) (\<lambda>service.
     case service of None \<Rightarrow> returnP 0 | Some service \<Rightarrow>
     bindP (readExact fuel E (unat (service_md5_bytes request_frame))) (\<lambda>md5.
     case md5 of None \<Rightarrow> returnP 0 | Some md5 \<Rightarrow>
     bindP (if payload_bytes request_frame = 0 then returnP (Some [])
            else readExact fuel E (unat (payload_bytes request_frame))) (\<lambda>payload.
     case payload of None \<Rightarrow> returnP 0 | Some request_payload \<Rightarrow>
     prepareHelper fuel E request_frame (bytes_string service) (bytes_string md5) request_payload))))"


section \<open>Lemmas on the loops\<close>

lemma helper_updates [simp]:
  fixes w :: "'z helper_world_scheme"
  shows "w\<lparr>hcalls := calls, stick := k\<rparr> = w\<lparr>stick := k, hcalls := calls\<rparr>"
    "w\<lparr>hcalls := calls, sinput := input\<rparr> = w\<lparr>sinput := input, hcalls := calls\<rparr>"
    "w\<lparr>hcalls := calls, ssent := sent\<rparr> = w\<lparr>ssent := sent, hcalls := calls\<rparr>"
  by simp_all

lemma waitForSocket_vc:
  assumes "\<And>b k. Q b (w\<lparr>stick := k\<rparr>)"
  shows "wp (waitForSocket fuel E) Q X w"
  unfolding waitForSocket_def
proof (rule wp_iter [where I = "\<lambda>_ v. \<exists>k. v = w\<lparr>stick := k\<rparr>"])
  show "\<exists>k. w = w\<lparr>stick := k\<rparr>" by (rule exI [of _ "stick w"]) simp
qed (use assms in \<open>auto simp: wp_simps split: poll_answer.splits\<close>)

lemma readExact_vc:
  assumes some: "\<And>data k rest. length data = len \<Longrightarrow> sinput w = data @ rest \<Longrightarrow>
      Q (Some data) (w\<lparr>stick := k, sinput := rest\<rparr>)"
    and none: "\<And>data k rest. length data < len \<Longrightarrow> sinput w = data @ rest \<Longrightarrow>
      Q None (w\<lparr>stick := k, sinput := rest\<rparr>)"
  shows "wp (readExact fuel E len) Q X w"
  unfolding readExact_def
proof (rule wp_iter [where I = "\<lambda>got v. \<exists>k rest. length got \<le> len \<and> sinput w = got @ rest \<and>
    v = w\<lparr>stick := k, sinput := rest\<rparr>"])
  show "\<exists>k rest. length [] \<le> len \<and> sinput w = [] @ rest \<and> w = w\<lparr>stick := k, sinput := rest\<rparr>"
    by (rule exI [of _ "stick w"], rule exI [of _ "sinput w"]) simp
next
  fix got v
  assume "\<exists>k rest. length got \<le> len \<and> sinput w = got @ rest \<and> v = w\<lparr>stick := k, sinput := rest\<rparr>"
  then obtain k rest where inv: "length got \<le> len" "sinput w = got @ rest"
      "v = w\<lparr>stick := k, sinput := rest\<rparr>" by blast
  show "wp (readExact_round fuel E len got)
     (\<lambda>r s'. case r of Again got' \<Rightarrow> \<exists>k rest. length got' \<le> len \<and> sinput w = got' @ rest \<and>
         s' = w\<lparr>stick := k, sinput := rest\<rparr> | Done b \<Rightarrow> Q b s') X v"
  proof (cases "length got = len")
    case True
    then show ?thesis using some [OF True inv(2)] inv(3) by (simp add: readExact_round_def wp_simps)
  next
    case False
    then have less: "length got < len" using inv(1) by simp
    show ?thesis
      unfolding readExact_round_def using less
      apply (simp add: wp_simps)
      apply (rule recv_vc)
      subgoal using less by (auto simp: wp_simps inv)
      subgoal for r
        using none [OF less inv(2)] inv
        by (cases r) (auto simp: wp_simps intro!: waitForSocket_vc)
      done
  qed
qed

lemma writeExact_vc:
  assumes yes: "\<And>k. Q True (w\<lparr>stick := k, ssent := ssent w @ data\<rparr>)"
    and no: "\<And>k j. j < length data \<Longrightarrow> Q False (w\<lparr>stick := k, ssent := ssent w @ take j data\<rparr>)"
  shows "wp (writeExact fuel E data) Q X w"
  unfolding writeExact_def
proof (rule wp_iter [where I = "\<lambda>rest v. \<exists>k j. j \<le> length data \<and> rest = drop j data \<and>
    v = w\<lparr>stick := k, ssent := ssent w @ take j data\<rparr>"])
  show "\<exists>k j. j \<le> length data \<and> data = drop j data \<and> w = w\<lparr>stick := k, ssent := ssent w @ take j data\<rparr>"
    by (rule exI [of _ "stick w"], rule exI [of _ 0]) simp
next
  fix rest v
  assume "\<exists>k j. j \<le> length data \<and> rest = drop j data \<and>
      v = w\<lparr>stick := k, ssent := ssent w @ take j data\<rparr>"
  then obtain k j where inv: "j \<le> length data" "rest = drop j data"
      "v = w\<lparr>stick := k, ssent := ssent w @ take j data\<rparr>" by blast
  let ?post = "\<lambda>r s'. case r of Again rest' \<Rightarrow> \<exists>k j. j \<le> length data \<and> rest' = drop j data \<and>
      s' = w\<lparr>stick := k, ssent := ssent w @ take j data\<rparr> | Done b \<Rightarrow> Q b s'"
  show "wp (writeExact_round fuel E rest) ?post X v"
  proof (cases "j = length data")
    case True
    then show ?thesis using yes inv by (simp add: writeExact_round_def wp_simps)
  next
    case False
    then have less: "j < length data" using inv(1) by simp
    have again: "\<exists>k' j'. j' \<le> length data \<and> drop (i + j) data = drop j' data \<and>
        w\<lparr>stick := m, ssent := ssent w @ take j data @ take i (drop j data)\<rparr> =
        w\<lparr>stick := k', ssent := ssent w @ take j' data\<rparr>" if "i \<le> length data - j" for i m
      by (rule exI [of _ m], rule exI [of _ "j + i"]) (use that less in \<open>simp add: take_add add.commute [of i j]\<close>)
    have stay: "\<exists>k' j'. j' \<le> length data \<and> drop j data = drop j' data \<and>
        w\<lparr>stick := m, ssent := ssent w @ take j data\<rparr> =
        w\<lparr>stick := k', ssent := ssent w @ take j' data\<rparr>" for m
      using inv(1) by blast
    show ?thesis
      unfolding writeExact_round_def using less
      apply (simp add: wp_simps inv)
      apply (rule send_vc)
       apply (simp add: wp_simps again)
      subgoal for r
        using no [OF less] stay inv(2)
        by (cases r) (auto simp: wp_simps intro!: waitForSocket_vc)
      done
  qed
qed

lemma respond_vc:
  assumes "\<And>k j. Q 0 (w\<lparr>stick := k, ssent := ssent w @ take j (frame_bytes f)\<rparr>)"
  shows "wp (respond fuel E f) Q X w"
  unfolding respond_def
  using assms assms [where j = "length (frame_bytes f)"]
  by (simp add: wp_simps) (rule writeExact_vc, simp_all)

lemma serviceAvailable_vc:
  assumes "\<And>b k. Q b (w\<lparr>stick := k\<rparr>)" and "\<And>e k. X e (w\<lparr>stick := k\<rparr>)"
  shows "wp (serviceAvailable fuel E wait_ms) Q X w"
  unfolding serviceAvailable_def Let_def
  apply (simp add: wp_simps)
  apply (rule wp_iter [where I = "\<lambda>_ v. \<exists>k. v = w\<lparr>stick := k\<rparr>"])
   apply blast
  using assms by (auto simp: wp_simps split: sum.splits)

section \<open>What the helper does\<close>

definition response_shape :: "response_status \<Rightarrow> byte list \<Rightarrow> bool" where
  "response_shape st data \<longleftrightarrow>
     (if st = RespCompleted then length data \<le> kMaximumServicePayloadBytes else data = [])"

lemma take_response_frame:
  "take j (frame_bytes (makeServiceHelperResponse rid st (of_nat (length data)))) =
   take (min j frame_size) (response_bytes rid st data)"
  by (simp add: response_bytes_def frame_bytes_length min_def)

lemma dispatchHelper_vc:
  assumes "\<And>st data k j. response_shape st data \<Longrightarrow>
      Q 0 (w\<lparr>stick := k, ssent := ssent w @ take j (response_bytes (request_id f) st data),
            hcalls := hcalls w @ [(service, md5, request)]\<rparr>)"
  shows "wp (dispatchHelper fuel E f service md5 request) Q X w"
proof -
  have failed: "Q 0 (w\<lparr>stick := k, ssent := ssent w @ take j (frame_bytes (makeServiceHelperResponse (request_id f) st 0)),
      hcalls := hcalls w @ [(service, md5, request)]\<rparr>)" if "st \<noteq> RespCompleted" for st k j
    using assms [where st = st and data = "[]" and k = k and j = j] that by (simp add: response_shape_def response_bytes_def)
  have frame: "Q 0 (w\<lparr>stick := k, ssent := ssent w @ take j (frame_bytes
        (makeServiceHelperResponse (request_id f) RespCompleted (of_nat (length data)))),
      hcalls := hcalls w @ [(service, md5, request)]\<rparr>)"
    if "length data \<le> kMaximumServicePayloadBytes" for data :: "byte list" and k j
    using assms [where st = RespCompleted and data = data and k = k] that by (simp only: take_response_frame) (simp add: response_shape_def)
  have payload: "Q 0 (w\<lparr>stick := k, ssent := ssent w @ frame_bytes
        (makeServiceHelperResponse (request_id f) RespCompleted (of_nat (length data))) @ take j data,
      hcalls := hcalls w @ [(service, md5, request)]\<rparr>)"
    if "length data \<le> kMaximumServicePayloadBytes" for data :: "byte list" and k j
    using assms [where st = RespCompleted and data = data and k = k and j = "frame_size + j"] that
    by (simp add: response_shape_def response_bytes_def frame_bytes_length)
  have payload_end: "Q 0 (w\<lparr>stick := k, ssent := ssent w @ frame_bytes
        (makeServiceHelperResponse (request_id f) RespCompleted (of_nat (length data))) @ data,
      hcalls := hcalls w @ [(service, md5, request)]\<rparr>)"
    if "length data \<le> kMaximumServicePayloadBytes" for data :: "byte list" and k
    using payload [OF that, where k = k and j = "length data"] by simp
  have empty: "Q 0 (w\<lparr>stick := k, ssent := ssent w @ take j (frame_bytes
        (makeServiceHelperResponse (request_id f) RespCompleted 0)),
      hcalls := hcalls w @ [(service, md5, request)]\<rparr>)" for k j
    using frame [of "[]"] by simp
  note empty_end = empty [where j = frame_size]
  show ?thesis
    unfolding dispatchHelper_def native_call_def Let_def
    using failed frame payload payload_end empty empty_end
    by (auto simp: wp_simps frame_bytes_length not_less
        intro!: respond_vc writeExact_vc split: option.splits sum.splits)
qed

lemma commitHelper_vc:
  assumes quiet: "\<And>k j rest. Q 0 (w\<lparr>stick := k, sinput := rest,
      ssent := ssent w @ take j (frame_bytes (makeServiceHelperReady (request_id f) ReadyReady))\<rparr>)"
    and called: "\<And>st data k j rest. response_shape st data \<Longrightarrow> request_id f \<noteq> 0 \<Longrightarrow>
      sinput w = frame_bytes (makeServiceHelperCommit (request_id f)) @ rest \<Longrightarrow>
      Q 0 (w\<lparr>stick := k, sinput := rest,
        ssent := ssent w @ frame_bytes (makeServiceHelperReady (request_id f) ReadyReady) @
          take j (response_bytes (request_id f) st data),
        hcalls := hcalls w @ [(service, md5, request)]\<rparr>)"
  shows "wp (commitHelper fuel E f service md5 request) Q X w"
proof -
  let ?ready = "frame_bytes (makeServiceHelperReady (request_id f) ReadyReady)"
  have commit: "data = frame_bytes (makeServiceHelperCommit (request_id f)) \<and> request_id f \<noteq> 0"
    if "length data = frame_size" "validateServiceHelperCommit (frame_of_bytes data) (request_id f)" for data
    using that commit_frame_iff [OF wf_frame_of_bytes [OF that(1)], of "request_id f"]
      frame_bytes_frame_of [OF that(1)] by auto
  have sent: "Q 0 (w\<lparr>stick := k, sinput := rest, ssent := ssent w @ ?ready\<rparr>)" for k rest
    using quiet [where j = "length ?ready"] by simp
  have unsent: "Q 0 (w\<lparr>stick := k, ssent := ssent w @ take j ?ready\<rparr>)" for k j
    using quiet [where rest = "sinput w" and k = k and j = j] by simp
  show ?thesis
    unfolding commitHelper_def
    using sent unsent commit called
    by (auto simp: wp_simps intro!: writeExact_vc readExact_vc dispatchHelper_vc)
qed

text \<open>A request the helper accepts, and the two ways it can end.\<close>

definition acceptable_request ::
  "'e helper_env_scheme \<Rightarrow> frame \<Rightarrow> byte list \<Rightarrow> byte list \<Rightarrow> byte list \<Rightarrow> bool" where
  "acceptable_request E f service md5 payload \<longleftrightarrow>
     wf_frame f \<and> validateServiceHelperRequest f \<and>
     length service = unat (service_name_bytes f) \<and> length md5 = unat (service_md5_bytes f) \<and>
     length payload = unat (payload_bytes f) \<and>
     validAbsoluteServiceName E (bytes_string service) \<and> validServiceMd5 (bytes_string md5)"

definition quiet_end :: "helper_world \<Rightarrow> helper_world \<Rightarrow> bool" where
  "quiet_end w w' \<longleftrightarrow> hcalls w' = hcalls w \<and>
     (\<exists>rid st j. ssent w' = ssent w @ take j (frame_bytes (makeServiceHelperReady rid st)))"

definition called_end :: "'e helper_env_scheme \<Rightarrow> helper_world \<Rightarrow> helper_world \<Rightarrow> bool" where
  "called_end E w w' \<longleftrightarrow> (\<exists>f service md5 payload rest st data j.
     acceptable_request E f service md5 payload \<and>
     sinput w = request_stream f service md5 payload @
       frame_bytes (makeServiceHelperCommit (request_id f)) @ rest \<and>
     hcalls w' = hcalls w @ [(bytes_string service, bytes_string md5, serviceRequest payload)] \<and>
     response_shape st data \<and>
     ssent w' = ssent w @ frame_bytes (makeServiceHelperReady (request_id f) ReadyReady) @
       take j (response_bytes (request_id f) st data))"

lemma quiet_endI: "hcalls w' = hcalls w \<Longrightarrow>
    ssent w' = ssent w @ take j (frame_bytes (makeServiceHelperReady rid st)) \<Longrightarrow> quiet_end w w'"
  unfolding quiet_end_def by blast

lemma called_endI:
  assumes "acceptable_request E f service md5 payload"
    and "sinput w = request_stream f service md5 payload @
       frame_bytes (makeServiceHelperCommit (request_id f)) @ rest"
    and "hcalls w' = hcalls w @ [(bytes_string service, bytes_string md5, serviceRequest payload)]"
    and "response_shape st data"
    and "ssent w' = ssent w @ frame_bytes (makeServiceHelperReady (request_id f) ReadyReady) @
       take j (response_bytes (request_id f) st data)"
  shows "called_end E w w'"
  unfolding called_end_def using assms by blast

lemma quiet_unsent: "hcalls w' = hcalls w \<Longrightarrow> ssent w' = ssent w \<Longrightarrow> quiet_end w w'"
  by (rule quiet_endI [where j = 0]) simp_all

lemma prepareHelper_ends:
  assumes frame: "wf_frame f" "validateServiceHelperRequest f"
    and lens: "length service = unat (service_name_bytes f)" "length md5 = unat (service_md5_bytes f)"
      "length payload = unat (payload_bytes f)"
    and input: "sinput w = request_stream f service md5 payload @ sinput v"
    and same: "hcalls v = hcalls w" "ssent v = ssent w"
  shows "wp (prepareHelper fuel E f (bytes_string service) (bytes_string md5) payload)
     (\<lambda>r w'. r = 0 \<and> (quiet_end w w' \<or> called_end E w w')) (\<lambda>e. quiet_end w) v"
proof -
  have called: "called_end E w (v\<lparr>stick := k, sinput := rest,
        ssent := ssent w @ frame_bytes (makeServiceHelperReady (request_id f) ReadyReady) @
          take j (response_bytes (request_id f) st data),
        hcalls := hcalls w @ [(bytes_string service, bytes_string md5, serviceRequest payload)]\<rparr>)"
    if "response_shape st data" "sinput v = frame_bytes (makeServiceHelperCommit (request_id f)) @ rest"
      "validAbsoluteServiceName E (bytes_string service)" "validServiceMd5 (bytes_string md5)"
    for k rest j st data
    by (rule called_endI [where st = st and data = data and j = j])
      (use that frame lens input in \<open>auto simp: acceptable_request_def\<close>)
  have ready: "quiet_end w v'" if "hcalls v' = hcalls w"
    "ssent v' = ssent w @ take j (frame_bytes (makeServiceHelperReady (request_id f) st))" for v' st j
    using that by (rule quiet_endI)
  show ?thesis
    unfolding prepareHelper_def Let_def
    using called
    by (auto simp: wp_simps same quiet_unsent ready split: sum.splits
        intro!: respond_vc serviceAvailable_vc commitHelper_vc)
qed

lemma runHelper_ends:
  "wp (runHelper fuel E) (\<lambda>r w'. r = 0 \<and> (quiet_end w w' \<or> called_end E w w')) (\<lambda>e. quiet_end w) w"
proof -
  have image: "wf_frame (frame_of_bytes bs) \<and> frame_bytes (frame_of_bytes bs) = bs"
    if "length bs = frame_size" for bs
    using that by (simp add: wf_frame_of_bytes frame_bytes_frame_of)
  show ?thesis
    unfolding runHelper_def Let_def
    using image
    by (auto simp: wp_simps quiet_unsent request_stream_def
        intro!: readExact_vc prepareHelper_ends)
qed

text \<open>
  C3. The native dispatch fence, for every behaviour of the socket, of roscpp and of the
  parent: when the helper has run, with any number of rounds, it has entered
  \<^verbatim>\<open>client.call\<close> at most once; and if it has, then the bytes it was sent start with a
  valid request frame, a service name, an MD5 sum and a payload of exactly the announced
  lengths, and after them one complete commit frame with the identifier of that request, and
  the call was made with that service, sum and payload.
\<close>

theorem helper_call_fenced:
  assumes "runHelper fuel E w = Some (r, w')"
  shows "hcalls w' = hcalls w \<or>
    (\<exists>f service md5 payload rest. acceptable_request E f service md5 payload \<and>
       sinput w = request_stream f service md5 payload @
         frame_bytes (makeServiceHelperCommit (request_id f)) @ rest \<and>
       hcalls w' = hcalls w @ [(bytes_string service, bytes_string md5, serviceRequest payload)])"
proof (cases r)
  case (Inl e)
  then show ?thesis using wp_Inl [OF runHelper_ends, of fuel E w e w'] assms by (simp add: quiet_end_def)
next
  case (Inr x)
  then have "quiet_end w w' \<or> called_end E w w'"
    using wp_Inr [OF runHelper_ends, of fuel E w x w'] assms by simp
  then show ?thesis unfolding quiet_end_def called_end_def by blast
qed


section \<open>A helper that is served\<close>

lemma readExact_eager_from:
  assumes "eager E" and "len = length got + n" and "n \<le> length (sinput w)" and "n < rounds"
  shows "\<exists>k. iterP rounds (readExact_round fuel E len) got w =
    Some (Inr (Some (got @ take n (sinput w))), w\<lparr>stick := k, sinput := drop n (sinput w)\<rparr>)"
  using assms(2-)
proof (induction rounds arbitrary: got n w)
  case 0
  then show ?case by simp
next
  case (Suc rounds)
  show ?case
  proof (cases "n = 0")
    case True
    then show ?thesis using Suc.prems
      by (intro exI [of _ "stick w"]) (simp add: readExact_round_def prog_defs)
  next
    case False
    obtain m where m: "se_recv E (stick w) = RecvBytes m" using assms(1) by (auto simp: eager_def)
    define k where "k = min (max 1 m) (min n (length (sinput w)))"
    have k: "0 < k" "k \<le> n" using False Suc.prems(2) by (auto simp: k_def)
    let ?w = "w\<lparr>stick := Suc (stick w), sinput := drop k (sinput w)\<rparr>"
    have "recvP E n w = Some (Inr (Received (take k (sinput w))), ?w)"
      using k(1) by (simp only: recvP_def Let_def m recv_answer.case k_def [symmetric]) simp
    then have round: "readExact_round fuel E len got w = Some (Inr (Again (got @ take k (sinput w))), ?w)"
      using False Suc.prems(1) by (simp add: readExact_round_def prog_defs)
    have "length (take k (sinput w)) = k" using k(2) Suc.prems(2) by simp
    moreover have "n - k \<le> length (sinput w) - k" "n - k < rounds" using Suc.prems k by linarith+
    ultimately obtain j where "iterP rounds (readExact_round fuel E len) (got @ take k (sinput w)) ?w =
        Some (Inr (Some ((got @ take k (sinput w)) @ take (n - k) (sinput ?w))),
          ?w\<lparr>stick := j, sinput := drop (n - k) (sinput ?w)\<rparr>)"
      using Suc.IH [of "got @ take k (sinput w)" "n - k" ?w] Suc.prems k by auto
    moreover have "take k (sinput w) @ take (n - k) (drop k (sinput w)) = take n (sinput w)"
      using k(2) take_add [of k "n - k" "sinput w"] by simp
    ultimately show ?thesis using round k(2) by (auto simp: bindP_def)
  qed
qed

lemma readExact_eager:
  assumes "eager E" and "sinput w = data @ rest" and "length data < fuel"
  shows "\<exists>k. readExact fuel E (length data) w = Some (Inr (Some data), w\<lparr>stick := k, sinput := rest\<rparr>)"
  using readExact_eager_from [OF assms(1), of "length data" "[]" "length data" w fuel] assms(2,3)
  by (simp add: readExact_def)

lemma writeExact_eager_from:
  assumes "eager E" and "length data < rounds"
  shows "\<exists>k. iterP rounds (writeExact_round fuel E) data w =
    Some (Inr True, w\<lparr>stick := k, ssent := ssent w @ data\<rparr>)"
  using assms(2)
proof (induction rounds arbitrary: data w)
  case 0
  then show ?case by simp
next
  case (Suc rounds)
  show ?case
  proof (cases "data = []")
    case True
    then show ?thesis by (intro exI [of _ "stick w"]) (simp add: writeExact_round_def prog_defs)
  next
    case False
    obtain m where m: "se_send E (stick w) = SendBytes m" using assms(1) by (auto simp: eager_def)
    define k where "k = min (max 1 m) (length data)"
    have k: "0 < k" using False by (auto simp: k_def)
    let ?w = "w\<lparr>stick := Suc (stick w), ssent := ssent w @ take k data\<rparr>"
    have "sendP E data w = Some (Inr (Sent k), ?w)"
      by (simp only: sendP_def Let_def m send_answer.case k_def [symmetric])
    then have round: "writeExact_round fuel E data w = Some (Inr (Again (drop k data)), ?w)"
      using False by (simp add: writeExact_round_def prog_defs)
    have "length (drop k data) < rounds" using Suc.prems k False by (cases data) auto
    then obtain j where "iterP rounds (writeExact_round fuel E) (drop k data) ?w =
        Some (Inr True, ?w\<lparr>stick := j, ssent := ssent ?w @ drop k data\<rparr>)"
      using Suc.IH [of "drop k data" ?w] by blast
    then show ?thesis using round by (auto simp: bindP_def)
  qed
qed

lemma writeExact_eager:
  assumes "eager E" and "length data < fuel"
  shows "\<exists>k. writeExact fuel E data w = Some (Inr True, w\<lparr>stick := k, ssent := ssent w @ data\<rparr>)"
  using writeExact_eager_from [OF assms] by (simp add: writeExact_def)

text \<open>
  A program that returns for a state a known value and state up to the tick; steps of this
  kind are chained.
\<close>

definition leads :: "('z sock_world_scheme, 'a) prog \<Rightarrow> 'z sock_world_scheme \<Rightarrow> 'a \<Rightarrow> 'z sock_world_scheme \<Rightarrow> bool" where
  "leads m w x w' \<longleftrightarrow> (\<forall>t. \<exists>k. m (w\<lparr>stick := t\<rparr>) = Some (Inr x, w'\<lparr>stick := k\<rparr>))"

lemma leads_bind:
  assumes "leads m w x w'" and "leads (f x) w' y w''"
  shows "leads (bindP m f) w y w''"
  unfolding leads_def
proof
  fix t
  obtain k where "m (w\<lparr>stick := t\<rparr>) = Some (Inr x, w'\<lparr>stick := k\<rparr>)"
    using assms(1) unfolding leads_def by blast
  moreover obtain j where "f x (w'\<lparr>stick := k\<rparr>) = Some (Inr y, w''\<lparr>stick := j\<rparr>)"
    using assms(2) unfolding leads_def by blast
  ultimately have "bindP m f (w\<lparr>stick := t\<rparr>) = Some (Inr y, w''\<lparr>stick := j\<rparr>)" by (simp add: bindP_def)
  then show "\<exists>k. bindP m f (w\<lparr>stick := t\<rparr>) = Some (Inr y, w''\<lparr>stick := k\<rparr>)" by blast
qed

lemma leads_then: "leads m w x w' \<Longrightarrow> leads n w' y w'' \<Longrightarrow> leads (thenP m n) w y w''"
  unfolding thenP_def by (rule leads_bind)

lemma leadsD: "leads m w x w' \<Longrightarrow> \<exists>k. m w = Some (Inr x, w'\<lparr>stick := k\<rparr>)"
  unfolding leads_def by (drule spec [of _ "stick w"]) simp

lemma leads_return: "leads (returnP x) w x w"
  by (auto simp: leads_def returnP_def)

lemma leads_look: "(\<And>t. f t = Inr x) \<Longrightarrow> leads (lookE f) w x w"
  by (auto simp: leads_def lookE_def)

lemma leads_catch:
  assumes "leads m w x w'"
  shows "leads (catchP m h) w x w'"
  unfolding leads_def
proof
  fix t
  obtain k where "m (w\<lparr>stick := t\<rparr>) = Some (Inr x, w'\<lparr>stick := k\<rparr>)"
    using assms(1) unfolding leads_def by blast
  then have "catchP m h (w\<lparr>stick := t\<rparr>) = Some (Inr x, w'\<lparr>stick := k\<rparr>)" by (simp add: catchP_def)
  then show "\<exists>k. catchP m h (w\<lparr>stick := t\<rparr>) = Some (Inr x, w'\<lparr>stick := k\<rparr>)" by blast
qed

lemma leads_read:
  assumes "eager E" and "sinput w = data @ rest" and "length data = n" and "n < fuel"
  shows "leads (readExact fuel E n) w (Some data) (w\<lparr>sinput := rest\<rparr>)"
  unfolding leads_def
proof
  fix t
  have "sinput (w\<lparr>stick := t\<rparr>) = data @ rest" using assms(2) by simp
  from readExact_eager [OF assms(1) this, of fuel]
  show "\<exists>k. readExact fuel E n (w\<lparr>stick := t\<rparr>) = Some (Inr (Some data), w\<lparr>sinput := rest, stick := k\<rparr>)"
    using assms(3,4) by simp
qed

lemma leads_write:
  assumes "eager E" and "length data < fuel"
  shows "leads (writeExact fuel E data) w True (w\<lparr>ssent := ssent w @ data\<rparr>)"
  unfolding leads_def
proof
  fix t
  from writeExact_eager [OF assms, of "w\<lparr>stick := t\<rparr>"]
  show "\<exists>k. writeExact fuel E data (w\<lparr>stick := t\<rparr>) =
      Some (Inr True, w\<lparr>ssent := ssent w @ data, stick := k\<rparr>)"
    by simp
qed

text \<open>
  An environment in which the socket moves bytes whenever it is asked and roscpp finds and
  completes the call.
\<close>

definition serving :: "'e helper_env_scheme \<Rightarrow> serialized_message \<Rightarrow> bool" where
  "serving E response \<longleftrightarrow> eager E \<and>
     (\<forall>t. he_node_handle E t = Inr () \<and> he_exists E t = Inr True \<and> he_prepare E t = Inr () \<and>
          he_call E t = Inr (Some response))"

lemma leads_available:
  assumes "\<And>t. he_exists E t = Inr True" and "0 < fuel"
  shows "leads (serviceAvailable fuel E wait_ms) w True w"
proof -
  obtain n where "fuel = Suc n" using assms(2) by (cases fuel) auto
  then show ?thesis using assms(1)
    by (auto simp: leads_def serviceAvailable_def bindP_def lookP_def lookE_def returnP_def Let_def)
qed

lemma leads_native_call:
  assumes "\<And>t. he_call E t = Inr (Some response)"
  shows "leads (native_call E service md5 request) w (Some response)
    (w\<lparr>hcalls := hcalls w @ [(service, md5, request)]\<rparr>)"
  using assms
  by (auto simp: leads_def native_call_def thenP_def bindP_def modifyP_def catchP_def lookE_def)

lemma leads_dispatch:
  assumes "serving E response" and "responsePayload response = Some data"
    and "length data \<le> kMaximumServicePayloadBytes" and "kMaximumServicePayloadBytes < fuel"
  shows "leads (dispatchHelper fuel E f service md5 request) w 0
    (w\<lparr>ssent := ssent w @ response_bytes (request_id f) RespCompleted data,
       hcalls := hcalls w @ [(service, md5, request)]\<rparr>)"
proof -
  let ?frame = "frame_bytes (makeServiceHelperResponse (request_id f) RespCompleted (of_nat (length data)))"
  let ?w = "w\<lparr>hcalls := hcalls w @ [(service, md5, request)]\<rparr>"
  have eager: "eager E" and call: "\<And>t. he_call E t = Inr (Some response)"
    using assms(1) by (simp_all add: serving_def)
  have small: "length ?frame < fuel" "length data < fuel"
    using assms(3,4) by (simp_all add: frame_bytes_length frame_size_def kMaximumServicePayloadBytes_def)
  let ?sent = "?w\<lparr>ssent := ssent ?w @ ?frame\<rparr>"
  let ?final = "?sent\<lparr>ssent := ssent ?sent @ data\<rparr>"
  have tail: "leads (if length data > 0 then thenP (writeExact fuel E data) (returnP 0) else returnP 0) ?sent 0 ?final"
  proof (cases "data = []")
    case False
    then show ?thesis
      using leads_then [OF leads_write [OF eager small(2), of ?sent] leads_return [of 0]] by simp
  qed (simp add: leads_return)
  have frame_then_data: "leads (bindP (writeExact fuel E ?frame) (\<lambda>written.
      if \<not> written then returnP 0
      else if length data > 0 then thenP (writeExact fuel E data) (returnP 0) else returnP 0)) ?w 0 ?final"
    by (rule leads_bind [OF leads_write [OF eager small(1)]])
      (simp only: not_True_eq_False if_False tail)
  show ?thesis
    unfolding dispatchHelper_def Let_def
    by (rule leads_bind [OF leads_native_call [OF call]])
      (use frame_then_data assms(2,3) in \<open>simp add: response_bytes_def not_less [symmetric] del: length_greater_0_conv\<close>)
qed

lemma leads_commit:
  assumes serving: "serving E response" "responsePayload response = Some data"
      "length data \<le> kMaximumServicePayloadBytes" "kMaximumServicePayloadBytes < fuel"
    and "request_id f \<noteq> 0"
    and "sinput w = frame_bytes (makeServiceHelperCommit (request_id f)) @ rest"
  shows "leads (commitHelper fuel E f service md5 request) w 0
    (w\<lparr>sinput := rest,
       ssent := ssent w @ frame_bytes (makeServiceHelperReady (request_id f) ReadyReady) @
         response_bytes (request_id f) RespCompleted data,
       hcalls := hcalls w @ [(service, md5, request)]\<rparr>)"
proof -
  let ?ready = "frame_bytes (makeServiceHelperReady (request_id f) ReadyReady)"
  let ?commit = "frame_bytes (makeServiceHelperCommit (request_id f))"
  let ?w = "w\<lparr>ssent := ssent w @ ?ready\<rparr>"
  have eager: "eager E" using serving(1) by (simp add: serving_def)
  have small: "length ?ready < fuel" "frame_size < fuel"
    using serving(4) by (simp_all add: frame_bytes_length frame_size_def kMaximumServicePayloadBytes_def)
  have valid: "validateServiceHelperCommit (frame_of_bytes ?commit) (request_id f)"
    using assms(5) by (simp add: frame_of_frame_bytes commit_frame_iff)
  have read: "leads (readExact fuel E frame_size) ?w (Some ?commit) (?w\<lparr>sinput := rest\<rparr>)"
    by (rule leads_read [OF eager _ _ small(2)]) (use assms(6) in \<open>simp_all add: frame_bytes_length\<close>)
  show ?thesis
    unfolding commitHelper_def
    apply (rule leads_bind [OF leads_write [OF eager small(1)]])
    apply simp
    apply (rule leads_bind [OF read])
    using leads_dispatch [OF serving, of f service md5 request "?w\<lparr>sinput := rest\<rparr>"] valid
    apply simp
    done
qed

lemma leads_prepare:
  assumes serving: "serving E response" "responsePayload response = Some data"
      "length data \<le> kMaximumServicePayloadBytes" "kMaximumServicePayloadBytes < fuel"
    and "request_id f \<noteq> 0"
    and "sinput w = frame_bytes (makeServiceHelperCommit (request_id f)) @ rest"
    and "validAbsoluteServiceName E service" "validServiceMd5 md5"
  shows "leads (prepareHelper fuel E f service md5 payload) w 0
    (w\<lparr>sinput := rest,
       ssent := ssent w @ frame_bytes (makeServiceHelperReady (request_id f) ReadyReady) @
         response_bytes (request_id f) RespCompleted data,
       hcalls := hcalls w @ [(service, md5, serviceRequest payload)]\<rparr>)"
proof -
  have ok: "\<And>t. he_node_handle E t = Inr ()" "\<And>t. he_exists E t = Inr True" "\<And>t. he_prepare E t = Inr ()"
    using serving(1) by (simp_all add: serving_def)
  have fuel: "0 < fuel" using serving(4) by simp
  show ?thesis
    unfolding prepareHelper_def Let_def
    apply (simp add: assms(7,8))
    apply (rule leads_then [OF leads_look [OF ok(1)]])
    apply (rule leads_bind [OF leads_available [OF ok(2) fuel]])
    apply simp
    apply (rule leads_bind [OF leads_catch [OF leads_then [OF leads_look [OF ok(3)] leads_return]]])
    using leads_commit [OF serving assms(5,6)] apply simp
    done
qed

lemma runHelper_leads:
  assumes serving: "serving E response" "responsePayload response = Some data"
      "length data \<le> kMaximumServicePayloadBytes" "kMaximumServicePayloadBytes < fuel"
    and request: "acceptable_request E f service md5 payload"
    and input: "sinput w = request_stream f service md5 payload @
      frame_bytes (makeServiceHelperCommit (request_id f)) @ rest"
  shows "leads (runHelper fuel E) w 0
    (w\<lparr>sinput := rest,
      ssent := ssent w @ frame_bytes (makeServiceHelperReady (request_id f) ReadyReady) @
        response_bytes (request_id f) RespCompleted data,
      hcalls := hcalls w @ [(bytes_string service, bytes_string md5, serviceRequest payload)]\<rparr>)"
proof -
  have eager: "eager E" using serving(1) by (simp add: serving_def)
  have req: "wf_frame f" "validateServiceHelperRequest f" "length service = unat (service_name_bytes f)"
      "length md5 = unat (service_md5_bytes f)" "length payload = unat (payload_bytes f)"
      "validAbsoluteServiceName E (bytes_string service)" "validServiceMd5 (bytes_string md5)"
      "request_id f \<noteq> 0"
    using request by (simp_all add: acceptable_request_def frame_simps)
  have small: "frame_size < fuel" "unat (service_name_bytes f) < fuel" "unat (service_md5_bytes f) < fuel"
      "unat (payload_bytes f) < fuel"
    using serving(4) req(2)
    by (simp_all add: frame_size_def validateServiceHelperRequest_def kMaximumServiceNameBytes_def
        kServiceMd5Bytes_def kMaximumServicePayloadBytes_def)
  let ?commit = "frame_bytes (makeServiceHelperCommit (request_id f))"
  let ?w1 = "w\<lparr>sinput := service @ md5 @ payload @ ?commit @ rest\<rparr>"
  let ?w2 = "?w1\<lparr>sinput := md5 @ payload @ ?commit @ rest\<rparr>"
  let ?w3 = "?w2\<lparr>sinput := payload @ ?commit @ rest\<rparr>"
  let ?w4 = "?w3\<lparr>sinput := ?commit @ rest\<rparr>"
  have r1: "leads (readExact fuel E frame_size) w (Some (frame_bytes f)) ?w1"
    using input req(1) by (intro leads_read [OF eager _ _ small(1)]) (simp_all add: request_stream_def frame_bytes_length)
  have r2: "leads (readExact fuel E (unat (service_name_bytes f))) ?w1 (Some service) ?w2"
    using req(3) by (intro leads_read [OF eager _ _ small(2)]) simp_all
  have r3: "leads (readExact fuel E (unat (service_md5_bytes f))) ?w2 (Some md5) ?w3"
    using req(4) by (intro leads_read [OF eager _ _ small(3)]) simp_all
  have r4: "leads (if payload_bytes f = 0 then returnP (Some [])
      else readExact fuel E (unat (payload_bytes f))) ?w3 (Some payload) ?w4"
  proof (cases "payload_bytes f = 0")
    case True
    then show ?thesis using req(5) leads_return [of "Some []" ?w3] by simp
  next
    case False
    then show ?thesis using req(5) leads_read [OF eager _ _ small(4), of ?w3 payload "?commit @ rest"] by simp
  qed
  have r5: "leads (prepareHelper fuel E f (bytes_string service) (bytes_string md5) payload) ?w4 0
    (?w4\<lparr>sinput := rest,
       ssent := ssent ?w4 @ frame_bytes (makeServiceHelperReady (request_id f) ReadyReady) @
         response_bytes (request_id f) RespCompleted data,
       hcalls := hcalls ?w4 @ [(bytes_string service, bytes_string md5, serviceRequest payload)]\<rparr>)"
    using req(6-8) by (intro leads_prepare [OF serving]) simp_all
  have "leads (runHelper fuel E) w 0
    (?w4\<lparr>sinput := rest,
       ssent := ssent ?w4 @ frame_bytes (makeServiceHelperReady (request_id f) ReadyReady) @
         response_bytes (request_id f) RespCompleted data,
       hcalls := hcalls ?w4 @ [(bytes_string service, bytes_string md5, serviceRequest payload)]\<rparr>)"
    unfolding runHelper_def Let_def
    apply (rule leads_bind [OF r1])
    apply (simp only: option.case frame_of_frame_bytes [OF req(1)] req(2) not_True_eq_False if_False)
    apply (rule leads_bind [OF r2], simp only: option.case)
    apply (rule leads_bind [OF r3], simp only: option.case)
    apply (rule leads_bind [OF r4], simp only: option.case)
    apply (rule r5)
    done
  then show ?thesis by simp
qed

text \<open>
  C20. A request that is served is answered: when the socket moves bytes whenever it is asked,
  in portions of any size, the service exists and roscpp completes the call, then a helper
  that is sent an acceptable request and its commit returns 0 after entering the call once and
  having sent the ready frame and the completed response with the whole response message. The
  number of rounds that is enough does not depend on the portions: more than the largest
  payload.
\<close>

theorem helper_completes:
  assumes "serving E response" and "responsePayload response = Some data"
    and "length data \<le> kMaximumServicePayloadBytes" and "kMaximumServicePayloadBytes < fuel"
    and "acceptable_request E f service md5 payload"
    and "sinput w = request_stream f service md5 payload @
      frame_bytes (makeServiceHelperCommit (request_id f)) @ rest"
  shows "\<exists>k. runHelper fuel E w = Some (Inr 0,
    w\<lparr>stick := k, sinput := rest,
      ssent := ssent w @ frame_bytes (makeServiceHelperReady (request_id f) ReadyReady) @
        response_bytes (request_id f) RespCompleted data,
      hcalls := hcalls w @ [(bytes_string service, bytes_string md5, serviceRequest payload)]\<rparr>)"
  using leadsD [OF runHelper_leads [OF assms]] by simp

section \<open>Start of the helper\<close>

lemma parse_descriptor_to_string:
  "0 \<le> fd \<Longrightarrow> fd \<le> 2147483647 \<Longrightarrow> parse_descriptor (int_to_string fd) = Some fd"
  by (simp add: parse_descriptor_def stoll_int_to_string)




section \<open>Examples\<close>

definition sample_frame :: frame where
  "sample_frame = makeServiceHelperRequest 9 4 32 2 100"

definition sample_service :: "byte list" where
  "sample_service = [0x2F, 0x61, 0x64, 0x64]"

definition sample_md5 :: "byte list" where
  "sample_md5 = replicate 32 0x61"

definition sample_response :: serialized_message where
  "sample_response = \<lparr>num_bytes = 5, buf = Some [1, 1, 0, 0, 0], message_start = Some 1\<rparr>"

definition sample_helper_env :: helper_env where
  "sample_helper_env =
     \<lparr>se_recv = (\<lambda>t. RecvBytes 100), se_send = (\<lambda>t. SendBytes 100), se_poll = (\<lambda>t. PollEvents True False),
      se_steady_now = (\<lambda>t. int t), se_ros_ok = (\<lambda>t. True), he_validate = (\<lambda>_. True),
      he_node_handle = (\<lambda>t. Inr ()), he_exists = (\<lambda>t. Inr True), he_prepare = (\<lambda>t. Inr ()),
      he_call = (\<lambda>t. Inr (Some sample_response))\<rparr>"

definition sample_helper_world :: "byte list \<Rightarrow> helper_world" where
  "sample_helper_world input = \<lparr>stick = 0, sinput = input, ssent = [], hcalls = []\<rparr>"

definition sample_input :: "byte list" where
  "sample_input = request_stream sample_frame sample_service sample_md5 [7, 8] @
     frame_bytes (makeServiceHelperCommit (request_id sample_frame)) @ []"

lemma slash_char: "char_of (47 :: nat) = CHR ''/''"
  by code_simp

lemma sample_acceptable: "acceptable_request sample_helper_env sample_frame sample_service sample_md5 [7, 8]"
  by (simp add: slash_char acceptable_request_def sample_frame_def sample_service_def sample_md5_def
      sample_helper_env_def frame_simps wf_frame_def bytes_string_def validAbsoluteServiceName_def
      validServiceMd5_def kServiceMd5Bytes_def kMaximumServiceNameBytes_def
      kMaximumServicePayloadBytes_def kMaximumServiceWaitMilliseconds_def hex_character_def list_all_iff)

lemma sample_serving: "serving sample_helper_env sample_response"
  by (simp add: serving_def eager_def sample_helper_env_def)

lemma sample_payload: "responsePayload sample_response = Some [1, 0, 0, 0]"
  by (simp add: responsePayload_def sample_response_def)

lemma sample_run:
  "\<exists>w'. runHelper (Suc kMaximumServicePayloadBytes) sample_helper_env (sample_helper_world sample_input) =
     Some (Inr 0, w') \<and> hcalls w' \<noteq> []"
  using leadsD [OF runHelper_leads [OF sample_serving sample_payload _ _ sample_acceptable,
      of "Suc kMaximumServicePayloadBytes" "sample_helper_world sample_input" "[]"]]
  by (auto simp: sample_input_def sample_helper_world_def kMaximumServicePayloadBytes_def)

theorem helper_call_fenced_witness:
  "\<exists>w' f service md5 payload rest.
     runHelper (Suc kMaximumServicePayloadBytes) sample_helper_env (sample_helper_world sample_input) =
       Some (Inr 0, w') \<and>
     sample_input = request_stream f service md5 payload @
       frame_bytes (makeServiceHelperCommit (request_id f)) @ rest \<and>
     hcalls w' = [(bytes_string service, bytes_string md5, serviceRequest payload)]"
proof -
  obtain w' where run: "runHelper (Suc kMaximumServicePayloadBytes) sample_helper_env
      (sample_helper_world sample_input) = Some (Inr 0, w')" "hcalls w' \<noteq> []" using sample_run by blast
  have start: "hcalls (sample_helper_world sample_input) = []"
    "sinput (sample_helper_world sample_input) = sample_input" by (simp_all add: sample_helper_world_def)
  show ?thesis
    using helper_call_fenced [OF run(1)] run unfolding start append_Nil by blast
qed


theorem helper_completes_witness:
  "\<exists>k. runHelper (Suc kMaximumServicePayloadBytes) sample_helper_env (sample_helper_world sample_input) =
     Some (Inr 0, (sample_helper_world [])
       \<lparr>stick := k,
        ssent := frame_bytes (makeServiceHelperReady (request_id sample_frame) ReadyReady) @
          response_bytes (request_id sample_frame) RespCompleted [1, 0, 0, 0],
        hcalls := [(bytes_string sample_service, bytes_string sample_md5, serviceRequest [7, 8])]\<rparr>)"
  using helper_completes [OF sample_serving sample_payload _ _ sample_acceptable,
      of "Suc kMaximumServicePayloadBytes" "sample_helper_world sample_input" "[]"]
  by (simp add: sample_input_def sample_helper_world_def kMaximumServicePayloadBytes_def)





end
