(* ===== verification/Service_Invoker.thy ===== *)
theory Service_Invoker
  imports Socket_Io Type_Registry Json_Codec "HOL-Library.Multiset" "HOL-Library.Signed_Division"
begin

text \<open>
  The parent's side of a service call (\<^verbatim>\<open>service_invoker.cpp\<close>): a bounded number of
  concurrent calls, a fresh helper process for each, the two-phase exchange with it and the
  classification of every failure by whether the commit frame was complete. The world extends
  the socket of Socket_Io by the helper process, the descriptors and children the call holds,
  the permits, the request counter and the timeouts given to \<^verbatim>\<open>poll\<close>.
\<close>

section \<open>Data\<close>

record service_call_request =
  sr_service :: string
  sr_service_type :: string
  sr_request :: json
  sr_wait_for_service_ms :: "32 word"
  sr_call_timeout_ms :: "32 word"
  sr_deadline_unix_nanos :: int
  sr_has_cancellation :: bool

record service_call_result =
  sres_service :: string
  sres_service_type :: string
  sres_response :: json
  sres_duration_ms :: "64 word"

definition kHelperSocketDescriptor :: int where "kHelperSocketDescriptor = 198"

definition kServiceHelperExecutable :: string where
  "kServiceHelperExecutable = ''xgc_ros1_tools_adapter_service_helper''"

definition kCancellationPollInterval :: int where "kCancellationPollInterval = 5"

text \<open>\<^verbatim>\<open>SteadyClock::time_point::max()\<close>, in nanoseconds.\<close>

definition time_point_max :: int where "time_point_max = 9223372036854775807"

text \<open>
  The counter of calls in flight with its users: whether this call holds a permit, and how
  many permits the other calls hold. Other calls change it by the same two atomic steps.
\<close>

record permits =
  in_flight :: "32 word"
  own_permits :: nat
  other_permits :: nat

datatype permit_action = TakePermit | GivePermit

fun other_call :: "32 word \<Rightarrow> permit_action \<Rightarrow> permits \<Rightarrow> permits" where
  "other_call maximum TakePermit p =
     (if in_flight p \<ge> maximum then p
      else p\<lparr>in_flight := in_flight p + 1, other_permits := other_permits p + 1\<rparr>)"
| "other_call maximum GivePermit p =
     (if other_permits p = 0 then p
      else p\<lparr>in_flight := in_flight p - 1, other_permits := other_permits p - 1\<rparr>)"

record invoker_world = sock_world +
  iprocess_id :: int
  isocket_fd :: int
  iopen :: "int multiset"
  ichildren :: "int multiset"
  ispawned :: "(string \<times> string list) list"
  ipermits :: permits
  inext :: "64 word"
  itimeouts :: "int list"

record invoker_env = sock_env +
  ie_cancelled :: "nat \<Rightarrow> bool"
  ie_system_now :: "nat \<Rightarrow> int"
  ie_readlink :: "nat \<Rightarrow> string + string"
  ie_socketpair :: "nat \<Rightarrow> string + int \<times> int"
  ie_dupfd :: "nat \<Rightarrow> string + int"
  ie_file_action :: "nat \<Rightarrow> string option"
  ie_spawn :: "nat \<Rightarrow> string + int"
  ie_interrupted :: "nat \<Rightarrow> bool"
  ie_others :: "nat \<Rightarrow> permit_action list"
  ie_spurious :: "nat \<Rightarrow> bool"
  ie_ids :: "nat \<Rightarrow> nat"

section \<open>Deadlines\<close>

definition deadlineExpired :: "invoker_env \<Rightarrow> int \<Rightarrow> (invoker_world, bool) prog" where
  "deadlineExpired E deadline =
     (if deadline \<le> 0 then returnP False
      else bindP (lookP (ie_system_now E)) (\<lambda>now. returnP (now \<ge> deadline)))"

definition cancellationRequested :: "invoker_env \<Rightarrow> service_call_request \<Rightarrow> (invoker_world, bool) prog" where
  "cancellationRequested E request =
     (if sr_has_cancellation request then lookP (ie_cancelled E) else returnP False)"

definition requirePreDispatchAllowed ::
  "invoker_env \<Rightarrow> service_call_request \<Rightarrow> (invoker_world, unit) prog" where
  "requirePreDispatchAllowed E request =
     bindP (cancellationRequested E request) (\<lambda>cancelled.
       if cancelled
       then liftP (cancelledError ''service_call_cancelled''
              ''ROS1 service call was cancelled before dispatch'')
       else bindP (deadlineExpired E (sr_deadline_unix_nanos request)) (\<lambda>expired.
         if expired
         then liftP (deadlineError ''service_deadline_elapsed''
                ''ROS1 service deadline elapsed before dispatch'')
         else returnP ()))"

text \<open>The arithmetic of the two deadlines on the clock readings.\<close>

definition runtime_deadline_at :: "int \<Rightarrow> int \<Rightarrow> int \<Rightarrow> int" where
  "runtime_deadline_at deadline system_now steady_now =
     (if deadline \<le> system_now then steady_now
      else let remaining = deadline - system_now;
               maximum_remaining = time_point_max - steady_now
           in if remaining \<ge> maximum_remaining then time_point_max
              else steady_now + remaining)"

definition runtimeDeadline :: "invoker_env \<Rightarrow> int \<Rightarrow> (invoker_world, int) prog" where
  "runtimeDeadline E deadline =
     (if deadline \<le> 0 then returnP time_point_max
      else bindP (lookP (ie_system_now E)) (\<lambda>system_now.
           bindP (lookP (se_steady_now E)) (\<lambda>steady_now.
           returnP (runtime_deadline_at deadline system_now steady_now))))"

definition poll_timeout_at :: "int \<Rightarrow> int \<Rightarrow> int" where
  "poll_timeout_at deadline now =
     (if now \<ge> deadline then 0
      else let remaining = (deadline - now) div 1000000
           in max 1 (min kCancellationPollInterval (remaining + 1)))"

definition pollTimeout :: "invoker_env \<Rightarrow> int \<Rightarrow> (invoker_world, int) prog" where
  "pollTimeout E deadline =
     (if deadline = time_point_max then returnP kCancellationPollInterval
      else bindP (lookP (se_steady_now E)) (\<lambda>now. returnP (poll_timeout_at deadline now)))"

text \<open>\<^verbatim>\<open>poll\<close> with its timeout, which the world logs.\<close>

definition poll_for :: "invoker_env \<Rightarrow> int \<Rightarrow> (invoker_world, poll_answer) prog" where
  "poll_for E deadline =
     bindP (pollTimeout E deadline) (\<lambda>timeout.
       thenP (modifyP (\<lambda>w. w\<lparr>itimeouts := itimeouts w @ [timeout]\<rparr>)) (pollP E))"

section \<open>The helper process\<close>

definition currentExecutableSibling :: "invoker_env \<Rightarrow> string \<Rightarrow> (invoker_world, string + string) prog" where
  "currentExecutableSibling E sibling =
     bindP (lookP (ie_readlink E)) (\<lambda>link.
       returnP (case link of
         Inl reason \<Rightarrow> Inl (''cannot resolve /proc/self/exe: '' @ reason)
       | Inr target \<Rightarrow>
           (let executable = take 4096 target in
            if length executable = 4096 then Inl ''resolved executable path exceeds PATH_MAX''
            else let current = takeWhile (\<lambda>c. c \<noteq> CHR 0x00) executable in
              case rfind_char (CHR ''/'') current of
                None \<Rightarrow> Inl ''resolved executable has no parent directory''
              | Some separator \<Rightarrow> Inr (take (separator + 1) current @ sibling))))"

definition openP :: "int \<Rightarrow> (invoker_world, unit) prog" where
  "openP fd = modifyP (\<lambda>w. w\<lparr>iopen := add_mset fd (iopen w)\<rparr>)"

definition closeP :: "int \<Rightarrow> (invoker_world, unit) prog" where
  "closeP fd = modifyP (\<lambda>w. w\<lparr>iopen := iopen w - {#fd#}\<rparr>)"

text \<open>
  One pass of the relocation loop: the descriptor the helper will use must be free in the
  parent's pair. On failure both ends are closed.
\<close>

definition relocate :: "invoker_env \<Rightarrow> int \<Rightarrow> int \<Rightarrow> (invoker_world, string + int) prog" where
  "relocate E fd other =
     (if fd \<noteq> kHelperSocketDescriptor then returnP (Inr fd)
      else bindP (lookP (ie_dupfd E)) (\<lambda>replacement.
        case replacement of
          Inl reason \<Rightarrow>
            thenP (closeP fd) (thenP (closeP other)
              (returnP (Inl (''cannot relocate service helper socket: '' @ reason))))
        | Inr new \<Rightarrow> thenP (openP new) (thenP (closeP fd) (returnP (Inr new)))))"

text \<open>The next spawn step is taken only if none before it failed.\<close>

definition unless_failed ::
  "string option \<Rightarrow> (invoker_world, string option) prog \<Rightarrow> (invoker_world, string option) prog" where
  "unless_failed spawn_error step =
     (case spawn_error of Some e \<Rightarrow> returnP (Some e) | None \<Rightarrow> step)"

definition spawn_helper :: "invoker_env \<Rightarrow> string \<Rightarrow> (invoker_world, string + int) prog" where
  "spawn_helper E helper_path =
     bindP (lookP (ie_spawn E)) (\<lambda>spawned.
       case spawned of
         Inl reason \<Rightarrow> returnP (Inl reason)
       | Inr child \<Rightarrow>
           thenP (modifyP (\<lambda>w. w\<lparr>ichildren := add_mset child (ichildren w),
               ispawned := ispawned w @ [(helper_path, [int_to_string kHelperSocketDescriptor])]\<rparr>))
             (returnP (Inr child)))"

definition start_spawn ::
  "invoker_env \<Rightarrow> string \<Rightarrow> int \<Rightarrow> int \<Rightarrow> (invoker_world, string + unit) prog" where
  "start_spawn E helper_path parent_end child_end =
     bindP (lookP (ie_file_action E)) (\<lambda>e1.
     bindP (unless_failed e1 (lookP (ie_file_action E))) (\<lambda>e2.
     bindP (unless_failed e2 (lookP (ie_file_action E))) (\<lambda>e3.
     bindP (unless_failed e3 (lookP (ie_file_action E))) (\<lambda>e4.
     bindP (case e4 of Some e \<Rightarrow> returnP (Inl e) | None \<Rightarrow> spawn_helper E helper_path) (\<lambda>spawned.
     thenP (closeP child_end)
       (case spawned of
          Inl reason \<Rightarrow>
            thenP (closeP parent_end) (returnP (Inl (''cannot start service helper: '' @ reason)))
        | Inr child \<Rightarrow>
            thenP (modifyP (\<lambda>w. w\<lparr>iprocess_id := child, isocket_fd := parent_end\<rparr>))
              (returnP (Inr ()))))))))"

definition start :: "invoker_env \<Rightarrow> (invoker_world, string + unit) prog" where
  "start E =
     bindP (currentExecutableSibling E kServiceHelperExecutable) (\<lambda>path.
     case path of
       Inl reason \<Rightarrow> returnP (Inl reason)
     | Inr helper_path \<Rightarrow>
         bindP (lookP (ie_socketpair E)) (\<lambda>sockets.
         case sockets of
           Inl reason \<Rightarrow> returnP (Inl (''cannot create service helper socket: '' @ reason))
         | Inr (first, second) \<Rightarrow>
             thenP (openP first) (thenP (openP second)
             (bindP (relocate E first second) (\<lambda>moved.
              case moved of
                Inl reason \<Rightarrow> returnP (Inl reason)
              | Inr first' \<Rightarrow>
                  bindP (relocate E second first') (\<lambda>moved.
                  case moved of
                    Inl reason \<Rightarrow> returnP (Inl reason)
                  | Inr second' \<Rightarrow> start_spawn E helper_path first' second'))))))"

text \<open>
  \<^verbatim>\<open>kill\<close> and \<^verbatim>\<open>waitpid\<close> are repeated while they are interrupted; a
  \<^verbatim>\<open>waitpid\<close> that ends otherwise has reaped the child or found that it has none.
\<close>

definition retry_interrupted :: "nat \<Rightarrow> invoker_env \<Rightarrow> (invoker_world, unit) prog" where
  "retry_interrupted fuel E =
     iterP fuel (\<lambda>_. bindP (lookP (ie_interrupted E)) (\<lambda>interrupted.
       returnP (if interrupted then Again () else Done ()))) ()"

definition terminateAndReap :: "nat \<Rightarrow> invoker_env \<Rightarrow> (invoker_world, unit) prog" where
  "terminateAndReap fuel E =
     bindP (getP isocket_fd) (\<lambda>fd.
     thenP (if fd \<ge> 0 then thenP (closeP fd) (modifyP (\<lambda>w. w\<lparr>isocket_fd := -1\<rparr>)) else returnP ())
     (bindP (getP iprocess_id) (\<lambda>pid.
      if pid \<le> 0 then returnP ()
      else thenP (retry_interrupted fuel E)
        (thenP (retry_interrupted fuel E)
          (modifyP (\<lambda>w. w\<lparr>iprocess_id := -1, ichildren := ichildren w - {#pid#}\<rparr>))))))"

section \<open>Permits and identifiers\<close>

text \<open>
  Every access to the counter comes after what the other calls did to it. A weak
  compare-and-exchange may also fail without a reason.
\<close>

definition others_on_permits :: "invoker_env \<Rightarrow> 32 word \<Rightarrow> invoker_world \<Rightarrow> permits" where
  "others_on_permits E maximum w = fold (other_call maximum) (ie_others E (stick w)) (ipermits w)"

definition load_in_flight :: "invoker_env \<Rightarrow> 32 word \<Rightarrow> (invoker_world, 32 word) prog" where
  "load_in_flight E maximum = (\<lambda>w.
     let p = others_on_permits E maximum w
     in Some (Inr (in_flight p), w\<lparr>stick := Suc (stick w), ipermits := p\<rparr>))"

definition compare_exchange_weak ::
  "invoker_env \<Rightarrow> 32 word \<Rightarrow> 32 word \<Rightarrow> (invoker_world, (32 word, bool) flow) prog" where
  "compare_exchange_weak E maximum current = (\<lambda>w.
     let p = others_on_permits E maximum w;
         w' = w\<lparr>stick := Suc (stick w)\<rparr>
     in if in_flight p = current \<and> \<not> ie_spurious E (stick w)
        then Some (Inr (Done True),
               w'\<lparr>ipermits := p\<lparr>in_flight := current + 1, own_permits := own_permits p + 1\<rparr>\<rparr>)
        else Some (Inr (Again (in_flight p)), w'\<lparr>ipermits := p\<rparr>))"

definition acquireInFlight :: "nat \<Rightarrow> invoker_env \<Rightarrow> 32 word \<Rightarrow> (invoker_world, bool) prog" where
  "acquireInFlight fuel E maximum =
     bindP (load_in_flight E maximum) (\<lambda>current.
       iterP fuel (\<lambda>current.
         if current \<ge> maximum then returnP (Done False)
         else compare_exchange_weak E maximum current) current)"

definition releaseInFlight :: "invoker_env \<Rightarrow> 32 word \<Rightarrow> (invoker_world, unit) prog" where
  "releaseInFlight E maximum = (\<lambda>w.
     let p = others_on_permits E maximum w
     in Some (Inr (), w\<lparr>stick := Suc (stick w),
          ipermits := p\<lparr>in_flight := in_flight p - 1, own_permits := own_permits p - 1\<rparr>\<rparr>))"

text \<open>The counter is shared too: other calls have taken some identifiers before each access.\<close>

definition fetch_add_id :: "invoker_env \<Rightarrow> (invoker_world, 64 word) prog" where
  "fetch_add_id E = (\<lambda>w.
     let selected = inext w + of_nat (ie_ids E (stick w))
     in Some (Inr selected, w\<lparr>stick := Suc (stick w), inext := selected + 1\<rparr>))"

definition nextRequestId :: "nat \<Rightarrow> invoker_env \<Rightarrow> (invoker_world, 64 word) prog" where
  "nextRequestId fuel E =
     iterP fuel (\<lambda>_. bindP (fetch_add_id E) (\<lambda>selected.
       returnP (if selected \<noteq> 0 then Done selected else Again ()))) ()"

section \<open>Input and output before the commit\<close>

datatype pre_commit_io = PreComplete | PreCancelled | PreDeadline | PreTransportError string

text \<open>The checks at the head of every round: cancelled, past the deadline, or neither.\<close>

definition pre_commit_stop ::
  "invoker_env \<Rightarrow> service_call_request \<Rightarrow> int \<Rightarrow> (invoker_world, pre_commit_io option) prog" where
  "pre_commit_stop E request deadline =
     bindP (cancellationRequested E request) (\<lambda>cancelled.
       if cancelled then returnP (Some PreCancelled)
       else bindP (deadlineExpired E (sr_deadline_unix_nanos request)) (\<lambda>expired.
         if expired then returnP (Some PreDeadline)
         else bindP (lookP (se_steady_now E)) (\<lambda>now.
           returnP (if now \<ge> deadline then Some PreDeadline else None))))"

definition waitPreCommitEvent_round ::
  "invoker_env \<Rightarrow> service_call_request \<Rightarrow> int \<Rightarrow> unit \<Rightarrow> (invoker_world, (unit, pre_commit_io) flow) prog" where
  "waitPreCommitEvent_round E request deadline = (\<lambda>_.
     bindP (pre_commit_stop E request deadline) (\<lambda>stop.
     case stop of
       Some result \<Rightarrow> returnP (Done result)
     | None \<Rightarrow> bindP (poll_for E deadline) (\<lambda>result.
         returnP (case result of
            PollInterrupted \<Rightarrow> Again ()
          | PollError reason \<Rightarrow> Done (PreTransportError reason)
          | PollTimeout \<Rightarrow> Again ()
          | PollEvents ready bad \<Rightarrow>
              if ready then Done PreComplete
              else if bad then Done (PreTransportError ''service helper disconnected'')
              else Again ()))))"

definition waitPreCommitEvent ::
  "nat \<Rightarrow> invoker_env \<Rightarrow> service_call_request \<Rightarrow> int \<Rightarrow> (invoker_world, pre_commit_io) prog" where
  "waitPreCommitEvent fuel E request deadline =
     iterP fuel (waitPreCommitEvent_round E request deadline) ()"

definition writePreCommit_round ::
  "nat \<Rightarrow> invoker_env \<Rightarrow> service_call_request \<Rightarrow> int \<Rightarrow> byte list \<Rightarrow>
   (invoker_world, (byte list, pre_commit_io) flow) prog" where
  "writePreCommit_round fuel E request deadline data =
     (if \<not> length data > 0 then returnP (Done PreComplete)
      else bindP (pre_commit_stop E request deadline) (\<lambda>stop.
      case stop of
        Some result \<Rightarrow> returnP (Done result)
      | None \<Rightarrow> bindP (sendP E data) (\<lambda>sent.
          case sent of
            Sent k \<Rightarrow> returnP (Again (drop k data))
          | SendEintr \<Rightarrow> returnP (Again data)
          | SentNothing \<Rightarrow> returnP (Done (PreTransportError ''service helper socket closed''))
          | SendFailed reason \<Rightarrow> returnP (Done (PreTransportError reason))
          | SendEagain \<Rightarrow> bindP (waitPreCommitEvent fuel E request deadline) (\<lambda>waited.
              returnP (if waited \<noteq> PreComplete then Done waited else Again data)))))"

definition writePreCommit ::
  "nat \<Rightarrow> invoker_env \<Rightarrow> byte list \<Rightarrow> service_call_request \<Rightarrow> int \<Rightarrow> (invoker_world, pre_commit_io) prog" where
  "writePreCommit fuel E data request deadline =
     iterP fuel (writePreCommit_round fuel E request deadline) data"

definition readPreCommit_round ::
  "nat \<Rightarrow> invoker_env \<Rightarrow> nat \<Rightarrow> service_call_request \<Rightarrow> int \<Rightarrow> byte list \<Rightarrow>
   (invoker_world, (byte list, pre_commit_io \<times> byte list) flow) prog" where
  "readPreCommit_round fuel E len request deadline got =
     (if \<not> len - length got > 0 then returnP (Done (PreComplete, got))
      else bindP (pre_commit_stop E request deadline) (\<lambda>stop.
      case stop of
        Some result \<Rightarrow> returnP (Done (result, got))
      | None \<Rightarrow> bindP (recvP E (len - length got)) (\<lambda>received.
          case received of
            Received data \<Rightarrow> returnP (Again (got @ data))
          | RecvEof \<Rightarrow> returnP (Done (PreTransportError ''service helper disconnected'', got))
          | RecvEintr \<Rightarrow> returnP (Again got)
          | RecvFailed reason \<Rightarrow> returnP (Done (PreTransportError reason, got))
          | RecvEagain \<Rightarrow> bindP (waitPreCommitEvent fuel E request deadline) (\<lambda>waited.
              returnP (if waited \<noteq> PreComplete then Done (waited, got) else Again got)))))"

definition readPreCommit ::
  "nat \<Rightarrow> invoker_env \<Rightarrow> nat \<Rightarrow> service_call_request \<Rightarrow> int \<Rightarrow>
   (invoker_world, pre_commit_io \<times> byte list) prog" where
  "readPreCommit fuel E len request deadline =
     iterP fuel (readPreCommit_round fuel E len request deadline) []"

fun failPreCommit :: "pre_commit_io \<Rightarrow> 'a result" where
  "failPreCommit PreCancelled =
     cancelledError ''service_call_cancelled'' ''ROS1 service call was cancelled before dispatch''"
| "failPreCommit PreDeadline =
     deadlineError ''service_deadline_elapsed'' ''ROS1 service deadline elapsed before dispatch''"
| "failPreCommit (PreTransportError transport_error) =
     transientError ''service_helper_unavailable''
       (''ROS1 service helper failed before dispatch: '' @ transport_error)"
| "failPreCommit PreComplete =
     transientError ''service_helper_unavailable'' ''ROS1 service helper failed before dispatch''"

section \<open>Input after the commit\<close>

datatype post_commit_io =
  PostComplete | PostCancelled | PostRuntimeDeadline | PostCallTimeout | PostTransportError string

definition post_commit_stop ::
  "invoker_env \<Rightarrow> service_call_request \<Rightarrow> int \<Rightarrow> int \<Rightarrow> (invoker_world, post_commit_io option) prog" where
  "post_commit_stop E request runtime_deadline call_deadline =
     bindP (cancellationRequested E request) (\<lambda>cancelled.
       if cancelled then returnP (Some PostCancelled)
       else bindP (lookP (se_steady_now E)) (\<lambda>now.
         bindP (deadlineExpired E (sr_deadline_unix_nanos request)) (\<lambda>expired.
           returnP (if expired \<or> now \<ge> runtime_deadline then Some PostRuntimeDeadline
                    else if now \<ge> call_deadline then Some PostCallTimeout
                    else None))))"

definition readPostCommit_round ::
  "invoker_env \<Rightarrow> nat \<Rightarrow> service_call_request \<Rightarrow> int \<Rightarrow> int \<Rightarrow> byte list \<Rightarrow>
   (invoker_world, (byte list, post_commit_io \<times> byte list) flow) prog" where
  "readPostCommit_round E len request runtime_deadline call_deadline got =
     bindP (post_commit_stop E request runtime_deadline call_deadline) (\<lambda>stop.
     case stop of
       Some result \<Rightarrow> returnP (Done (result, got))
     | None \<Rightarrow>
         if \<not> len - length got > 0 then returnP (Done (PostComplete, got))
         else bindP (recvP E (len - length got)) (\<lambda>received.
           case received of
             Received data \<Rightarrow> returnP (Again (got @ data))
           | RecvEof \<Rightarrow> returnP (Done (PostTransportError ''service helper disconnected'', got))
           | RecvEintr \<Rightarrow> returnP (Again got)
           | RecvFailed reason \<Rightarrow> returnP (Done (PostTransportError reason, got))
           | RecvEagain \<Rightarrow> bindP (poll_for E (min runtime_deadline call_deadline)) (\<lambda>result.
               returnP (case result of
                  PollInterrupted \<Rightarrow> Again got
                | PollError reason \<Rightarrow> Done (PostTransportError reason, got)
                | PollTimeout \<Rightarrow> Again got
                | PollEvents ready bad \<Rightarrow>
                    if ready then Again got
                    else if bad then Done (PostTransportError ''service helper disconnected'', got)
                    else Again got))))"

definition readPostCommit ::
  "nat \<Rightarrow> invoker_env \<Rightarrow> nat \<Rightarrow> service_call_request \<Rightarrow> int \<Rightarrow> int \<Rightarrow>
   (invoker_world, post_commit_io \<times> byte list) prog" where
  "readPostCommit fuel E len request runtime_deadline call_deadline =
     iterP fuel (readPostCommit_round E len request runtime_deadline call_deadline) []"

definition quoted :: "string \<Rightarrow> string" where
  "quoted text = [CHR 0x27] @ text @ [CHR 0x27]"

fun failPostCommit :: "post_commit_io \<Rightarrow> string \<Rightarrow> 'a result" where
  "failPostCommit PostCancelled service =
     uncertainError ''service_call_cancelled''
       (''ROS1 service call to '' @ quoted service @
        '' was cancelled after commit; the server may have executed the request'')"
| "failPostCommit PostRuntimeDeadline service =
     uncertainError ''service_deadline_elapsed''
       (''ROS1 service call to '' @ quoted service @
        '' crossed its Runtime deadline after commit; the server may have executed the request'')"
| "failPostCommit PostCallTimeout service =
     uncertainError ''service_call_timeout''
       (''ROS1 service call to '' @ quoted service @
        '' exceeded callTimeoutMs after commit; the server may have executed the request'')"
| "failPostCommit (PostTransportError transport_error) service =
     uncertainError ''service_call_failed''
       (''ROS1 service helper failed after commit for '' @ quoted service @ '': '' @ transport_error)"
| "failPostCommit PostComplete service =
     uncertainError ''service_call_failed''
       (''ROS1 service helper failed after commit for '' @ quoted service)"

section \<open>The call\<close>

definition serializeServiceRequest :: "'t babel_fish \<Rightarrow> msg \<Rightarrow> byte list result" where
  "serializeServiceRequest B message =
     (let payload_size = bf_sizeInBytes B message in
      if payload_size > kMaximumServicePayloadBytes \<or> payload_size > 4294967295
      then permanentError ''service_request_too_large''
             ''serialized ROS1 service request exceeds the helper limit''
      else if payload_size = 0 then Inr []
      else let written = bf_writeToStream B message in
        if length written \<noteq> payload_size
        then permanentError ''service_request_serialization_failed''
               ''serialized ROS1 service request length changed''
        else Inr written)"

definition ServiceInvoker :: "32 word \<Rightarrow> 32 word result" where
  "ServiceInvoker maximum_in_flight =
     (if maximum_in_flight = 0
      then permanentError ''invalid_configuration''
             ''maximum in-flight service calls must be greater than zero''
      else Inr maximum_in_flight)"

definition string_bytes :: "string \<Rightarrow> byte list" where
  "string_bytes text = map (\<lambda>c. of_nat (of_char c)) text"

text \<open>A failure on the way: the helper is reaped, then the error is thrown.\<close>

definition abandon :: "nat \<Rightarrow> invoker_env \<Rightarrow> 'a result \<Rightarrow> (invoker_world, 'a) prog" where
  "abandon fuel E failure = thenP (terminateAndReap fuel E) (liftP failure)"

definition send_precommit ::
  "nat \<Rightarrow> invoker_env \<Rightarrow> service_call_request \<Rightarrow> int \<Rightarrow> byte list \<Rightarrow> (invoker_world, unit) prog" where
  "send_precommit fuel E request runtime_deadline data =
     bindP (writePreCommit fuel E data request runtime_deadline) (\<lambda>result.
       if result \<noteq> PreComplete then abandon fuel E (failPreCommit result) else returnP ())"

definition judge_ready ::
  "nat \<Rightarrow> invoker_env \<Rightarrow> service_call_request \<Rightarrow> 64 word \<Rightarrow> frame \<Rightarrow> (invoker_world, unit) prog" where
  "judge_ready fuel E request rid ready =
     (if \<not> validateServiceHelperReady ready rid
      then abandon fuel E (transientError ''service_helper_protocol_error''
             ''ROS1 service helper returned an invalid pre-commit frame'')
      else if status ready = ready_status_code ReadyServiceUnavailable
      then abandon fuel E (transientError ''service_unavailable''
             (''ROS1 service '' @ quoted (sr_service request) @
              '' was not available before waitForServiceMs elapsed''))
      else if status ready \<noteq> ready_status_code ReadyReady
      then abandon fuel E (transientError ''service_helper_protocol_error''
             ''ROS1 service helper rejected the pre-commit request'')
      else returnP ())"

definition await_ready ::
  "nat \<Rightarrow> invoker_env \<Rightarrow> service_call_request \<Rightarrow> int \<Rightarrow> 64 word \<Rightarrow> (invoker_world, unit) prog" where
  "await_ready fuel E request runtime_deadline rid =
     bindP (readPreCommit fuel E frame_size request runtime_deadline) (\<lambda>(ready_result, bytes).
       if ready_result \<noteq> PreComplete then abandon fuel E (failPreCommit ready_result)
       else judge_ready fuel E request rid (frame_of_bytes bytes))"

definition read_postcommit ::
  "nat \<Rightarrow> invoker_env \<Rightarrow> service_call_request \<Rightarrow> int \<Rightarrow> int \<Rightarrow> nat \<Rightarrow> (invoker_world, byte list) prog" where
  "read_postcommit fuel E request runtime_deadline call_deadline len =
     bindP (readPostCommit fuel E len request runtime_deadline call_deadline) (\<lambda>(result, bytes).
       if result \<noteq> PostComplete then abandon fuel E (failPostCommit result (sr_service request))
       else returnP bytes)"

definition read_response ::
  "nat \<Rightarrow> invoker_env \<Rightarrow> service_call_request \<Rightarrow> int \<Rightarrow> 64 word \<Rightarrow> (invoker_world, frame \<times> byte list) prog"
  where
  "read_response fuel E request runtime_deadline rid =
     bindP (lookP (se_steady_now E)) (\<lambda>now.
     let call_deadline = now + milliseconds (sr_call_timeout_ms request) in
     bindP (read_postcommit fuel E request runtime_deadline call_deadline frame_size) (\<lambda>bytes.
     let response = frame_of_bytes bytes in
     if \<not> validateServiceHelperResponse response rid
     then abandon fuel E (uncertainError ''invalid_service_response''
            ''ROS1 service helper returned an invalid post-commit frame'')
     else bindP (if payload_bytes response = 0 then returnP []
            else read_postcommit fuel E request runtime_deadline call_deadline (unat (payload_bytes response)))
       (\<lambda>response_payload.
         thenP (terminateAndReap fuel E) (returnP (response, response_payload)))))"

text \<open>
  The response message, by the template the description carries. \<^verbatim>\<open>createServiceResponse\<close>
  has checked in \<open>prepare_call\<close> below that there is one, so the branch without it is not reached.
\<close>

definition decode_response ::
  "'t babel_fish \<Rightarrow> codec_limits \<Rightarrow> service_call_request \<Rightarrow> 't service_description \<Rightarrow> frame \<Rightarrow> byte list \<Rightarrow> json result"
  where
  "decode_response B limits request description response response_payload =
     (if status response = response_status_code RespCallFailed
      then uncertainError ''service_call_failed''
             (''ROS1 service call to '' @ quoted (sr_service request) @ '' failed after commit'')
      else if status response = response_status_code RespResponseTooLarge
      then uncertainError ''service_response_too_large''
             ''ROS1 service response exceeded the helper limit after commit''
      else if status response \<noteq> response_status_code RespCompleted
      then uncertainError ''invalid_service_response'' ''ROS1 service helper failed after commit''
      else case template_of (service_response description) of
        None \<Rightarrow> Inl UnknownException
      | Some t \<Rightarrow>
          bindE (bf_createMessageFromTemplate B t response_payload) (\<lambda>(dynamic_response, bytes_read).
            case dynamic_response of
              None \<Rightarrow> uncertainError ''invalid_service_response''
                        ''ROS1 service response length did not match its type''
            | Some message \<Rightarrow>
                if bytes_read \<noteq> length response_payload
                then uncertainError ''invalid_service_response''
                       ''ROS1 service response length did not match its type''
                else encode limits message))"

definition milliseconds_between :: "int \<Rightarrow> int \<Rightarrow> 64 word" where
  "milliseconds_between started_at now = of_int ((now - started_at) sdiv 1000000)"

definition complete_call ::
  "nat \<Rightarrow> invoker_env \<Rightarrow> 't babel_fish \<Rightarrow> codec_limits \<Rightarrow> service_call_request \<Rightarrow>
   't service_description \<Rightarrow> int \<Rightarrow> int \<Rightarrow> 64 word \<Rightarrow> (invoker_world, service_call_result) prog" where
  "complete_call fuel E B limits request description started_at runtime_deadline rid =
     bindP (read_response fuel E request runtime_deadline rid) (\<lambda>(response, response_payload).
     bindP (liftP (decode_response B limits request description response response_payload)) (\<lambda>decoded.
     bindP (lookP (se_steady_now E)) (\<lambda>now.
     returnP \<lparr>sres_service = sr_service request, sres_service_type = sr_service_type request,
       sres_response = decoded, sres_duration_ms = milliseconds_between started_at now\<rparr>)))"

text \<open>The handlers of the part after the commit.\<close>

definition completion_failed :: "exn \<Rightarrow> 'a result" where
  "completion_failed e =
     (case e of
        Ros1ToolsError code cls message \<Rightarrow>
          if cls = ''uncertain'' then Inl e
          else uncertainError ''service_result_failed''
                 (''ROS1 service processing failed after commit: '' @ message)
      | StdException message \<Rightarrow>
          uncertainError ''service_result_failed''
            (''ROS1 service processing failed after commit: '' @ message)
      | UnknownException \<Rightarrow>
          uncertainError ''service_result_failed'' ''ROS1 service processing failed after commit'')"

definition commit_and_complete ::
  "nat \<Rightarrow> invoker_env \<Rightarrow> 't babel_fish \<Rightarrow> codec_limits \<Rightarrow> service_call_request \<Rightarrow>
   't service_description \<Rightarrow> int \<Rightarrow> int \<Rightarrow> 64 word \<Rightarrow> (invoker_world, service_call_result) prog" where
  "commit_and_complete fuel E B limits request description started_at runtime_deadline rid =
     thenP (requirePreDispatchAllowed E request)
     (thenP (send_precommit fuel E request runtime_deadline (frame_bytes (makeServiceHelperCommit rid)))
       (catchP (complete_call fuel E B limits request description started_at runtime_deadline rid)
         (\<lambda>e. liftP (completion_failed e))))"

definition exchange ::
  "nat \<Rightarrow> invoker_env \<Rightarrow> 't babel_fish \<Rightarrow> codec_limits \<Rightarrow> service_call_request \<Rightarrow>
   't service_description \<Rightarrow> byte list \<Rightarrow> int \<Rightarrow> (invoker_world, service_call_result) prog" where
  "exchange fuel E B limits request description request_payload started_at =
     bindP (runtimeDeadline E (sr_deadline_unix_nanos request)) (\<lambda>runtime_deadline.
     bindP (nextRequestId fuel E) (\<lambda>rid.
     let request_frame = makeServiceHelperRequest rid (of_nat (length (sr_service request)))
           (of_nat (length (service_md5 description))) (of_nat (length request_payload))
           (sr_wait_for_service_ms request)
     in thenP (send_precommit fuel E request runtime_deadline (frame_bytes request_frame))
       (thenP (send_precommit fuel E request runtime_deadline (string_bytes (sr_service request)))
       (thenP (send_precommit fuel E request runtime_deadline (string_bytes (service_md5 description)))
       (thenP (if request_payload \<noteq> []
               then send_precommit fuel E request runtime_deadline request_payload else returnP ())
       (thenP (await_ready fuel E request runtime_deadline rid)
         (commit_and_complete fuel E B limits request description started_at runtime_deadline rid)))))))"

definition with_helper ::
  "nat \<Rightarrow> invoker_env \<Rightarrow> 't babel_fish \<Rightarrow> codec_limits \<Rightarrow> service_call_request \<Rightarrow>
   't service_description \<Rightarrow> byte list \<Rightarrow> int \<Rightarrow> (invoker_world, service_call_result) prog" where
  "with_helper fuel E B limits request description request_payload started_at =
     thenP (modifyP (\<lambda>w. w\<lparr>iprocess_id := -1, isocket_fd := -1\<rparr>))
     (finallyP
       (bindP (start E) (\<lambda>started.
          case started of
            Inl transport_error \<Rightarrow>
              thenP (requirePreDispatchAllowed E request)
                (liftP (transientError ''service_helper_unavailable''
                   (''unable to start ROS1 service helper: '' @ transport_error)))
          | Inr _ \<Rightarrow> exchange fuel E B limits request description request_payload started_at))
       (terminateAndReap fuel E))"

definition prepare_call ::
  "'t babel_fish \<Rightarrow> jsoncpp \<Rightarrow> ros_time_api \<Rightarrow> codec_limits \<Rightarrow> service_call_request \<Rightarrow>
   ('t service_description \<times> byte list) result" where
  "prepare_call B J R limits request =
     bindE (resolveService B (sr_service_type request)) (\<lambda>description.
     bindE (createServiceRequest B (Some description)) (\<lambda>blank.
     bindE (createServiceResponse B (Some description)) (\<lambda>_.
     bindE (decode J R limits (sr_request request) blank) (\<lambda>message.
     bindE (serializeServiceRequest B message) (\<lambda>payload.
     Inr (description, payload))))))"

definition call ::
  "nat \<Rightarrow> invoker_env \<Rightarrow> 't babel_fish \<Rightarrow> jsoncpp \<Rightarrow> ros_time_api \<Rightarrow> codec_limits \<Rightarrow> 32 word \<Rightarrow>
   service_call_request \<Rightarrow> (invoker_world, service_call_result) prog" where
  "call fuel E B J R limits maximum request =
     bindP (lookP (se_steady_now E)) (\<lambda>started_at.
     thenP (requirePreDispatchAllowed E request)
     (bindP (liftP (prepare_call B J R limits request)) (\<lambda>(description, request_payload).
      thenP (requirePreDispatchAllowed E request)
      (if \<not> validServiceMd5 (service_md5 description)
       then liftP (permanentError ''invalid_service_description''
              ''ROS1 service description has an invalid MD5 digest'')
       else if sr_service request = [] \<or> length (sr_service request) > kMaximumServiceNameBytes
       then liftP (permanentError ''invalid_service_name''
              ''ROS1 service name exceeds the helper protocol limit'')
       else bindP (acquireInFlight fuel E maximum) (\<lambda>acquired.
         if \<not> acquired
         then liftP (resourceExhaustedError ''service_call_busy''
                ''maximum concurrent ROS1 service calls reached'')
         else finallyP
           (with_helper fuel E B limits request description request_payload started_at)
           (releaseInFlight E maximum))))))"

end
