(* ===== verification/Service_Call.thy ===== *)
theory Service_Call
  imports Service_Invoker
begin

text \<open>
  What a service call guarantees: which bytes the helper has been sent when the call fails or
  succeeds and how the error is classified, that the helper, its descriptors and the permit
  are given back, that the calls in flight stay within the maximum under any interleaving, how
  long it can wait, and what its result is.
\<close>

section \<open>Rules for the parts of the exchange\<close>

definition polls_bounded :: "invoker_world \<Rightarrow> bool" where
  "polls_bounded w \<longleftrightarrow> (\<forall>timeout \<in> set (itimeouts w). 0 \<le> timeout \<and> timeout \<le> kCancellationPollInterval)"

text \<open>Steps that only move bytes and look at the clocks.\<close>

definition io_frame :: "invoker_world \<Rightarrow> invoker_world \<Rightarrow> bool" where
  "io_frame w v \<longleftrightarrow> iprocess_id v = iprocess_id w \<and> isocket_fd v = isocket_fd w \<and>
     iopen v = iopen w \<and> ichildren v = ichildren w \<and> ispawned v = ispawned w \<and>
     ipermits v = ipermits w \<and> inext v = inext w \<and> (polls_bounded w \<longrightarrow> polls_bounded v)"

definition still :: "invoker_world \<Rightarrow> invoker_world \<Rightarrow> bool" where
  "still w v \<longleftrightarrow> io_frame w v \<and> ssent v = ssent w \<and> sinput v = sinput w"

lemmas frame_defs = io_frame_def still_def

lemma polls_bounded_updates [simp]:
  "polls_bounded (w\<lparr>stick := k\<rparr>) = polls_bounded w"
  "polls_bounded (w\<lparr>sinput := input\<rparr>) = polls_bounded w"
  "polls_bounded (w\<lparr>ssent := sent\<rparr>) = polls_bounded w"
  "polls_bounded (w\<lparr>ipermits := p\<rparr>) = polls_bounded w"
  by (simp_all add: polls_bounded_def)

text \<open>Updates of the helper object in the order of the fields.\<close>

lemma invoker_updates [simp]:
  "w\<lparr>iopen := fds, isocket_fd := fd\<rparr> = w\<lparr>isocket_fd := fd, iopen := fds\<rparr>"
  "w\<lparr>ichildren := pids, iprocess_id := pid\<rparr> = w\<lparr>iprocess_id := pid, ichildren := pids\<rparr>"
  by simp_all

lemma still_refl: "still w w"
  by (simp add: frame_defs)

lemma poll_timeout_bounds: "0 \<le> poll_timeout_at deadline now \<and> poll_timeout_at deadline now \<le> kCancellationPollInterval"
  by (simp add: poll_timeout_at_def Let_def kCancellationPollInterval_def)

lemma cancellationRequested_vc:
  "(\<And>b v. still w v \<Longrightarrow> Q b v) \<Longrightarrow> wp (cancellationRequested E request) Q X w"
  by (simp add: cancellationRequested_def wp_simps frame_defs)

lemma deadlineExpired_vc:
  "(\<And>b v. still w v \<Longrightarrow> Q b v) \<Longrightarrow> wp (deadlineExpired E deadline) Q X w"
  by (simp add: deadlineExpired_def wp_simps frame_defs)

lemma require_vc:
  "(\<And>v. still w v \<Longrightarrow> Q () v) \<Longrightarrow> (\<And>e v. still w v \<Longrightarrow> \<not> uncertain e \<Longrightarrow> X e v) \<Longrightarrow>
   wp (requirePreDispatchAllowed E request) Q X w"
  by (simp add: requirePreDispatchAllowed_def cancellationRequested_def deadlineExpired_def
      wp_simps frame_defs error_defs uncertain_def)

lemma pre_commit_stop_vc:
  "(\<And>r v. still w v \<Longrightarrow> r \<noteq> Some PreComplete \<Longrightarrow> Q r v) \<Longrightarrow>
   wp (pre_commit_stop E request deadline) Q X w"
  by (simp add: pre_commit_stop_def cancellationRequested_def deadlineExpired_def wp_simps frame_defs)

lemma post_commit_stop_vc:
  "(\<And>r v. still w v \<Longrightarrow> r \<noteq> Some PostComplete \<Longrightarrow> Q r v) \<Longrightarrow>
   wp (post_commit_stop E request runtime_deadline call_deadline) Q X w"
  by (simp add: post_commit_stop_def cancellationRequested_def deadlineExpired_def wp_simps frame_defs)

lemma poll_for_vc: "(\<And>r v. still w v \<Longrightarrow> Q r v) \<Longrightarrow> wp (poll_for E deadline) Q X w"
  using poll_timeout_bounds [of deadline]
  by (simp add: poll_for_def pollTimeout_def wp_simps frame_defs polls_bounded_def ball_Un
      kCancellationPollInterval_def)

lemma waitPreCommitEvent_vc:
  assumes "\<And>r v. still w v \<Longrightarrow> Q r v"
  shows "wp (waitPreCommitEvent fuel E request deadline) Q X w"
  unfolding waitPreCommitEvent_def
proof (rule wp_iter [where I = "\<lambda>_. still w"])
  fix a v
  assume v: "still w v"
  have "still w v''" if "still v v'" "still v' v''" for v' v''
    using v that by (auto simp: frame_defs)
  moreover have "still w v'" if "still v v'" for v'
    using v that by (auto simp: frame_defs)
  ultimately show "wp (waitPreCommitEvent_round E request deadline a)
     (\<lambda>r s'. case r of Again a' \<Rightarrow> still w s' | Done b \<Rightarrow> Q b s') X v"
    unfolding waitPreCommitEvent_round_def
    using assms
    by (auto simp: wp_simps intro!: pre_commit_stop_vc poll_for_vc split: option.splits poll_answer.splits)
qed (simp add: still_refl)

lemma writePreCommit_vc:
  assumes complete: "\<And>v. io_frame w v \<Longrightarrow> sinput v = sinput w \<Longrightarrow> ssent v = ssent w @ data \<Longrightarrow> Q PreComplete v"
    and partial: "\<And>r v j. io_frame w v \<Longrightarrow> sinput v = sinput w \<Longrightarrow> r \<noteq> PreComplete \<Longrightarrow> j < length data \<Longrightarrow>
      ssent v = ssent w @ take j data \<Longrightarrow> Q r v"
  shows "wp (writePreCommit fuel E data request deadline) Q X w"
proof -
  define I where "I = (\<lambda>rest v. io_frame w v \<and> sinput v = sinput w \<and>
    (\<exists>j \<le> length data. rest = drop j data \<and> ssent v = ssent w @ take j data))"
  have step: "I rest v'" if "I rest v" "still v v'" for rest v v'
    using that by (auto simp: I_def frame_defs)
  have sent: "I (drop k rest) (v\<lparr>stick := t, ssent := ssent v @ take k rest\<rparr>)" if inv: "I rest v" for k t rest v
  proof -
    obtain j where j: "j \<le> length data" "rest = drop j data" "ssent v = ssent w @ take j data"
      using inv by (auto simp: I_def)
    have "ssent v @ take k rest = ssent w @ take (min (length data) (j + k)) data"
      "drop k rest = drop (min (length data) (j + k)) data"
      using j by (auto simp: take_add min_def add.commute)
    then show ?thesis using inv
      by (auto simp: I_def io_frame_def intro!: exI [of _ "min (length data) (j + k)"])
  qed
  have finished: "Q PreComplete v" if "I [] v" for v
    using that complete by (auto simp: I_def)
  have failed: "Q r v" if inv: "I rest v" "rest \<noteq> []" "r \<noteq> PreComplete" for r rest v
  proof -
    obtain j where j: "j \<le> length data" "rest = drop j data" "ssent v = ssent w @ take j data"
      using inv(1) by (auto simp: I_def)
    then show ?thesis using inv partial [of v r j] by (auto simp: I_def)
  qed
  show ?thesis
    unfolding writePreCommit_def
  proof (rule wp_iter [where I = I])
    show "I data w" by (auto simp: I_def io_frame_def intro!: exI [of _ 0])
  next
    fix rest v
    assume inv: "I rest v"
    show "wp (writePreCommit_round fuel E request deadline rest)
        (\<lambda>r s'. case r of Again a' \<Rightarrow> I a' s' | Done b \<Rightarrow> Q b s') X v"
    proof (cases "rest = []")
      case True
      then show ?thesis using finished inv by (simp add: writePreCommit_round_def wp_simps)
    next
      case False
      have sending: "wp (sendP E rest) (\<lambda>x. wp (case x of
            Sent k \<Rightarrow> returnP (Again (drop k rest))
          | SendEintr \<Rightarrow> returnP (Again rest)
          | SentNothing \<Rightarrow> returnP (Done (PreTransportError ''service helper socket closed''))
          | SendFailed reason \<Rightarrow> returnP (Done (PreTransportError reason))
          | SendEagain \<Rightarrow> bindP (waitPreCommitEvent fuel E request deadline) (\<lambda>waited.
              returnP (if waited \<noteq> PreComplete then Done waited else Again rest)))
          (\<lambda>r s'. case r of Again a' \<Rightarrow> I a' s' | Done b \<Rightarrow> Q b s') X) X v'" if "I rest v'" for v'
        apply (rule send_vc)
        using sent [OF that] apply (simp add: wp_simps)
        subgoal for r
          using that step [OF that] step failed [OF _ False]
          by (cases r) (auto simp: wp_simps frame_defs intro!: waitPreCommitEvent_vc)
        done
      show ?thesis
        unfolding writePreCommit_round_def
        using False sending step [OF inv] failed [OF _ False]
        by (auto simp: wp_simps intro!: pre_commit_stop_vc split: option.splits)
    qed
  qed
qed

text \<open>
  A read keeps an invariant of what it has got: the input is that and what is left. The two
  readers share the rule for one \<^verbatim>\<open>recv\<close>.
\<close>

definition reading :: "invoker_world \<Rightarrow> nat \<Rightarrow> byte list \<Rightarrow> invoker_world \<Rightarrow> bool" where
  "reading w len got v \<longleftrightarrow>
     io_frame w v \<and> ssent v = ssent w \<and> length got \<le> len \<and> sinput w = got @ sinput v"

lemma reading_start: "reading w len [] w"
  by (simp add: reading_def io_frame_def)

lemma reading_still: "reading w len got v \<Longrightarrow> still v v' \<Longrightarrow> reading w len got v'"
  by (auto simp: reading_def frame_defs)

lemma reading_recv:
  assumes "reading w len got v"
    and "\<And>data v'. reading w len (got @ data) v' \<Longrightarrow> Q (Received data) v'"
    and "\<And>r v'. reading w len got v' \<Longrightarrow> r \<notin> range Received \<Longrightarrow> Q r v'"
  shows "wp (recvP E (len - length got)) Q X v"
proof (rule recv_vc)
  fix data rest
  assume "data \<noteq> []" and "length data \<le> len - length got" and "sinput v = data @ rest"
  then have "reading w len (got @ data) (v\<lparr>stick := Suc (stick v), sinput := rest\<rparr>)"
    using assms(1) by (auto simp: reading_def io_frame_def)
  then show "Q (Received data) (v\<lparr>stick := Suc (stick v), sinput := rest\<rparr>)" by (rule assms(2))
next
  fix r
  assume "r \<notin> range Received"
  moreover have "reading w len got (v\<lparr>stick := Suc (stick v)\<rparr>)"
    using assms(1) by (auto simp: reading_def io_frame_def)
  ultimately show "Q r (v\<lparr>stick := Suc (stick v)\<rparr>)" by (intro assms(3))
qed

lemma readPreCommit_vc:
  assumes complete: "\<And>data v. reading w len data v \<Longrightarrow> length data = len \<Longrightarrow> Q (PreComplete, data) v"
    and partial: "\<And>r data v. reading w len data v \<Longrightarrow> r \<noteq> PreComplete \<Longrightarrow> Q (r, data) v"
  shows "wp (readPreCommit fuel E len request deadline) Q X w"
  unfolding readPreCommit_def
proof (rule wp_iter [where I = "reading w len", OF reading_start])
  fix got v
  assume inv: "reading w len got v"
  have receiving: "wp (recvP E (len - length got)) (\<lambda>received. wp (case received of
            Received data \<Rightarrow> returnP (Again (got @ data))
          | RecvEof \<Rightarrow> returnP (Done (PreTransportError ''service helper disconnected'', got))
          | RecvEintr \<Rightarrow> returnP (Again got)
          | RecvFailed reason \<Rightarrow> returnP (Done (PreTransportError reason, got))
          | RecvEagain \<Rightarrow> bindP (waitPreCommitEvent fuel E request deadline) (\<lambda>waited.
              returnP (if waited \<noteq> PreComplete then Done (waited, got) else Again got)))
      (\<lambda>r s'. case r of Again a' \<Rightarrow> reading w len a' s' | Done b \<Rightarrow> Q b s') X) X v'"
    if "reading w len got v'" for v'
    apply (rule reading_recv [OF that])
     apply (simp add: wp_simps)
    subgoal for r
      using partial reading_still
      by (cases r) (auto simp: wp_simps intro!: waitPreCommitEvent_vc)
    done
  show "wp (readPreCommit_round fuel E len request deadline got)
     (\<lambda>r s'. case r of Again a' \<Rightarrow> reading w len a' s' | Done b \<Rightarrow> Q b s') X v"
  proof (cases "length got < len")
    case True
    then show ?thesis
      unfolding readPreCommit_round_def
      using receiving reading_still [OF inv]
      by (auto simp: wp_simps intro!: pre_commit_stop_vc partial split: option.splits)
  next
    case False
    then have "length got = len" using inv by (simp add: reading_def)
    then show ?thesis using complete [OF inv] False by (simp add: readPreCommit_round_def wp_simps)
  qed
qed

lemma readPostCommit_vc:
  assumes complete: "\<And>data v. reading w len data v \<Longrightarrow> length data = len \<Longrightarrow> Q (PostComplete, data) v"
    and partial: "\<And>r data v. reading w len data v \<Longrightarrow> r \<noteq> PostComplete \<Longrightarrow> Q (r, data) v"
  shows "wp (readPostCommit fuel E len request runtime_deadline call_deadline) Q X w"
  unfolding readPostCommit_def
proof (rule wp_iter [where I = "reading w len", OF reading_start])
  fix got v
  assume inv: "reading w len got v"
  have len: "length got = len" if "\<not> length got < len" using inv that by (simp add: reading_def)
  have receiving: "wp (recvP E (len - length got)) (\<lambda>received. wp (case received of
            Received data \<Rightarrow> returnP (Again (got @ data))
          | RecvEof \<Rightarrow> returnP (Done (PostTransportError ''service helper disconnected'', got))
          | RecvEintr \<Rightarrow> returnP (Again got)
          | RecvFailed reason \<Rightarrow> returnP (Done (PostTransportError reason, got))
          | RecvEagain \<Rightarrow> bindP (poll_for E (min runtime_deadline call_deadline)) (\<lambda>result.
               returnP (case result of
                  PollInterrupted \<Rightarrow> Again got
                | PollError reason \<Rightarrow> Done (PostTransportError reason, got)
                | PollTimeout \<Rightarrow> Again got
                | PollEvents ready bad \<Rightarrow>
                    if ready then Again got
                    else if bad then Done (PostTransportError ''service helper disconnected'', got)
                    else Again got)))
      (\<lambda>r s'. case r of Again a' \<Rightarrow> reading w len a' s' | Done b \<Rightarrow> Q b s') X) X v'"
    if "reading w len got v'" for v'
    apply (rule reading_recv [OF that])
     apply (simp add: wp_simps)
    subgoal for r
      using partial reading_still
      by (cases r) (auto simp: wp_simps intro!: poll_for_vc split: poll_answer.splits)
    done
  show "wp (readPostCommit_round E len request runtime_deadline call_deadline got)
     (\<lambda>r s'. case r of Again a' \<Rightarrow> reading w len a' s' | Done b \<Rightarrow> Q b s') X v"
    unfolding readPostCommit_round_def
    using receiving reading_still [OF inv] len
    by (auto simp: wp_simps intro!: post_commit_stop_vc partial complete split: option.splits)
qed

section \<open>The helper process\<close>

text \<open>
  The descriptors and children the process had before are \<open>fds\<close> and \<open>pids\<close>; on top of
  them it has what the helper object records.
\<close>

definition held :: "int multiset \<Rightarrow> int multiset \<Rightarrow> invoker_world \<Rightarrow> bool" where
  "held fds pids w \<longleftrightarrow>
     iopen w = fds + (if 0 \<le> isocket_fd w then {#isocket_fd w#} else {#}) \<and>
     ichildren w = pids + (if 0 < iprocess_id w then {#iprocess_id w#} else {#})"

text \<open>What POSIX promises of the numbers: descriptors are not negative, children are positive.\<close>

definition posix_numbers :: "invoker_env \<Rightarrow> bool" where
  "posix_numbers E \<longleftrightarrow>
     (\<forall>t a b. ie_socketpair E t = Inr (a, b) \<longrightarrow> 0 \<le> a \<and> 0 \<le> b) \<and>
     (\<forall>t fd. ie_dupfd E t = Inr fd \<longrightarrow> 0 \<le> fd) \<and>
     (\<forall>t pid. ie_spawn E t = Inr pid \<longrightarrow> 0 < pid)"

definition call_frame :: "invoker_env \<Rightarrow> invoker_world \<Rightarrow> invoker_world \<Rightarrow> bool" where
  "call_frame E w v \<longleftrightarrow>
     (\<forall>fds pids. posix_numbers E \<longrightarrow> held fds pids w \<longrightarrow> held fds pids v) \<and>
     ipermits v = ipermits w \<and> (polls_bounded w \<longrightarrow> polls_bounded v)"

lemma call_frameD: "call_frame E w v \<Longrightarrow> ipermits v = ipermits w \<and> (polls_bounded w \<longrightarrow> polls_bounded v)"
  by (simp add: call_frame_def)

lemma call_frame_refl: "call_frame E w w"
  by (simp add: call_frame_def)

lemma call_frame_io: "call_frame E w v \<Longrightarrow> io_frame v u \<Longrightarrow> call_frame E w u"
  by (simp add: call_frame_def io_frame_def held_def)

lemma call_frame_still: "call_frame E w v \<Longrightarrow> still v u \<Longrightarrow> call_frame E w u"
  by (simp add: still_def call_frame_io)

lemma call_frame_reading: "call_frame E w v \<Longrightarrow> reading v len got u \<Longrightarrow> call_frame E w u"
  by (simp add: reading_def call_frame_io)

lemma call_frame_step:
  assumes "call_frame E w v" and "\<And>fds pids. held fds pids v \<Longrightarrow> held fds pids u"
    and "ipermits u = ipermits v" and "polls_bounded u = polls_bounded v"
  shows "call_frame E w u"
  using assms unfolding call_frame_def by metis

lemma retry_vc: "(\<And>v. still w v \<Longrightarrow> Q () v) \<Longrightarrow> wp (retry_interrupted fuel E) Q X w"
  unfolding retry_interrupted_def
  by (rule wp_iter [where I = "\<lambda>_. still w"]) (auto simp: wp_simps frame_defs)

lemma held_close:
  "held fds pids w \<Longrightarrow> 0 \<le> isocket_fd w \<Longrightarrow>
   held fds pids (w\<lparr>isocket_fd := -1, iopen := iopen w - {#isocket_fd w#}\<rparr>)"
  by (simp add: held_def)

lemma held_reap:
  "held fds pids w \<Longrightarrow> 0 < iprocess_id w \<Longrightarrow>
   held fds pids (w\<lparr>iprocess_id := -1, ichildren := ichildren w - {#iprocess_id w#}\<rparr>)"
  by (simp add: held_def)

lemma terminate_vc:
  assumes "call_frame E w0 w"
    and "\<And>v. call_frame E w0 v \<Longrightarrow> ssent v = ssent w \<Longrightarrow> sinput v = sinput w \<Longrightarrow>
      isocket_fd v < 0 \<Longrightarrow> iprocess_id v \<le> 0 \<Longrightarrow> Q () v"
  shows "wp (terminateAndReap fuel E) Q X w"
proof -
  have closed: "call_frame E w0 (w\<lparr>isocket_fd := -1, iopen := iopen w - {#isocket_fd w#}\<rparr>)"
    if "0 \<le> isocket_fd w"
    by (rule call_frame_step [OF assms(1) held_close [OF _ that]]) (simp_all add: polls_bounded_def)
  have reaped: "call_frame E w0 (u\<lparr>iprocess_id := -1, ichildren := ichildren u - {#iprocess_id v#}\<rparr>)"
    if v: "call_frame E w0 v" "0 < iprocess_id v" "still v v'" "still v' u" for v v' u
  proof -
    have u: "call_frame E w0 u" by (rule call_frame_still [OF call_frame_still [OF v(1,3)] v(4)])
    have pid: "iprocess_id v = iprocess_id u" using v(3,4) by (simp add: frame_defs)
    have pos: "0 < iprocess_id u" using v(2) pid by simp
    show ?thesis unfolding pid
      by (rule call_frame_step [OF u held_reap [OF _ pos]]) (simp_all add: polls_bounded_def)
  qed
  have ended: "Q () v" if "call_frame E w0 v" "ssent v = ssent w" "sinput v = sinput w" "isocket_fd v < 0"
      "iprocess_id v \<le> 0" for v
    using that by (rule assms(2))
  have kill: "wp (thenP (retry_interrupted fuel E) (thenP (retry_interrupted fuel E)
          (modifyP (\<lambda>u. u\<lparr>iprocess_id := -1, ichildren := ichildren u - {#iprocess_id v#}\<rparr>)))) Q X v"
    if v: "call_frame E w0 v" "ssent v = ssent w" "sinput v = sinput w" "isocket_fd v < 0" "0 < iprocess_id v" for v
    unfolding wp_then
  proof (intro retry_vc)
    fix v' u
    assume "still v v'" and "still v' u"
    then show "wp (modifyP (\<lambda>u. u\<lparr>iprocess_id := -1, ichildren := ichildren u - {#iprocess_id v#}\<rparr>)) Q X u"
      using v reaped [OF v(1,5)] unfolding wp_modify by (intro ended) (simp_all add: frame_defs)
  qed
  note wp_head = wp_bind wp_get wp_if wp_return wp_modify wp_then [of "thenP m n" for m n]
    wp_then [of "modifyP g" for g] wp_then [of "returnP x" for x] not_le
  show ?thesis
  proof (cases "0 \<le> isocket_fd w")
    case True
    then show ?thesis
      unfolding terminateAndReap_def closeP_def
      using closed kill [of "w\<lparr>isocket_fd := -1, iopen := iopen w - {#isocket_fd w#}\<rparr>"]
        ended [of "w\<lparr>isocket_fd := -1, iopen := iopen w - {#isocket_fd w#}\<rparr>"]
      by (simp add: wp_head)
  next
    case False
    then show ?thesis
      unfolding terminateAndReap_def
      using assms(1) kill [of w] ended [of w]
      by (simp add: wp_head)
  qed
qed

text \<open>While the helper is being started the process has some more descriptors open.\<close>

definition starting :: "int multiset \<Rightarrow> invoker_world \<Rightarrow> invoker_world \<Rightarrow> bool" where
  "starting fds w v \<longleftrightarrow> iopen v = iopen w + fds \<and> isocket_fd v = isocket_fd w \<and>
     iprocess_id v = iprocess_id w \<and> ichildren v = ichildren w \<and> ipermits v = ipermits w \<and>
     itimeouts v = itimeouts w \<and> ssent v = ssent w \<and> sinput v = sinput w"

definition started :: "int \<Rightarrow> int \<Rightarrow> invoker_world \<Rightarrow> invoker_world \<Rightarrow> bool" where
  "started fd pid w v \<longleftrightarrow> iopen v = add_mset fd (iopen w) \<and> isocket_fd v = fd \<and>
     iprocess_id v = pid \<and> ichildren v = add_mset pid (ichildren w) \<and> ipermits v = ipermits w \<and>
     itimeouts v = itimeouts w \<and> ssent v = ssent w \<and> sinput v = sinput w"

lemma starting_look: "starting fds w v \<Longrightarrow> starting fds w (v\<lparr>stick := k\<rparr>)"
  by (simp add: starting_def)

lemma close_vc:
  assumes "starting fds w v" and "fd \<in># fds" and "\<And>v'. starting (fds - {#fd#}) w v' \<Longrightarrow> Q () v'"
  shows "wp (closeP fd) Q X v"
  unfolding closeP_def wp_modify using assms(1,2) by (intro assms(3)) (simp add: starting_def)

lemma open_vc:
  assumes "starting fds w v" and "\<And>v'. starting (add_mset fd fds) w v' \<Longrightarrow> Q () v'"
  shows "wp (openP fd) Q X v"
  unfolding openP_def wp_modify using assms(1) by (intro assms(2)) (simp add: starting_def)

lemma relocate_vc:
  assumes "starting {#fd, other#} w v" and "posix_numbers E \<Longrightarrow> 0 \<le> fd"
    and moved: "\<And>v' fd'. starting {#fd', other#} w v' \<Longrightarrow> (posix_numbers E \<Longrightarrow> 0 \<le> fd') \<Longrightarrow> Q (Inr fd') v'"
    and failed: "\<And>v' reason. starting {#} w v' \<Longrightarrow> Q (Inl reason) v'"
  shows "wp (relocate E fd other) Q X v"
proof -
  have fail: "wp (thenP (closeP fd) (thenP (closeP other) (returnP (Inl reason)))) Q X v'"
    if "starting {#fd, other#} w v'" for v' reason
    unfolding wp_then
    by (rule close_vc [OF that], simp, rule close_vc, assumption, simp) (simp add: wp_return failed)
  have move: "wp (thenP (openP new) (thenP (closeP fd) (returnP (Inr new)))) Q X v'"
    if "starting {#fd, other#} w v'" "posix_numbers E \<Longrightarrow> 0 \<le> new" for v' new
    unfolding wp_then
    by (rule open_vc [OF that(1)], rule close_vc, assumption, simp)
      (simp add: wp_return moved that(2) add_mset_commute [of new fd])
  have new: "0 \<le> new" if "posix_numbers E" "ie_dupfd E t = Inr new" for t new
    using that by (auto simp: posix_numbers_def)
  show ?thesis
    unfolding relocate_def wp_if wp_bind wp_look wp_return wp_case_sum
    using fail [OF starting_look [OF assms(1)]] move [OF starting_look [OF assms(1)]] new moved assms(1,2)
    by (auto split: sum.splits)
qed

lemma unless_failed_vc:
  assumes "starting fds w v" and "\<And>e v'. starting fds w v' \<Longrightarrow> Q e v'"
  shows "wp (unless_failed e (lookP f)) Q X v"
  using assms by (auto simp: unless_failed_def wp_simps starting_look split: option.splits)

lemma start_spawn_vc:
  assumes "starting {#parent_end, child_end#} w v"
    and failed: "\<And>v' reason. starting {#} w v' \<Longrightarrow> Q (Inl reason) v'"
    and ok: "\<And>v' pid. started parent_end pid w v' \<Longrightarrow> (posix_numbers E \<Longrightarrow> 0 < pid) \<Longrightarrow> Q (Inr ()) v'"
  shows "wp (start_spawn E path parent_end child_end) Q X v"
proof -
  have pid: "0 < pid" if "posix_numbers E" "ie_spawn E t = Inr pid" for t pid
    using that by (auto simp: posix_numbers_def)
  have fail: "wp (thenP (closeP child_end) (thenP (closeP parent_end) (returnP (Inl reason)))) Q X v'"
    if "starting {#parent_end, child_end#} w v'" for v' reason
    unfolding wp_then
    by (rule close_vc [OF that], simp, rule close_vc, assumption, simp) (simp add: wp_return failed)
  have good: "wp (thenP (closeP child_end) (thenP (modifyP (\<lambda>w. w\<lparr>iprocess_id := child, isocket_fd := parent_end\<rparr>))
      (returnP (Inr ())))) Q X (v'\<lparr>ichildren := add_mset child (ichildren v'), ispawned := s\<rparr>)"
    if "starting {#parent_end, child_end#} w v'" "posix_numbers E \<Longrightarrow> 0 < child" for v' child s
    unfolding wp_then closeP_def wp_modify wp_return
    by (rule ok [OF _ that(2)]) (use that(1) in \<open>simp add: starting_def started_def\<close>)
  have tail: "wp (bindP (case e of Some e \<Rightarrow> returnP (Inl e) | None \<Rightarrow> spawn_helper E path) (\<lambda>spawned.
     thenP (closeP child_end)
       (case spawned of
          Inl reason \<Rightarrow>
            thenP (closeP parent_end) (returnP (Inl (''cannot start service helper: '' @ reason)))
        | Inr child \<Rightarrow>
            thenP (modifyP (\<lambda>w. w\<lparr>iprocess_id := child, isocket_fd := parent_end\<rparr>))
              (returnP (Inr ()))))) Q X v'"
    if "starting {#parent_end, child_end#} w v'" for e v'
  proof (cases e)
    case None
    show ?thesis
      using None fail [OF starting_look [OF that]] good [OF starting_look [OF that]] pid
      by (simp add: spawn_helper_def wp_bind wp_look wp_case_sum wp_return wp_modify
          wp_then [of "modifyP g" for g] split: sum.splits)
  next
    case (Some reason)
    then show ?thesis using fail [OF that] by (simp add: wp_bind wp_return)
  qed
  show ?thesis
    unfolding start_spawn_def
    apply (simp only: wp_bind wp_look)
    apply (rule unless_failed_vc [OF starting_look [OF assms(1)]])
    apply (erule unless_failed_vc)
    apply (erule unless_failed_vc)
    using tail unfolding wp_bind by blast
qed

definition idle_helper :: "invoker_world \<Rightarrow> bool" where
  "idle_helper w \<longleftrightarrow> isocket_fd w = -1 \<and> iprocess_id w = -1"

lemma call_frame_starting:
  "call_frame E w0 w \<Longrightarrow> starting {#} w v \<Longrightarrow> call_frame E w0 v"
  by (rule call_frame_step, assumption) (simp_all add: starting_def held_def polls_bounded_def)

lemma call_frame_started:
  assumes "call_frame E w0 w" and "idle_helper w" and "started fd pid w v"
    and "posix_numbers E \<Longrightarrow> 0 \<le> fd \<and> 0 < pid"
  shows "call_frame E w0 v"
proof -
  have "held fds pids v" if "posix_numbers E" "held fds pids w" for fds pids
    using that assms(2-4) by (simp add: held_def idle_helper_def started_def)
  then show ?thesis using assms(1,3) unfolding call_frame_def started_def polls_bounded_def by metis
qed

lemma start_vc:
  assumes frame: "call_frame E w0 w" and idle: "idle_helper w"
    and failed: "\<And>v reason. call_frame E w0 v \<Longrightarrow> ssent v = ssent w \<Longrightarrow> sinput v = sinput w \<Longrightarrow> Q (Inl reason) v"
    and ok: "\<And>v. call_frame E w0 v \<Longrightarrow> ssent v = ssent w \<Longrightarrow> sinput v = sinput w \<Longrightarrow> Q (Inr ()) v"
  shows "wp (start E) Q X w"
proof -
  have start: "starting {#} w (w\<lparr>stick := k\<rparr>)" for k by (simp add: starting_def)
  have fail: "Q (Inl reason) v" if "starting {#} w v" for v reason
    using call_frame_starting [OF frame that] that by (intro failed) (simp_all add: starting_def)
  have good: "Q (Inr ()) v" if "started fd pid w v" "posix_numbers E \<Longrightarrow> 0 \<le> fd \<and> 0 < pid" for v fd pid
    using call_frame_started [OF frame idle that] that by (intro ok) (simp_all add: started_def)
  have fds: "0 \<le> a \<and> 0 \<le> b" if "posix_numbers E" "ie_socketpair E t = Inr (a, b)" for t a b
    using that by (auto simp: posix_numbers_def)
  have spawn: "wp (start_spawn E path a b) Q X v"
    if "starting {#b, a#} w v" "posix_numbers E \<Longrightarrow> 0 \<le> a" for path a b v
  proof (rule start_spawn_vc)
    show "starting {#a, b#} w v" using that(1) by (simp add: add_mset_commute)
  qed (use fail good that(2) in auto)
  have second: "wp (bindP (relocate E b a) (\<lambda>moved. case moved of
        Inl reason \<Rightarrow> returnP (Inl reason)
      | Inr second' \<Rightarrow> start_spawn E path a second')) Q X v"
    if "starting {#a, b#} w v" "posix_numbers E \<Longrightarrow> 0 \<le> a \<and> 0 \<le> b" for path a b v
    unfolding wp_bind
  proof (rule relocate_vc)
    show "starting {#b, a#} w v" using that(1) by (simp add: add_mset_commute)
  qed (use that(2) fail spawn in \<open>auto simp: wp_return\<close>)
  have pair: "wp (thenP (openP a) (thenP (openP b)
             (bindP (relocate E a b) (\<lambda>moved.
              case moved of
                Inl reason \<Rightarrow> returnP (Inl reason)
              | Inr first' \<Rightarrow>
                  bindP (relocate E b first') (\<lambda>moved.
                  case moved of
                    Inl reason \<Rightarrow> returnP (Inl reason)
                  | Inr second' \<Rightarrow> start_spawn E path first' second'))))) Q X v"
    if "starting {#} w v" "posix_numbers E \<Longrightarrow> 0 \<le> a \<and> 0 \<le> b" for path a b v
    unfolding wp_then wp_bind [of "relocate E a b"]
    by (rule open_vc [OF that(1)], rule open_vc, assumption, rule relocate_vc)
      (use that(2) fail second in \<open>auto simp: add_mset_commute wp_return\<close>)
  show ?thesis
    unfolding start_def currentExecutableSibling_def wp_bind wp_look wp_return wp_case_sum
    using start fail pair fds
    by (auto simp: wp_return Let_def split: sum.splits option.splits)
qed

section \<open>The exchange\<close>

lemma abandon_vc:
  assumes "call_frame E w0 w"
    and "\<And>v e. call_frame E w0 v \<Longrightarrow> ssent v = ssent w \<Longrightarrow> failure = Inl e \<Longrightarrow> X e v"
    and "\<And>x. failure \<noteq> Inr x"
  shows "wp (abandon fuel E failure) Q X w"
  unfolding abandon_def wp_then wp_lift
  by (rule terminate_vc [OF assms(1)]) (use assms(2,3) in \<open>auto split: sum.splits\<close>)

lemma failPreCommit_certain: "failPreCommit result \<noteq> Inr x" "failPreCommit result = Inl e \<Longrightarrow> \<not> uncertain e"
  by (cases result; auto simp: error_defs uncertain_def)+

lemma failPostCommit_uncertain:
  "failPostCommit result service \<noteq> Inr x" "failPostCommit result service = Inl e \<Longrightarrow> uncertain e"
  by (cases result; auto simp: error_defs uncertain_def)+

lemma send_precommit_vc:
  assumes "call_frame E w0 w"
    and sent: "\<And>v. call_frame E w0 v \<Longrightarrow> sinput v = sinput w \<Longrightarrow> ssent v = ssent w @ data \<Longrightarrow> Q () v"
    and failed: "\<And>v e j. call_frame E w0 v \<Longrightarrow> j < length data \<Longrightarrow> ssent v = ssent w @ take j data \<Longrightarrow>
      \<not> uncertain e \<Longrightarrow> X e v"
  shows "wp (send_precommit fuel E request deadline data) Q X w"
  unfolding send_precommit_def wp_bind
proof (rule writePreCommit_vc)
  fix v
  assume "io_frame w v" and "sinput v = sinput w" and "ssent v = ssent w @ data"
  then show "wp (if PreComplete \<noteq> PreComplete then abandon fuel E (failPreCommit PreComplete) else returnP ()) Q X v"
    using call_frame_io [OF assms(1)] by (simp add: wp_return sent)
next
  fix r v j
  assume *: "io_frame w v" "r \<noteq> PreComplete" "j < length data" "ssent v = ssent w @ take j data"
  have "wp (abandon fuel E (failPreCommit r)) Q X v"
    by (rule abandon_vc [OF call_frame_io [OF assms(1) *(1)]])
      (use *(3,4) failed in \<open>auto simp: failPreCommit_certain(1) dest: failPreCommit_certain(2)\<close>)
  then show "wp (if r \<noteq> PreComplete then abandon fuel E (failPreCommit r) else returnP ()) Q X v"
    using *(2) by simp
qed

lemma await_ready_vc:
  assumes "call_frame E w0 w"
    and ready: "\<And>v. call_frame E w0 v \<Longrightarrow> ssent v = ssent w \<Longrightarrow> rid \<noteq> 0 \<Longrightarrow>
      sinput w = frame_bytes (makeServiceHelperReady rid ReadyReady) @ sinput v \<Longrightarrow> Q () v"
    and failed: "\<And>v e. call_frame E w0 v \<Longrightarrow> ssent v = ssent w \<Longrightarrow> \<not> uncertain e \<Longrightarrow> X e v"
  shows "wp (await_ready fuel E request deadline rid) Q X w"
proof -
  have stop: "wp (abandon fuel E failure) Q X v"
    if "call_frame E w0 v" "ssent v = ssent w" "failure = transientError code message" for v failure code message
    by (rule abandon_vc [OF that(1)]) (use that(2,3) failed in \<open>auto simp: error_defs uncertain_def\<close>)
  have bytes: "data = frame_bytes (makeServiceHelperReady rid ReadyReady) \<and> rid \<noteq> 0"
    if len: "length data = frame_size" and valid: "validateServiceHelperReady (frame_of_bytes data) rid"
      and st: "status (frame_of_bytes data) = ready_status_code ReadyReady" for data
  proof -
    obtain st' where "frame_of_bytes data = makeServiceHelperReady rid st'" "rid \<noteq> 0"
      using valid ready_frame_iff [OF wf_frame_of_bytes [OF len]] by blast
    moreover have "st' = ReadyReady" using st calculation(1)
      by (cases st') (simp_all add: makeServiceHelperReady_def)
    ultimately show ?thesis using frame_bytes_frame_of [OF len] by simp
  qed
  show ?thesis
    unfolding await_ready_def wp_bind
  proof (rule readPreCommit_vc, goal_cases)
    case (1 data v)
    then have frame: "call_frame E w0 v" "ssent v = ssent w" "sinput w = data @ sinput v"
      using call_frame_reading [OF assms(1) 1(1)] by (simp_all add: reading_def)
    show ?case
      using stop [OF frame(1,2) refl] bytes [OF 1(2)] ready [OF frame(1,2)] frame(3)
      by (simp add: wp_return judge_ready_def wp_if)
  next
    case (2 r data v)
    have "wp (abandon fuel E (failPreCommit r)) Q X v"
      by (rule abandon_vc [OF call_frame_reading [OF assms(1) 2(1)]])
        (use 2(1) failed in \<open>auto simp: failPreCommit_certain(1) reading_def dest: failPreCommit_certain(2)\<close>)
    then show ?case using 2(2) by simp
  qed
qed

lemma read_postcommit_vc:
  assumes "call_frame E w0 w"
    and got: "\<And>v data. call_frame E w0 v \<Longrightarrow> ssent v = ssent w \<Longrightarrow> length data = len \<Longrightarrow>
      sinput w = data @ sinput v \<Longrightarrow> Q data v"
    and failed: "\<And>v e. call_frame E w0 v \<Longrightarrow> ssent v = ssent w \<Longrightarrow> uncertain e \<Longrightarrow> X e v"
  shows "wp (read_postcommit fuel E request runtime_deadline call_deadline len) Q X w"
  unfolding read_postcommit_def wp_bind
proof (rule readPostCommit_vc, goal_cases)
  case (1 data v)
  then show ?case using call_frame_reading [OF assms(1) 1(1)] got
    by (simp add: wp_return reading_def)
next
  case (2 r data v)
  have "wp (abandon fuel E (failPostCommit r (sr_service request))) Q X v"
    by (rule abandon_vc [OF call_frame_reading [OF assms(1) 2(1)]])
      (use 2(1) failed in \<open>auto simp: failPostCommit_uncertain(1) reading_def dest: failPostCommit_uncertain(2)\<close>)
  then show ?case using 2(2) by simp
qed

lemma read_response_vc:
  assumes "call_frame E w0 w"
    and got: "\<And>v st data. call_frame E w0 v \<Longrightarrow> ssent v = ssent w \<Longrightarrow>
      sinput w = response_bytes rid st data @ sinput v \<Longrightarrow>
      Q (makeServiceHelperResponse rid st (of_nat (length data)), data) v"
    and failed: "\<And>v e. call_frame E w0 v \<Longrightarrow> ssent v = ssent w \<Longrightarrow> uncertain e \<Longrightarrow> X e v"
  shows "wp (read_response fuel E request runtime_deadline rid) Q X w"
proof -
  have look: "call_frame E w0 (w\<lparr>stick := k\<rparr>)" for k
    by (rule call_frame_still [OF assms(1)]) (simp add: frame_defs)
  have reap: "wp (thenP (terminateAndReap fuel E) (returnP (f, data))) Q X v"
    if "call_frame E w0 v" "ssent v = ssent w" "sinput w = frame_bytes f @ data @ sinput v"
      "f = makeServiceHelperResponse rid st (of_nat (length data))" for v f st data
    unfolding wp_then wp_return
    by (rule terminate_vc [OF that(1)]) (use that got in \<open>auto simp: response_bytes_def\<close>)
  have invalid: "wp (abandon fuel E (uncertainError code message)) Q X v"
    if "call_frame E w0 v" "ssent v = ssent w" for v code message
    by (rule abandon_vc [OF that(1)]) (use that(2) failed in \<open>auto simp: error_defs uncertain_def\<close>)
  have payload: "wp (bindP (if payload_bytes f = 0 then returnP []
            else read_postcommit fuel E request runtime_deadline call_deadline (unat (payload_bytes f)))
       (\<lambda>data. thenP (terminateAndReap fuel E) (returnP (f, data)))) Q X v"
    if v: "call_frame E w0 v" "ssent v = ssent w" "sinput w = frame_bytes f @ sinput v"
      and f: "f = makeServiceHelperResponse rid st (of_nat (unat (payload_bytes f)))" for v f st call_deadline
  proof (cases "payload_bytes f = 0")
    case True
    then show ?thesis using reap [of v f "[]" st] v f by (simp add: wp_bind wp_return)
  next
    case False
    then show ?thesis
      unfolding wp_bind
      by simp (rule read_postcommit_vc [OF v(1)], rule reap [where st = st], use v f failed in auto)
  qed
  show ?thesis
    unfolding read_response_def Let_def wp_bind [of "lookP f" for f] wp_look
      wp_bind [of "read_postcommit fuel E request runtime_deadline call_deadline frame_size" for call_deadline]
  proof (rule read_postcommit_vc [OF look], goal_cases)
    case (1 v data)
    have frame: "ssent v = ssent w" "sinput w = data @ sinput v" using 1 by simp_all
    show ?case
    proof (cases "validateServiceHelperResponse (frame_of_bytes data) rid")
      case True
      obtain st where st: "frame_of_bytes data = makeServiceHelperResponse rid st
          (of_nat (unat (payload_bytes (frame_of_bytes data))))"
        using response_frame_shape [OF wf_frame_of_bytes [OF 1(3)] True] by blast
      show ?thesis
        using True payload [OF 1(1) frame(1) _ st] frame(2) frame_bytes_frame_of [OF 1(3)] by simp
    next
      case False
      then show ?thesis using invalid [OF 1(1) frame(1)] by simp
    qed
  next
    case (2 v e)
    then show ?case using failed by simp
  qed
qed

text \<open>The result of a completed call, from the bytes of the response message.\<close>

definition result_of ::
  "'t babel_fish \<Rightarrow> codec_limits \<Rightarrow> service_call_request \<Rightarrow> 't service_description \<Rightarrow> byte list \<Rightarrow>
   service_call_result \<Rightarrow> bool" where
  "result_of B limits request description data result \<longleftrightarrow>
     sres_service result = sr_service request \<and> sres_service_type result = sr_service_type request \<and>
     (\<exists>t message. template_of (service_response description) = Some t \<and>
        bf_createMessageFromTemplate B t data = Inr (Some message, length data) \<and>
        encode limits message = Inr (sres_response result))"

lemma decode_response_Inr:
  assumes "decode_response B limits request description (makeServiceHelperResponse rid st n) data = Inr json"
  shows "st = RespCompleted \<and> (\<exists>t message. template_of (service_response description) = Some t \<and>
        bf_createMessageFromTemplate B t data = Inr (Some message, length data) \<and>
        encode limits message = Inr json)"
  using assms
  by (cases st) (auto simp: decode_response_def makeServiceHelperResponse_def error_defs bindE_eq_Inr
      split: option.splits if_splits)

lemma completion_failed_uncertain: "completion_failed e = Inl e' \<Longrightarrow> uncertain e'" "completion_failed e \<noteq> Inr x"
  by (cases e; auto simp: completion_failed_def error_defs uncertain_def split: if_splits)+

lemma complete_vc:
  assumes "call_frame E w0 w"
    and ok: "\<And>v data result. call_frame E w0 v \<Longrightarrow> ssent v = ssent w \<Longrightarrow>
      sinput w = response_bytes rid RespCompleted data @ sinput v \<Longrightarrow>
      result_of B limits request description data result \<Longrightarrow> Q result v"
    and failed: "\<And>v e. call_frame E w0 v \<Longrightarrow> ssent v = ssent w \<Longrightarrow> uncertain e \<Longrightarrow> X e v"
  shows "wp (catchP (complete_call fuel E B limits request description started_at runtime_deadline rid)
    (\<lambda>e. liftP (completion_failed e))) Q X w"
proof -
  have handler: "wp (liftP (completion_failed e)) Q X v" if "call_frame E w0 v" "ssent v = ssent w" for e v
    using that failed
    by (auto simp: wp_lift completion_failed_uncertain(2) dest: completion_failed_uncertain(1) split: sum.splits)
  have look: "call_frame E w0 (v\<lparr>stick := k\<rparr>)" if "call_frame E w0 v" for v k
    by (rule call_frame_still [OF that]) (simp add: frame_defs)
  show ?thesis
    unfolding wp_catch complete_call_def wp_bind [of "read_response fuel E request runtime_deadline rid"]
  proof (rule read_response_vc [OF assms(1)], goal_cases)
    case (1 v st data)
    show ?case
    proof (cases "decode_response B limits request description (makeServiceHelperResponse rid st (of_nat (length data))) data")
      case (Inl e)
      then show ?thesis using handler [OF 1(1,2)] by (simp add: wp_bind wp_lift)
    next
      case (Inr json)
      then show ?thesis using decode_response_Inr [OF Inr] 1 ok [OF look [OF 1(1)]]
        by (simp add: wp_bind wp_lift wp_look wp_return result_of_def)
    qed
  next
    case (2 v e)
    then show ?case by (intro handler)
  qed
qed

text \<open>
  Everything the parent sends for a call, and how much of it the helper has been sent when
  the call ends.
\<close>

definition call_bytes ::
  "64 word \<Rightarrow> service_call_request \<Rightarrow> 't service_description \<Rightarrow> byte list \<Rightarrow> byte list" where
  "call_bytes rid request description payload =
     request_stream
       (makeServiceHelperRequest rid (of_nat (length (sr_service request)))
         (of_nat (length (service_md5 description))) (of_nat (length payload)) (sr_wait_for_service_ms request))
       (string_bytes (sr_service request)) (string_bytes (service_md5 description)) payload @
     frame_bytes (makeServiceHelperCommit rid)"

definition sent_partly :: "byte list \<Rightarrow> invoker_world \<Rightarrow> invoker_world \<Rightarrow> bool" where
  "sent_partly bytes w v \<longleftrightarrow> (\<exists>j < length bytes. ssent v = ssent w @ take j bytes)"

lemma sent_partlyI:
  assumes "ssent v = ssent w @ pre @ take j part" and "bytes = pre @ part @ post" and "j < length part \<or> (j = 0 \<and> post \<noteq> [])"
  shows "sent_partly bytes w v"
  unfolding sent_partly_def using assms by (intro exI [of _ "length pre + j"]) auto

lemma commit_nonempty: "frame_bytes (makeServiceHelperCommit rid) \<noteq> []"
  using commit_bytes_length [of rid] by (auto simp: frame_size_def)

lemma commit_and_complete_vc:
  assumes "call_frame E w0 w"
    and ok: "\<And>v data result. call_frame E w0 v \<Longrightarrow>
      ssent v = ssent w @ frame_bytes (makeServiceHelperCommit rid) \<Longrightarrow>
      sinput w = response_bytes rid RespCompleted data @ sinput v \<Longrightarrow>
      result_of B limits request description data result \<Longrightarrow> Q result v"
    and before: "\<And>v e. call_frame E w0 v \<Longrightarrow> sent_partly (frame_bytes (makeServiceHelperCommit rid)) w v \<Longrightarrow>
      \<not> uncertain e \<Longrightarrow> X e v"
    and after: "\<And>v e. call_frame E w0 v \<Longrightarrow> ssent v = ssent w @ frame_bytes (makeServiceHelperCommit rid) \<Longrightarrow>
      uncertain e \<Longrightarrow> X e v"
  shows "wp (commit_and_complete fuel E B limits request description started_at runtime_deadline rid) Q X w"
proof -
  have none: "sent_partly (frame_bytes (makeServiceHelperCommit rid)) w v" if "ssent v = ssent w" for v
    unfolding sent_partly_def using that commit_nonempty [of rid] by (intro exI [of _ 0]) simp
  show ?thesis
    unfolding commit_and_complete_def wp_then
  proof (rule require_vc, rule send_precommit_vc [where ?w0.0 = w0], goal_cases)
    case (1 v)
    then show ?case by (rule call_frame_still [OF assms(1)])
  next
    case (2 v u)
    have still: "ssent v = ssent w" "sinput v = sinput w" using 2(1) by (simp_all add: frame_defs)
    show ?case by (rule complete_vc [OF 2(2)]) (use 2 still ok after in auto)
  next
    case (3 v u e j)
    have "ssent v = ssent w" using 3(1) by (simp add: frame_defs)
    then show ?case using 3 before [of u e] by (auto simp: sent_partly_def)
  next
    case (4 e v)
    then have "ssent v = ssent w" by (simp add: frame_defs)
    then show ?case using 4 before none call_frame_still [OF assms(1)] by blast
  qed
qed

text \<open>The parts of the request go out one after the other.\<close>

definition progress :: "invoker_env \<Rightarrow> invoker_world \<Rightarrow> invoker_world \<Rightarrow> byte list \<Rightarrow> invoker_world \<Rightarrow> bool" where
  "progress E w0 w pre v \<longleftrightarrow> call_frame E w0 v \<and> ssent v = ssent w @ pre \<and> sinput v = sinput w"

lemma send_part_vc:
  assumes "progress E w0 w pre v" and "bytes = pre @ part @ post"
    and "\<And>u. progress E w0 w (pre @ part) u \<Longrightarrow> Q () u"
    and failed: "\<And>u e. call_frame E w0 u \<Longrightarrow> sent_partly bytes w u \<Longrightarrow> \<not> uncertain e \<Longrightarrow> X e u"
  shows "wp (send_precommit fuel E request runtime_deadline part) Q X v"
proof (rule send_precommit_vc [where ?w0.0 = w0], goal_cases)
  case (3 u e j)
  have "sent_partly bytes w u"
    by (rule sent_partlyI [OF _ assms(2), of _ _ j]) (use assms(1) 3 in \<open>auto simp: progress_def\<close>)
  then show ?case using 3 failed by blast
qed (use assms(1,3) in \<open>auto simp: progress_def\<close>)

lemma progress_still: "progress E w0 w pre v \<Longrightarrow> still v u \<Longrightarrow> progress E w0 w pre u"
  using call_frame_still [of E w0 v u] by (auto simp: progress_def frame_defs)

lemma nextRequestId_vc:
  assumes "progress E w0 w pre v" and "\<And>u rid. progress E w0 w pre u \<Longrightarrow> rid \<noteq> 0 \<Longrightarrow> Q rid u"
  shows "wp (nextRequestId fuel E) Q X v"
proof -
  have step: "progress E w0 w pre (u\<lparr>stick := k, inext := n\<rparr>)" if "progress E w0 w pre u" for u k n
  proof -
    have "call_frame E w0 (u\<lparr>stick := k, inext := n\<rparr>)"
      by (rule call_frame_step [of E w0 u]) (use that in \<open>simp_all add: progress_def held_def polls_bounded_def\<close>)
    then show ?thesis using that by (simp add: progress_def)
  qed
  show ?thesis
    unfolding nextRequestId_def
    by (rule wp_iter [where I = "\<lambda>_. progress E w0 w pre", OF assms(1)])
      (use assms(2) step in \<open>auto simp: wp_bind wp_return fetch_add_id_def wp_def Let_def returnP_def\<close>)
qed

lemma runtimeDeadline_vc: "(\<And>d v. still w v \<Longrightarrow> Q d v) \<Longrightarrow> wp (runtimeDeadline E deadline) Q X w"
  by (simp add: runtimeDeadline_def wp_simps frame_defs)

lemma exchange_vc:
  assumes start: "progress E w0 w [] v"
    and ok: "\<And>u rid data result. call_frame E w0 u \<Longrightarrow> rid \<noteq> 0 \<Longrightarrow>
      ssent u = ssent w @ call_bytes rid request description payload \<Longrightarrow>
      sinput w = frame_bytes (makeServiceHelperReady rid ReadyReady) @ response_bytes rid RespCompleted data @ sinput u \<Longrightarrow>
      result_of B limits request description data result \<Longrightarrow> Q result u"
    and before: "\<And>u e rid. call_frame E w0 u \<Longrightarrow> rid \<noteq> 0 \<Longrightarrow>
      sent_partly (call_bytes rid request description payload) w u \<Longrightarrow> \<not> uncertain e \<Longrightarrow> X e u"
    and after: "\<And>u e rid. call_frame E w0 u \<Longrightarrow> rid \<noteq> 0 \<Longrightarrow>
      ssent u = ssent w @ call_bytes rid request description payload \<Longrightarrow> uncertain e \<Longrightarrow> X e u"
  shows "wp (exchange fuel E B limits request description payload started_at) Q X v"
proof -
  have commit: "wp (thenP (await_ready fuel E request d rid)
      (commit_and_complete fuel E B limits request description started_at d rid)) Q X u"
    if u: "progress E w0 w pre u" and all: "call_bytes rid request description payload = pre @ frame_bytes (makeServiceHelperCommit rid)"
      and rid: "rid \<noteq> 0" for u pre d rid
  proof -
    have part: "sent_partly (call_bytes rid request description payload) w x"
      if "ssent x = ssent w @ pre @ take j (frame_bytes (makeServiceHelperCommit rid))"
        "j < length (frame_bytes (makeServiceHelperCommit rid))" for x j
      by (rule sent_partlyI [OF that(1), of _ "[]"]) (use that(2) all in simp_all)
    have none: "sent_partly (call_bytes rid request description payload) w x" if "ssent x = ssent u" for x
      using part [of x 0] u commit_nonempty [of rid] that by (simp add: progress_def)
    have pre: "ssent u = ssent w @ pre" "sinput u = sinput w" "call_frame E w0 u"
      using u by (simp_all add: progress_def)
    show ?thesis
      unfolding wp_then
    proof (rule await_ready_vc [OF pre(3)], rule commit_and_complete_vc [where ?w0.0 = w0], goal_cases)
      case (3 v' x e)
      then obtain j where "j < length (frame_bytes (makeServiceHelperCommit rid))"
          "ssent x = ssent v' @ take j (frame_bytes (makeServiceHelperCommit rid))"
        unfolding sent_partly_def by blast
      then show ?case using 3 before rid part [of x j] pre by auto
    qed (use pre all rid ok before after none in auto)
  qed
  have parts: "wp (thenP (send_precommit fuel E request d p1)
       (thenP (send_precommit fuel E request d p2)
       (thenP (send_precommit fuel E request d p3)
       (thenP (if p4 \<noteq> [] then send_precommit fuel E request d p4 else returnP ())
       (thenP (await_ready fuel E request d rid)
         (commit_and_complete fuel E B limits request description started_at d rid)))))) Q X u"
    if u: "progress E w0 w [] u" and rid: "rid \<noteq> 0"
      and all: "call_bytes rid request description payload =
        p1 @ p2 @ p3 @ p4 @ frame_bytes (makeServiceHelperCommit rid)" for u d rid p1 p2 p3 p4
  proof -
    note failed = before [OF _ rid]
    have last: "wp (thenP (if p4 \<noteq> [] then send_precommit fuel E request d p4 else returnP ())
       (thenP (await_ready fuel E request d rid)
         (commit_and_complete fuel E B limits request description started_at d rid))) Q X x"
      if "progress E w0 w ([] @ p1 @ p2 @ p3) x" for x
    proof (cases "p4 = []")
      case True
      then show ?thesis using commit [OF that _ rid] all by (simp add: wp_then [of "returnP y" for y] wp_return)
    next
      case False
      show ?thesis unfolding wp_then [of "if p4 \<noteq> [] then m else n" for m n]
        using False
        by simp (rule send_part_vc [OF that], use all in simp, rule commit, use all rid failed in auto)
    qed
    show ?thesis
      unfolding wp_then [of "send_precommit fuel E request d part" for part]
      by (rule send_part_vc [OF u, of _ p1 "p2 @ p3 @ p4 @ frame_bytes (makeServiceHelperCommit rid)"], use all in simp,
          rule send_part_vc [of E w0 w _ _ _ p2 "p3 @ p4 @ frame_bytes (makeServiceHelperCommit rid)"], assumption, use all in simp,
          rule send_part_vc [of E w0 w _ _ _ p3 "p4 @ frame_bytes (makeServiceHelperCommit rid)"], assumption, use all in simp,
          rule last) (use failed all in auto)
  qed
  show ?thesis
    unfolding exchange_def wp_bind Let_def
    by (rule runtimeDeadline_vc, rule nextRequestId_vc [of E w0 w "[]"], rule progress_still [OF start], assumption, rule parts)
      (simp_all add: call_bytes_def request_stream_def)
qed

section \<open>Permits\<close>

text \<open>The counter is the number of permits that are held, and at most the maximum.\<close>

definition permits_ok :: "32 word \<Rightarrow> permits \<Rightarrow> bool" where
  "permits_ok maximum p \<longleftrightarrow>
     unat (in_flight p) = own_permits p + other_permits p \<and> own_permits p + other_permits p \<le> unat maximum"

lemma unat_add_one_below: "n < (m :: 32 word) \<Longrightarrow> unat (n + 1) = Suc (unat n)"
  using unat_mono [of n m] unat32_less [of m] by (simp add: unat_word_ariths word_less_nat_alt)

lemma unat_minus_one_32: "0 < unat (n :: 32 word) \<Longrightarrow> unat (n - 1) = unat n - 1"
  by (simp add: unat_minus_one unat_eq_0 [symmetric])

lemma other_call_ok: "permits_ok maximum p \<Longrightarrow> permits_ok maximum (other_call maximum a p)"
  by (cases a) (auto simp: permits_ok_def unat_add_one_below unat_minus_one_32 not_le word_less_nat_alt)

lemma other_call_own [simp]: "own_permits (other_call maximum a p) = own_permits p"
  by (cases a) simp_all

lemma others_ok: "permits_ok maximum p \<Longrightarrow> permits_ok maximum (fold (other_call maximum) actions p)"
  by (induction actions arbitrary: p) (simp_all add: other_call_ok)

lemma others_own [simp]: "own_permits (fold (other_call maximum) actions p) = own_permits p"
  by (induction actions arbitrary: p) simp_all

text \<open>A permit is taken only below the maximum, and given back by its holder.\<close>

lemma take_permit_ok:
  "permits_ok maximum p \<Longrightarrow> in_flight p < maximum \<Longrightarrow>
   permits_ok maximum (p\<lparr>in_flight := in_flight p + 1, own_permits := own_permits p + 1\<rparr>)"
  by (auto simp: permits_ok_def unat_add_one_below word_less_nat_alt)

lemma give_permit_ok:
  "permits_ok maximum p \<Longrightarrow> 0 < own_permits p \<Longrightarrow>
   permits_ok maximum (p\<lparr>in_flight := in_flight p - 1, own_permits := own_permits p - 1\<rparr>)"
  by (auto simp: permits_ok_def unat_minus_one_32)

text \<open>Steps of the call that touch only the counter.\<close>

definition permit_frame :: "32 word \<Rightarrow> nat \<Rightarrow> invoker_world \<Rightarrow> invoker_world \<Rightarrow> bool" where
  "permit_frame maximum own w v \<longleftrightarrow>
     iopen v = iopen w \<and> ichildren v = ichildren w \<and> (polls_bounded w \<longrightarrow> polls_bounded v) \<and>
     ssent v = ssent w \<and> sinput v = sinput w \<and>
     (own_permits (ipermits w) = 0 \<longrightarrow> own_permits (ipermits v) = own) \<and>
     (permits_ok maximum (ipermits w) \<longrightarrow> permits_ok maximum (ipermits v))"

lemma acquireInFlight_vc:
  assumes "\<And>v. permit_frame maximum 1 w v \<Longrightarrow> Q True v"
    and "\<And>v. permit_frame maximum 0 w v \<Longrightarrow> Q False v"
  shows "wp (acquireInFlight fuel E maximum) Q X w"
proof -
  have others: "permit_frame maximum 0 w (v\<lparr>stick := k, ipermits := others_on_permits E maximum v\<rparr>)"
    if "permit_frame maximum 0 w v" for v k
    using that by (auto simp: permit_frame_def others_on_permits_def others_ok)
  have take: "permit_frame maximum 1 w (v\<lparr>stick := k, ipermits := p\<lparr>in_flight := current + 1, own_permits := own_permits p + 1\<rparr>\<rparr>)"
    if v: "permit_frame maximum 0 w v" and p: "p = others_on_permits E maximum v" "in_flight p = current" "current < maximum"
    for v k p current
    using v take_permit_ok [of maximum p] others_ok [of maximum "ipermits v" "ie_others E (stick v)"] p
    by (auto simp: permit_frame_def others_on_permits_def)
  have start: "permit_frame maximum 0 w w" by (simp add: permit_frame_def)
  have round: "wp (if current \<ge> maximum then returnP (Done False) else compare_exchange_weak E maximum current)
      (\<lambda>r s'. case r of Again a' \<Rightarrow> permit_frame maximum 0 w s' | Done b \<Rightarrow> Q b s') X v"
    if "permit_frame maximum 0 w v" for current v
    using assms that others [OF that] take [OF that refl]
    by (auto simp: wp_return wp_if wp_def compare_exchange_weak_def Let_def not_le)
  show ?thesis
    unfolding acquireInFlight_def wp_bind load_in_flight_def
    using others [OF start]
    by (simp add: wp_def [of "\<lambda>w. Some (f w, g w)" for f g] Let_def)
      (rule wp_iter [where I = "\<lambda>_. permit_frame maximum 0 w"], assumption, rule round)
qed

lemma releaseInFlight_vc:
  assumes "0 < own_permits (ipermits w)"
    and "\<And>v. iopen v = iopen w \<Longrightarrow> ichildren v = ichildren w \<Longrightarrow> itimeouts v = itimeouts w \<Longrightarrow>
      ssent v = ssent w \<Longrightarrow> sinput v = sinput w \<Longrightarrow> own_permits (ipermits v) = own_permits (ipermits w) - 1 \<Longrightarrow>
      (permits_ok maximum (ipermits w) \<Longrightarrow> permits_ok maximum (ipermits v)) \<Longrightarrow> Q () v"
  shows "wp (releaseInFlight E maximum) Q X w"
  unfolding wp_def releaseInFlight_def Let_def
  using assms(1) give_permit_ok [of maximum "others_on_permits E maximum w"]
  by (auto simp: others_on_permits_def others_ok intro!: assms(2))

section \<open>The whole call\<close>

definition call_done :: "invoker_env \<Rightarrow> 32 word \<Rightarrow> invoker_world \<Rightarrow> invoker_world \<Rightarrow> bool" where
  "call_done E maximum w v \<longleftrightarrow>
     (posix_numbers E \<longrightarrow> iopen v = iopen w \<and> ichildren v = ichildren w) \<and>
     (own_permits (ipermits w) = 0 \<longrightarrow> own_permits (ipermits v) = 0 \<and>
        (permits_ok maximum (ipermits w) \<longrightarrow> permits_ok maximum (ipermits v))) \<and>
     (polls_bounded w \<longrightarrow> polls_bounded v)"

definition helper_done :: "invoker_env \<Rightarrow> invoker_world \<Rightarrow> invoker_world \<Rightarrow> bool" where
  "helper_done E w v \<longleftrightarrow>
     (posix_numbers E \<longrightarrow> iopen v = iopen w \<and> ichildren v = ichildren w) \<and>
     ipermits v = ipermits w \<and> (polls_bounded w \<longrightarrow> polls_bounded v)"

lemma with_helper_vc:
  assumes ok: "\<And>u rid data result. helper_done E w u \<Longrightarrow> rid \<noteq> 0 \<Longrightarrow>
      ssent u = ssent w @ call_bytes rid request description payload \<Longrightarrow>
      sinput w = frame_bytes (makeServiceHelperReady rid ReadyReady) @ response_bytes rid RespCompleted data @ sinput u \<Longrightarrow>
      result_of B limits request description data result \<Longrightarrow> Q result u"
    and before: "\<And>u e rid. helper_done E w u \<Longrightarrow> rid \<noteq> 0 \<Longrightarrow>
      sent_partly (call_bytes rid request description payload) w u \<Longrightarrow> \<not> uncertain e \<Longrightarrow> X e u"
    and after: "\<And>u e rid. helper_done E w u \<Longrightarrow> rid \<noteq> 0 \<Longrightarrow>
      ssent u = ssent w @ call_bytes rid request description payload \<Longrightarrow> uncertain e \<Longrightarrow> X e u"
  shows "wp (with_helper fuel E B limits request description payload started_at) Q X w"
proof -
  define w1 where "w1 = w\<lparr>iprocess_id := -1, isocket_fd := -1\<rparr>"
  have idle: "idle_helper w1" "ssent w1 = ssent w" "sinput w1 = sinput w"
    by (simp_all add: w1_def idle_helper_def)
  have same: "ipermits w1 = ipermits w" "polls_bounded w1 = polls_bounded w"
    by (simp_all add: w1_def polls_bounded_def)
  have held: "held (iopen w) (ichildren w) w1" by (simp add: held_def w1_def)
  have ended: "helper_done E w v" if "call_frame E w1 v" "isocket_fd v < 0" "iprocess_id v \<le> 0" for v
  proof -
    have "posix_numbers E \<Longrightarrow> held (iopen w) (ichildren w) v"
      using that(1) held unfolding call_frame_def by blast
    moreover have "ipermits v = ipermits w" "polls_bounded w \<longrightarrow> polls_bounded v"
      using call_frameD [OF that(1)] same by simp_all
    ultimately show ?thesis using that(2,3) by (simp add: helper_done_def held_def)
  qed
  have reap: "wp (terminateAndReap fuel E) (\<lambda>_. P) (\<lambda>_. P) v"
    if v: "call_frame E w1 v" and P: "\<And>u. helper_done E w u \<Longrightarrow> ssent u = ssent v \<Longrightarrow> sinput u = sinput v \<Longrightarrow> P u" for v P
    by (rule terminate_vc [OF v], rule P, rule ended) assumption+
  have none: "sent_partly (call_bytes 1 request description payload) w u" if "ssent u = ssent w" for u
    unfolding sent_partly_def using that commit_nonempty [of 1]
    by (intro exI [of _ 0]) (auto simp: call_bytes_def)
  have part: "sent_partly bytes w u" if "sent_partly bytes w1 v" "ssent u = ssent v" for bytes u v
    using that idle(2) by (simp add: sent_partly_def)
  show ?thesis
    unfolding with_helper_def wp_then wp_modify w1_def [symmetric] wp_finally wp_bind
  proof (rule start_vc [OF call_frame_refl idle(1)], goal_cases)
    case (1 v reason)
    have v: "call_frame E w1 u" "ssent u = ssent w" if "still v u" for u
      using call_frame_still [OF 1(1) that] 1(2) idle(2) that by (simp_all add: frame_defs)
    have cert: "\<not> uncertain (Ros1ToolsError code ''transient'' message)" for code message by (simp add: uncertain_def)
    show ?case
      unfolding sum.case wp_then
      apply (rule require_vc)
       apply (simp only: wp_lift transientError_def sum.case)
       apply (rule reap [OF v(1)], assumption)
       apply (rule before [OF _ _ none cert], assumption, simp, use v in simp)
      apply (rule reap [OF v(1)], assumption)
      apply (rule before [OF _ _ none], assumption, simp, use v in simp, assumption)
      done
  next
    case (2 v)
    have start: "progress E w1 w1 [] v" using 2 by (simp add: progress_def)
    show ?case
      unfolding sum.case
    proof (rule exchange_vc [OF start], goal_cases)
      case (1 u rid data result)
      show ?case
        by (rule reap [OF 1(1)], rule ok [OF _ 1(2) _ _ 1(5)], assumption) (use 1(3,4) idle in simp_all)
    next
      case (2 u e rid)
      show ?case
        by (rule reap [OF 2(1)], rule before [OF _ 2(2) part [OF 2(3)] 2(4)])
    next
      case (3 u e rid)
      show ?case
        by (rule reap [OF 3(1)], rule after [OF _ 3(2) _ 3(4)], assumption) (use 3(3) idle in simp)
    qed
  qed
qed

lemma call_done_permit:
  assumes "permit_frame maximum 1 w v" and "own_permits (ipermits w) = 0" and "helper_done E v u"
    and "own_permits (ipermits x) = own_permits (ipermits u) - 1"
    and "permits_ok maximum (ipermits u) \<Longrightarrow> permits_ok maximum (ipermits x)"
    and "iopen x = iopen u" "ichildren x = ichildren u" "itimeouts x = itimeouts u"
  shows "call_done E maximum w x"
proof -
  have "polls_bounded x = polls_bounded u" using assms(8) by (simp add: polls_bounded_def)
  then show ?thesis
    using assms unfolding call_done_def permit_frame_def helper_done_def by simp
qed

text \<open>What the call has checked of a request before it starts a helper.\<close>

definition deliverable :: "service_call_request \<Rightarrow> 't service_description \<Rightarrow> byte list \<Rightarrow> bool" where
  "deliverable request description payload \<longleftrightarrow>
     validServiceMd5 (service_md5 description) \<and> sr_service request \<noteq> [] \<and>
     length (sr_service request) \<le> kMaximumServiceNameBytes \<and> length payload \<le> kMaximumServicePayloadBytes"

lemma prepare_call_payload:
  "prepare_call B J R limits request = Inr (description, payload) \<Longrightarrow> length payload \<le> kMaximumServicePayloadBytes"
  by (auto simp: prepare_call_def bindE_eq_Inr serializeServiceRequest_def Let_def permanentError_def split: if_splits)

lemma call_vc:
  assumes own: "own_permits (ipermits w) = 0"
    and ok: "\<And>v description payload rid data result. call_done E maximum w v \<Longrightarrow>
      prepare_call B J R limits request = Inr (description, payload) \<Longrightarrow> rid \<noteq> 0 \<Longrightarrow>
      ssent v = ssent w @ call_bytes rid request description payload \<Longrightarrow>
      sinput w = frame_bytes (makeServiceHelperReady rid ReadyReady) @ response_bytes rid RespCompleted data @ sinput v \<Longrightarrow>
      result_of B limits request description data result \<Longrightarrow> deliverable request description payload \<Longrightarrow>
      Q result v"
    and quiet: "\<And>v e. call_done E maximum w v \<Longrightarrow> ssent v = ssent w \<Longrightarrow>
      \<not> uncertain e \<or> prepare_call B J R limits request = Inl e \<Longrightarrow> X e v"
    and before: "\<And>v e description payload rid. call_done E maximum w v \<Longrightarrow>
      prepare_call B J R limits request = Inr (description, payload) \<Longrightarrow> rid \<noteq> 0 \<Longrightarrow>
      sent_partly (call_bytes rid request description payload) w v \<Longrightarrow> \<not> uncertain e \<Longrightarrow>
      deliverable request description payload \<Longrightarrow> X e v"
    and after: "\<And>v e description payload rid. call_done E maximum w v \<Longrightarrow>
      prepare_call B J R limits request = Inr (description, payload) \<Longrightarrow> rid \<noteq> 0 \<Longrightarrow>
      ssent v = ssent w @ call_bytes rid request description payload \<Longrightarrow> uncertain e \<Longrightarrow>
      deliverable request description payload \<Longrightarrow> X e v"
  shows "wp (call fuel E B J R limits maximum request) Q X w"
proof -
  have still_done: "call_done E maximum w v" if "still w v" for v
    using that own by (simp add: call_done_def frame_defs)
  have held: "wp (finallyP (with_helper fuel E B limits request description payload started_at)
           (releaseInFlight E maximum)) Q X v"
    if prep: "prepare_call B J R limits request = Inr (description, payload)"
      and adm: "deliverable request description payload"
      and v: "permit_frame maximum 1 w' v" "still w w'" for description payload started_at v w'
  proof -
    have same: "ssent v = ssent w" "sinput v = sinput w" "permit_frame maximum 1 w v"
      using v by (auto simp: permit_frame_def frame_defs)
    have release: "wp (releaseInFlight E maximum) (\<lambda>_. P) (\<lambda>_. P) u"
      if "helper_done E v u" and P: "\<And>x. call_done E maximum w x \<Longrightarrow> ssent x = ssent u \<Longrightarrow> sinput x = sinput u \<Longrightarrow> P x" for u P
    proof (rule releaseInFlight_vc)
      show "0 < own_permits (ipermits u)" using that(1) same(3) own
        by (simp add: helper_done_def permit_frame_def)
    next
      fix x :: invoker_world
      assume *: "iopen x = iopen u" "ichildren x = ichildren u" "itimeouts x = itimeouts u" "ssent x = ssent u"
        "sinput x = sinput u" "own_permits (ipermits x) = own_permits (ipermits u) - 1"
        "permits_ok maximum (ipermits u) \<Longrightarrow> permits_ok maximum (ipermits x)"
      have "call_done E maximum w x"
        by (rule call_done_permit [OF same(3) own that(1)]) (use * in simp_all)
      then show "P x" using *(4,5) by (rule P)
    qed
    have part: "sent_partly bytes w x" if "sent_partly bytes v u" "ssent x = ssent u" for bytes x u
      using that same(1) by (simp add: sent_partly_def)
    show ?thesis
      unfolding wp_finally
    proof (rule with_helper_vc, goal_cases)
      case (1 u rid data result)
      show ?case
        by (rule release [OF 1(1)], rule ok [OF _ prep 1(2) _ _ 1(5) adm], assumption) (use 1(3,4) same in simp_all)
    next
      case (2 u e rid)
      show ?case by (rule release [OF 2(1)], rule before [OF _ prep 2(2) part [OF 2(3)] 2(4) adm])
    next
      case (3 u e rid)
      show ?case
        by (rule release [OF 3(1)], rule after [OF _ prep 3(2) _ 3(4) adm], assumption) (use 3(3) same in simp)
    qed
  qed
  have admitted: "wp (if \<not> validServiceMd5 (service_md5 description)
       then liftP (permanentError ''invalid_service_description''
              ''ROS1 service description has an invalid MD5 digest'')
       else if sr_service request = [] \<or> length (sr_service request) > kMaximumServiceNameBytes
       then liftP (permanentError ''invalid_service_name''
              ''ROS1 service name exceeds the helper protocol limit'')
       else bindP (acquireInFlight fuel E maximum) (\<lambda>acquired.
         if \<not> acquired
         then liftP (resourceExhaustedError ''service_call_busy''
                ''maximum concurrent ROS1 service calls reached'')
         else finallyP
           (with_helper fuel E B limits request description payload started_at)
           (releaseInFlight E maximum))) Q X v"
    if prep: "prepare_call B J R limits request = Inr (description, payload)" and v: "still w v"
    for description payload started_at v
  proof -
    have refused: "wp (liftP (Inl (Ros1ToolsError code cls message))) Q X v'"
      if "cls = ''permanent'' \<or> cls = ''resource-exhausted''" "call_done E maximum w v'" "ssent v' = ssent w"
      for v' code cls message
      using quiet [OF that(2,3), of "Ros1ToolsError code cls message"] that(1) by (auto simp: wp_lift uncertain_def)
    have sent: "ssent v = ssent w" using v by (simp add: frame_defs)
    have acquire: "wp (bindP (acquireInFlight fuel E maximum) (\<lambda>acquired.
         if \<not> acquired
         then liftP (resourceExhaustedError ''service_call_busy''
                ''maximum concurrent ROS1 service calls reached'')
         else finallyP
           (with_helper fuel E B limits request description payload started_at)
           (releaseInFlight E maximum))) Q X v" if adm: "deliverable request description payload"
      unfolding wp_bind
    proof (rule acquireInFlight_vc, goal_cases)
      case (1 u)
      then show ?case using held [OF prep adm 1 v] by simp
    next
      case (2 u)
      have "call_done E maximum w u" "ssent u = ssent w"
        using 2 v own by (simp_all add: call_done_def permit_frame_def frame_defs)
      then show ?case using refused by (simp add: resourceExhaustedError_def)
    qed
    show ?thesis
      unfolding permanentError_def wp_if
      using acquire refused [OF _ still_done [OF v] sent] prepare_call_payload [OF prep]
      by (simp add: deliverable_def)
  qed
  have still_trans: "still w u" if "still v u" "still w v" for v u using that by (simp add: frame_defs)
  have prepared: "wp (bindP (liftP (prepare_call B J R limits request)) (\<lambda>(description, request_payload).
      thenP (requirePreDispatchAllowed E request) (body description request_payload))) Q X v"
    if v: "still w v" and body: "\<And>description payload u. prepare_call B J R limits request = Inr (description, payload) \<Longrightarrow>
      still w u \<Longrightarrow> wp (body description payload) Q X u" for v body
  proof (cases "prepare_call B J R limits request")
    case (Inl e)
    then show ?thesis using quiet [OF still_done [OF v], of e] v by (simp add: wp_bind wp_lift frame_defs)
  next
    case (Inr x)
    obtain description payload where x: "x = (description, payload)" by (cases x)
    have "wp (thenP (requirePreDispatchAllowed E request) (body description payload)) Q X v"
      unfolding wp_then
      by (rule require_vc, rule body [OF Inr [unfolded x]], erule still_trans [OF _ v], rule quiet)
        (use still_done still_trans [OF _ v] in \<open>auto simp: frame_defs\<close>)
    then show ?thesis using Inr x by (simp add: wp_bind wp_lift)
  qed
  show ?thesis
    unfolding call_def wp_bind [of "lookP f" for f] wp_look wp_then [of _ "bindP (liftP r) f" for r f]
  proof (rule require_vc, rule prepared, goal_cases)
    case (1 v)
    then show ?case by (simp add: frame_defs)
  next
    case (2 v description payload u)
    show ?case by (rule admitted [OF 2(2,3)])
  next
    case (3 e v)
    then have "still w v" by (simp add: frame_defs)
    then show ?case using quiet [OF still_done] 3 by (simp add: frame_defs)
  qed
qed

section \<open>Failures before the exchange\<close>

text \<open>
  The libraries throw exceptions of their own, never the adapter's errors, and the introspection
  library builds well-formed messages.
\<close>

definition plain_libraries :: "'t babel_fish \<Rightarrow> ros_time_api \<Rightarrow> bool" where
  "plain_libraries B R \<longleftrightarrow>
     (\<forall>type e. bf_getServiceDescription B type = Inl e \<longrightarrow> \<not> adapter_error e) \<and>
     (\<forall>t. wf_msg (bf_createEmptyMessageFromTemplate B t)) \<and>
     (\<forall>s n e. newDuration R s n = Inl e \<longrightarrow> \<not> adapter_error e)"

lemma prepare_certain:
  assumes "jsoncpp_numbers J" and "ros_time R" and "plain_libraries B R"
    and failed: "prepare_call B J R limits request = Inl e"
  shows "\<not> uncertain e"
proof -
  have resolve: "\<not> uncertain e" if "resolveService B type = Inl e" for type
    using that assms(3)
    by (auto simp: resolveService_def bindE_def error_defs uncertain_def plain_libraries_def adapter_error_def
        split: sum.splits option.splits exn.splits)
  have create: "\<not> uncertain e" if "createServiceRequest B d = Inl e \<or> createServiceResponse B d = Inl e" for d
    using that by (auto simp: createServiceRequest_def createServiceResponse_def incomplete_description_def
        error_defs uncertain_def split: option.splits)
  have blank: "wf_msg m" if "createServiceRequest B d = Inr m" for d m
    using that assms(3) by (auto simp: createServiceRequest_def incomplete_description_def error_defs
        plain_libraries_def split: option.splits)
  have decode: "\<not> uncertain e" if "decode J R limits v m = Inl e" "wf_msg m" for v m
  proof -
    have "payload_error e \<or> (\<exists>s n. newDuration R s n = Inl e)"
      using codec_libraries.decodeValue_payload [OF codec_libraries.intro, OF assms(1,2)] that
      unfolding decode_def by blast
    moreover have "\<not> uncertain e" if "payload_error e" for e
      using that by (auto simp: payload_error_def uncertain_def)
    moreover have "\<not> uncertain e" if "\<not> adapter_error e" for e
      using that by (auto simp: adapter_error_def uncertain_def)
    ultimately show ?thesis using assms(3) unfolding plain_libraries_def by blast
  qed
  have serialize: "\<not> uncertain e" if "serializeServiceRequest B m = Inl e" for m
    using that by (auto simp: serializeServiceRequest_def Let_def error_defs uncertain_def split: if_splits)
  show ?thesis
    using failed resolve create blank decode serialize
    unfolding prepare_call_def bindE_eq_Inl by blast
qed

end
