(* ===== verification/Service_Progress.thy ===== *)
theory Service_Progress
  imports Service_Call
begin

text \<open>
  That a service call gets somewhere: a call whose helper answers in time returns its response,
  and a call with a deadline returns in every case. The first is total correctness of the
  exchange in an environment that does not disturb it, the second that every loop ends.
\<close>

section \<open>A call that is answered\<close>

text \<open>
  Nothing stops the call: it is not cancelled, and the clocks stay below its deadlines, however
  long the exchange takes in steps.
\<close>

definition in_time :: "invoker_env \<Rightarrow> service_call_request \<Rightarrow> bool" where
  "in_time E request \<longleftrightarrow>
     (\<forall>t. \<not> ie_cancelled E t) \<and>
     (\<forall>t. sr_deadline_unix_nanos request \<le> 0 \<or> ie_system_now E t < sr_deadline_unix_nanos request) \<and>
     (\<forall>t. se_steady_now E t < time_point_max) \<and>
     (\<forall>t t'. se_steady_now E t' < se_steady_now E t + milliseconds (sr_call_timeout_ms request)) \<and>
     (\<forall>t t' s. sr_deadline_unix_nanos request \<le> 0 \<or>
        se_steady_now E t' < se_steady_now E t + (sr_deadline_unix_nanos request - ie_system_now E s))"

text \<open>The helper can be started, and no other call interferes.\<close>

definition helper_starts :: "invoker_env \<Rightarrow> bool" where
  "helper_starts E \<longleftrightarrow> (\<forall>t.
     (\<exists>target. ie_readlink E t = Inr target \<and> length target < 4096 \<and>
        CHR ''/'' \<in> set (takeWhile (\<lambda>c. c \<noteq> CHR 0x00) target)) \<and>
     (\<exists>a b. ie_socketpair E t = Inr (a, b)) \<and> (\<exists>fd. ie_dupfd E t = Inr fd) \<and>
     ie_file_action E t = None \<and> (\<exists>pid. ie_spawn E t = Inr pid))"

definition uncontended :: "invoker_env \<Rightarrow> bool" where
  "uncontended E \<longleftrightarrow> (\<forall>t. ie_others E t = [] \<and> \<not> ie_spurious E t \<and> \<not> ie_interrupted E t \<and> ie_ids E t = 0)"

text \<open>What the exchange moves and what it leaves alone, as far as the call goes on.\<close>

definition live :: "invoker_world \<Rightarrow> byte list \<Rightarrow> invoker_world \<Rightarrow> bool" where
  "live w input v \<longleftrightarrow> sinput v = input \<and> inext v = inext w \<and> ipermits v = ipermits w"

lemma live_still: "live w input v \<Longrightarrow> still v u \<Longrightarrow> live w input u"
  by (simp add: live_def frame_defs)

lemma live_stick [simp]: "live w input (v\<lparr>stick := k\<rparr>) = live w input v"
  by (simp add: live_def)

lemma live_ssent [simp]: "live w input (v\<lparr>ssent := s\<rparr>) = live w input v"
  by (simp add: live_def)

lemma runtime_deadline_reached:
  assumes "in_time E request" and "0 < sr_deadline_unix_nanos request"
  shows "se_steady_now E t < runtime_deadline_at (sr_deadline_unix_nanos request) (ie_system_now E a) (se_steady_now E b)"
proof -
  have "ie_system_now E a < sr_deadline_unix_nanos request"
    "se_steady_now E t < time_point_max"
    "se_steady_now E t < se_steady_now E b + (sr_deadline_unix_nanos request - ie_system_now E a)"
    using assms unfolding in_time_def by (meson not_less)+
  then show ?thesis by (simp add: runtime_deadline_at_def Let_def)
qed

lemma runtimeDeadline_twp:
  assumes "in_time E request" and "live w input v"
    and "\<And>d u. live w input u \<Longrightarrow> (\<And>t. se_steady_now E t < d) \<Longrightarrow> Q d u"
  shows "twp (runtimeDeadline E (sr_deadline_unix_nanos request)) Q v"
proof (cases "sr_deadline_unix_nanos request \<le> 0")
  case True
  have "\<And>t. se_steady_now E t < time_point_max" using assms(1) by (simp add: in_time_def)
  then show ?thesis using True assms(2,3) by (simp add: runtimeDeadline_def twp_simps)
next
  case False
  then show ?thesis using assms(2,3) runtime_deadline_reached [OF assms(1)]
    by (simp add: runtimeDeadline_def twp_simps)
qed

lemma require_twp:
  assumes "in_time E request" and "live w input v" and "\<And>u. live w input u \<Longrightarrow> Q () u"
  shows "twp (requirePreDispatchAllowed E request) Q v"
proof -
  have "\<not> ie_cancelled E t" "\<not> sr_deadline_unix_nanos request \<le> 0 \<Longrightarrow> \<not> sr_deadline_unix_nanos request \<le> ie_system_now E t" for t
    using assms(1) unfolding in_time_def by (meson not_less)+
  then show ?thesis using assms(2,3)
    by (auto simp: requirePreDispatchAllowed_def cancellationRequested_def deadlineExpired_def twp_simps)
qed

lemma pre_commit_stop_twp:
  assumes "in_time E request" and "\<And>t. se_steady_now E t < d"
    and "\<And>k. Q None (v\<lparr>stick := k\<rparr>)"
  shows "twp (pre_commit_stop E request d) Q v"
proof -
  have "\<not> ie_cancelled E t" "\<not> sr_deadline_unix_nanos request \<le> 0 \<Longrightarrow> \<not> sr_deadline_unix_nanos request \<le> ie_system_now E t"
      "\<not> d \<le> se_steady_now E t" for t
    using assms(1,2) unfolding in_time_def by (meson not_less)+
  then show ?thesis using assms(3)
    by (auto simp: pre_commit_stop_def cancellationRequested_def deadlineExpired_def twp_simps)
qed

lemma post_commit_stop_twp:
  assumes "in_time E request" and "\<And>t. se_steady_now E t < d" and "\<And>t. se_steady_now E t < d'"
    and "\<And>k. Q None (v\<lparr>stick := k\<rparr>)"
  shows "twp (post_commit_stop E request d d') Q v"
proof -
  have "\<not> ie_cancelled E t" "\<not> sr_deadline_unix_nanos request \<le> 0 \<Longrightarrow> \<not> sr_deadline_unix_nanos request \<le> ie_system_now E t"
      "\<not> d \<le> se_steady_now E t" "\<not> d' \<le> se_steady_now E t" for t
    using assms(1-3) unfolding in_time_def by (meson not_less)+
  then show ?thesis using assms(4)
    by (auto simp: post_commit_stop_def cancellationRequested_def deadlineExpired_def twp_simps)
qed

lemma writePreCommit_twp:
  assumes "in_time E request" and "eager E" and "\<And>t. se_steady_now E t < d" and "length data < fuel"
    and "live w input v" and "\<And>u. live w input u \<Longrightarrow> Q PreComplete u"
  shows "twp (writePreCommit fuel E data request d) Q v"
  unfolding writePreCommit_def
proof (rule twp_iter [where I = "\<lambda>_. live w input" and measure_of = length])
  fix rest u
  assume u: "live w input u"
  show "twp (writePreCommit_round fuel E request d rest)
     (\<lambda>r s'. case r of Again a' \<Rightarrow> live w input s' \<and> length a' < length rest | Done b \<Rightarrow> Q b s') u"
  proof (cases "rest = []")
    case True
    then show ?thesis using u assms(6) by (simp add: writePreCommit_round_def twp_simps)
  next
    case False
    show ?thesis
      unfolding writePreCommit_round_def twp_if twp_bind
      using False u
      by (auto simp: twp_simps intro!: pre_commit_stop_twp [OF assms(1,3)] send_eager [OF assms(2) False])
  qed
qed (use assms(4,5) in auto)

lemma send_precommit_twp:
  assumes "in_time E request" and "eager E" and "\<And>t. se_steady_now E t < d" and "length data < fuel"
    and "live w input v" and "\<And>u. live w input u \<Longrightarrow> Q () u"
  shows "twp (send_precommit fuel E request d data) Q v"
  unfolding send_precommit_def twp_bind
  by (rule writePreCommit_twp [OF assms(1-5)]) (simp add: twp_simps assms(6))

text \<open>A reader gets the bytes it asks for when they are there.\<close>

lemma read_round:
  assumes "eager E" and "live w (data @ rest) u" and "length data = len - length got" and "0 < len - length got"
    and "\<And>part more v. part \<noteq> [] \<Longrightarrow> data = part @ more \<Longrightarrow> live w (more @ rest) v \<Longrightarrow> Q (Received part) v"
  shows "twp (recvP E (len - length got)) Q u"
proof (rule recv_eager [OF assms(1,4)])
  have "data \<noteq> []" using assms(3,4) by auto
  then show "sinput u \<noteq> []" using assms(2) by (simp add: live_def)
next
  fix part tail
  assume part: "part \<noteq> []" "length part \<le> len - length got" "sinput u = part @ tail"
  have "part @ tail = data @ rest" using part(3) assms(2) by (simp add: live_def)
  then obtain more where "data = part @ more" "tail = more @ rest"
    using part(2) assms(3) by (metis append_eq_append_conv_if append_eq_conv_conj)
  then show "Q (Received part) (u\<lparr>stick := Suc (stick u), sinput := tail\<rparr>)"
    using part(1) assms(2) by (intro assms(5)) (auto simp: live_def)
qed

lemma shrink: "part \<noteq> [] \<Longrightarrow> length got < len \<Longrightarrow> len - (length got + length part) < len - length got"
  by (cases part) auto

lemma readPreCommit_twp:
  assumes "in_time E request" and "eager E" and "\<And>t. se_steady_now E t < d" and "len < fuel"
    and "live w (data @ rest) v" and "length data = len"
    and "\<And>u. live w rest u \<Longrightarrow> Q (PreComplete, data) u"
  shows "twp (readPreCommit fuel E len request d) Q v"
  unfolding readPreCommit_def
proof (rule twp_iter [where I = "\<lambda>got u. \<exists>more. data = got @ more \<and> live w (more @ rest) u"
      and measure_of = "\<lambda>got. len - length got"])
  fix got u
  assume "\<exists>more. data = got @ more \<and> live w (more @ rest) u"
  then obtain more where more: "data = got @ more" "live w (more @ rest) u" by blast
  show "twp (readPreCommit_round fuel E len request d got)
     (\<lambda>r s'. case r of Again a' \<Rightarrow> (\<exists>more. data = a' @ more \<and> live w (more @ rest) s') \<and>
          len - length a' < len - length got | Done b \<Rightarrow> Q b s') u"
  proof (cases "more = []")
    case True
    then show ?thesis using more assms(6,7) by (simp add: readPreCommit_round_def twp_simps)
  next
    case False
    then have left: "0 < len - length got" "length more = len - length got" using more(1) assms(6) by auto
    show ?thesis
      unfolding readPreCommit_round_def twp_if twp_bind
      using left(1) more
      by (auto simp: twp_simps shrink intro!: pre_commit_stop_twp [OF assms(1,3)]
          read_round [OF assms(2) _ left(2,1), of w rest])
  qed
qed (use assms(4-6) in auto)

lemma readPostCommit_twp:
  assumes "in_time E request" and "eager E" and "\<And>t. se_steady_now E t < d" "\<And>t. se_steady_now E t < d'"
    and "len < fuel" and "live w (data @ rest) v" and "length data = len"
    and "\<And>u. live w rest u \<Longrightarrow> Q (PostComplete, data) u"
  shows "twp (readPostCommit fuel E len request d d') Q v"
  unfolding readPostCommit_def
proof (rule twp_iter [where I = "\<lambda>got u. \<exists>more. data = got @ more \<and> live w (more @ rest) u"
      and measure_of = "\<lambda>got. len - length got"])
  fix got u
  assume "\<exists>more. data = got @ more \<and> live w (more @ rest) u"
  then obtain more where more: "data = got @ more" "live w (more @ rest) u" by blast
  show "twp (readPostCommit_round E len request d d' got)
     (\<lambda>r s'. case r of Again a' \<Rightarrow> (\<exists>more. data = a' @ more \<and> live w (more @ rest) s') \<and>
          len - length a' < len - length got | Done b \<Rightarrow> Q b s') u"
  proof (cases "more = []")
    case True
    then show ?thesis
      unfolding readPostCommit_round_def twp_bind
      using more assms(7,8) by (auto simp: twp_simps intro!: post_commit_stop_twp [OF assms(1,3,4)])
  next
    case False
    then have left: "0 < len - length got" "length more = len - length got" using more(1) assms(7) by auto
    show ?thesis
      unfolding readPostCommit_round_def twp_bind
      using left(1) more
      by (auto simp: twp_simps shrink intro!: post_commit_stop_twp [OF assms(1,3,4)]
          read_round [OF assms(2) _ left(2,1), of w rest])
  qed
qed (use assms(5-7) in auto)

lemma terminate_twp:
  assumes "uncontended E" and "0 < fuel" and "live w input v" and "\<And>u. live w input u \<Longrightarrow> Q () u"
  shows "twp (terminateAndReap fuel E) Q v"
proof -
  obtain n where n: "fuel = Suc n" using assms(2) by (cases fuel) auto
  have retry: "twp (retry_interrupted fuel E) P u" if "P () (u\<lparr>stick := Suc (stick u)\<rparr>)" for P u
    using that assms(1) n by (simp add: retry_interrupted_def twp_simps uncontended_def)
  have reaped: "Q () (u\<lparr>stick := k, iprocess_id := p, ichildren := c\<rparr>)" if "live w input u" for u k p c
    using that by (intro assms(4)) (simp add: live_def)
  have closed: "live w input (v\<lparr>isocket_fd := fd, iopen := fds\<rparr>)" for fd fds
    using assms(3) by (simp add: live_def)
  show ?thesis
    unfolding terminateAndReap_def closeP_def
    using assms(3,4) closed reaped
    by (auto simp: twp_simps intro!: retry)
qed

lemma relocate_twp:
  assumes "helper_starts E" and "live w input v" and "\<And>fd' u. live w input u \<Longrightarrow> Q (Inr fd') u"
  shows "twp (relocate E fd other) Q v"
proof -
  obtain new where "ie_dupfd E (stick v) = Inr new" using assms(1) by (auto simp: helper_starts_def)
  then show ?thesis using assms(2)
    by (auto simp: relocate_def openP_def closeP_def twp_simps live_def intro!: assms(3))
qed

lemma start_twp:
  assumes "helper_starts E" and "live w input v" and "\<And>u. live w input u \<Longrightarrow> Q (Inr ()) u"
  shows "twp (start E) Q v"
proof -
  have action: "ie_file_action E t = None" for t using assms(1) by (simp add: helper_starts_def)
  have spawn: "twp (start_spawn E path a b) Q u" if "live w input u" for path a b u
  proof -
    obtain pid where "ie_spawn E (stick u + 4) = Inr pid" using assms(1) by (auto simp: helper_starts_def)
    then show ?thesis using that
      by (auto simp: start_spawn_def unless_failed_def spawn_helper_def closeP_def twp_simps action live_def
          eval_nat_numeral intro!: assms(3))
  qed
  obtain target where target: "ie_readlink E (stick v) = Inr target" "length target < 4096"
      "CHR ''/'' \<in> set (takeWhile (\<lambda>c. c \<noteq> CHR 0x00) target)"
    using assms(1) unfolding helper_starts_def by blast
  obtain separator where sep: "rfind_char (CHR ''/'') (takeWhile (\<lambda>c. c \<noteq> CHR 0x00) target) = Some separator"
    using target(3) by (cases "rfind_char (CHR ''/'') (takeWhile (\<lambda>c. c \<noteq> CHR 0x00) target)")
      (auto simp: rfind_char_None)
  obtain a b where pair: "ie_socketpair E (Suc (stick v)) = Inr (a, b)"
    using assms(1) unfolding helper_starts_def by blast
  have opened: "live w input (v\<lparr>stick := k, iopen := fds\<rparr>)" for k fds using assms(2) by (simp add: live_def)
  show ?thesis
    unfolding start_def currentExecutableSibling_def
    using target sep pair opened
    by (auto simp: twp_simps openP_def Let_def intro!: relocate_twp [OF assms(1), of w input] spawn)
qed

lemma nextRequestId_twp:
  assumes "uncontended E" and "0 < fuel" and "inext v \<noteq> 0"
    and "\<And>u. sinput u = sinput v \<Longrightarrow> Q (inext v) u"
  shows "twp (nextRequestId fuel E) Q v"
proof -
  obtain n where n: "fuel = Suc n" using assms(2) by (cases fuel) auto
  have "fetch_add_id E v = Some (Inr (inext v), v\<lparr>stick := Suc (stick v), inext := inext v + 1\<rparr>)"
    using assms(1) by (simp add: fetch_add_id_def uncontended_def Let_def)
  moreover have "Q (inext v) (v\<lparr>stick := Suc (stick v), inext := inext v + 1\<rparr>)" by (rule assms(4)) simp
  ultimately show ?thesis using n assms(3)
    by (simp add: nextRequestId_def twp_def bindP_def returnP_def)
qed

lemma acquireInFlight_twp:
  assumes "uncontended E" and "0 < fuel" and "in_flight (ipermits v) < maximum"
    and "\<And>u. sinput u = sinput v \<Longrightarrow> inext u = inext v \<Longrightarrow> Q True u"
  shows "twp (acquireInFlight fuel E maximum) Q v"
proof -
  obtain n where n: "fuel = Suc n" using assms(2) by (cases fuel) auto
  show ?thesis using assms(1,3) n
    by (auto simp: acquireInFlight_def twp_def bindP_def returnP_def load_in_flight_def Let_def
        compare_exchange_weak_def others_on_permits_def uncontended_def intro!: assms(4))
qed

lemma ready_bytes_inject:
  assumes "frame_bytes (makeServiceHelperReady rid st) @ xs = frame_bytes (makeServiceHelperReady rid' st') @ ys"
  shows "rid = rid'"
proof -
  have "frame_bytes (makeServiceHelperReady rid st) = frame_bytes (makeServiceHelperReady rid' st')"
    using assms by (auto simp: append_eq_append_conv frame_bytes_length)
  then have "makeServiceHelperReady rid st = makeServiceHelperReady rid' st'"
    by (metis frame_of_frame_bytes wf_make_frames(3))
  then have "request_id (makeServiceHelperReady rid st) = request_id (makeServiceHelperReady rid' st')" by simp
  then show ?thesis by (simp add: makeServiceHelperReady_def)
qed

text \<open>The answer of a helper that completes the call.\<close>

lemma completed_response:
  assumes "length data \<le> kMaximumServicePayloadBytes" and "rid \<noteq> 0"
  defines "f \<equiv> makeServiceHelperResponse rid RespCompleted (of_nat (length data))"
  shows "validateServiceHelperResponse f rid" and "unat (payload_bytes f) = length data"
    and "payload_bytes f = 0 \<longleftrightarrow> data = []"
proof -
  have n: "unat (ucast (of_nat (length data) :: 64 word) :: 32 word) = length data"
    using assms(1) by (simp only: unat_ucast_size) (simp add: kMaximumServicePayloadBytes_def)
  then show "unat (payload_bytes f) = length data" by (simp add: f_def makeServiceHelperResponse_def)
  then show "payload_bytes f = 0 \<longleftrightarrow> data = []" by (metis length_0_conv unat_eq_zero)
  show "validateServiceHelperResponse f rid" using n assms(1,2) by (simp add: f_def frame_simps)
qed

lemma read_response_twp:
  assumes env: "in_time E request" "eager E" "uncontended E" and "\<And>t. se_steady_now E t < d"
    and fuel: "kMaximumServicePayloadBytes < fuel" and data: "length data \<le> kMaximumServicePayloadBytes" "rid \<noteq> 0"
    and "live w (response_bytes rid RespCompleted data @ rest) v"
    and "\<And>u. live w rest u \<Longrightarrow> Q (makeServiceHelperResponse rid RespCompleted (of_nat (length data)), data) u"
  shows "twp (read_response fuel E request d rid) Q v"
proof -
  define f where "f = makeServiceHelperResponse rid RespCompleted (of_nat (length data))"
  note response = completed_response [OF data, folded f_def]
  define d' where "d' = se_steady_now E (stick v) + milliseconds (sr_call_timeout_ms request)"
  have d': "se_steady_now E t < d'" for t using env(1) by (simp add: in_time_def d'_def)
  have decoded: "frame_of_bytes (frame_bytes f) = f" by (simp add: f_def frame_of_frame_bytes)
  have small: "frame_size < fuel" "length data < fuel" "0 < fuel"
    using fuel data by (simp_all add: frame_size_def kMaximumServicePayloadBytes_def)
  have read: "twp (read_postcommit fuel E request d d' len) P u"
    if "live w (bytes @ tail) u" "length bytes = len" "len < fuel" "\<And>x. live w tail x \<Longrightarrow> P bytes x" for P u bytes tail len
    unfolding read_postcommit_def twp_bind
    by (rule readPostCommit_twp [OF env(1,2) assms(4) d' that(3,1,2)]) (simp add: twp_simps that(4))
  have payload: "twp (if payload_bytes f = 0 then returnP []
            else read_postcommit fuel E request d d' (unat (payload_bytes f))) P u"
    if "live w (data @ rest) u" "\<And>x. live w rest x \<Longrightarrow> P data x" for P u
    using that small response by (auto simp: twp_simps intro!: read [of data rest])
  have start: "live w (frame_bytes f @ data @ rest) (v\<lparr>stick := k\<rparr>)" for k
    using assms(8) by (simp add: response_bytes_def f_def)
  show ?thesis
    unfolding read_response_def Let_def twp_bind [of "lookP g" for g] twp_look d'_def [symmetric]
      twp_bind [of "read_postcommit fuel E request d d' frame_size"]
  proof (rule read [OF start _ small(1)])
    show "length (frame_bytes f) = frame_size" by (simp add: f_def frame_bytes_length)
  next
    fix u
    assume u: "live w (data @ rest) u"
    have "twp (bindP (if payload_bytes f = 0 then returnP []
            else read_postcommit fuel E request d d' (unat (payload_bytes f)))
       (\<lambda>response_payload. thenP (terminateAndReap fuel E) (returnP (f, response_payload)))) Q u"
      unfolding twp_bind twp_then twp_return
      by (rule payload [OF u], rule terminate_twp [OF env(3) small(3)], assumption, rule assms(9) [folded f_def])
    then show "twp (if \<not> validateServiceHelperResponse (frame_of_bytes (frame_bytes f)) rid
         then abandon fuel E (uncertainError ''invalid_service_response''
                ''ROS1 service helper returned an invalid post-commit frame'')
         else bindP (if payload_bytes (frame_of_bytes (frame_bytes f)) = 0 then returnP []
            else read_postcommit fuel E request d d' (unat (payload_bytes (frame_of_bytes (frame_bytes f)))))
       (\<lambda>response_payload. thenP (terminateAndReap fuel E)
         (returnP (frame_of_bytes (frame_bytes f), response_payload)))) Q u"
      using response(1) by (simp only: decoded) simp
  qed
qed

lemma await_ready_twp:
  assumes env: "in_time E request" "eager E" and "\<And>t. se_steady_now E t < d" and "frame_size < fuel" and "rid \<noteq> 0"
    and "live w (frame_bytes (makeServiceHelperReady rid ReadyReady) @ rest) v" and "\<And>u. live w rest u \<Longrightarrow> Q () u"
  shows "twp (await_ready fuel E request d rid) Q v"
proof -
  have ready: "validateServiceHelperReady (makeServiceHelperReady rid ReadyReady) rid"
    "status (makeServiceHelperReady rid ReadyReady) = 1"
    using assms(5) by (simp_all add: frame_simps)
  show ?thesis
    unfolding await_ready_def twp_bind
    by (rule readPreCommit_twp [OF env assms(3,4,6)])
      (simp_all add: frame_bytes_length frame_of_frame_bytes judge_ready_def ready twp_simps assms(7))
qed

lemma exchange_twp:
  assumes env: "in_time E request" "eager E" "uncontended E" and fuel: "kMaximumServicePayloadBytes < fuel"
    and lens: "length (sr_service request) \<le> kMaximumServiceNameBytes" "length (service_md5 description) = kServiceMd5Bytes"
      "length payload \<le> kMaximumServicePayloadBytes" "length data \<le> kMaximumServicePayloadBytes"
    and rid: "inext v \<noteq> 0"
    and input: "sinput v = frame_bytes (makeServiceHelperReady (inext v) ReadyReady) @
      response_bytes (inext v) RespCompleted data @ rest"
    and response: "template_of (service_response description) = Some t"
      "bf_createMessageFromTemplate B t data = Inr (Some message, length data)" "encode limits message = Inr json"
  shows "twp (exchange fuel E B limits request description payload started_at) (\<lambda>result _. sres_response result = json) v"
proof -
  have small: "0 < fuel" "frame_size < fuel" "length (frame_bytes (makeServiceHelperCommit r)) < fuel"
      "length (frame_bytes (makeServiceHelperRequest r n m p x)) < fuel"
      "length (string_bytes (sr_service request)) < fuel" "length (string_bytes (service_md5 description)) < fuel"
      "length payload < fuel" for r n m p x
    using fuel lens by (simp_all add: frame_bytes_length frame_size_def string_bytes_def
        kMaximumServicePayloadBytes_def kMaximumServiceNameBytes_def kServiceMd5Bytes_def)
  have decoded: "decode_response B limits request description
      (makeServiceHelperResponse (inext v) RespCompleted (of_nat (length data))) data = Inr json"
    using response by (simp add: decode_response_def makeServiceHelperResponse_def)
  have complete: "twp (commit_and_complete fuel E B limits request description started_at d (inext v)) (\<lambda>result _. sres_response result = json) u"
    if d: "\<And>t. se_steady_now E t < d" and u: "live w (response_bytes (inext v) RespCompleted data @ rest) u" for d u w
    unfolding commit_and_complete_def twp_then complete_call_def
    by (rule require_twp [OF env(1) u], rule send_precommit_twp [OF env(1,2) d small(3)], assumption,
        rule twp_catch, unfold twp_bind, rule read_response_twp [OF env d fuel lens(4) rid], assumption)
      (simp add: decoded twp_simps)
  have part: "twp (if payload \<noteq> [] then send_precommit fuel E request d payload else returnP ()) Q u"
    if "\<And>t. se_steady_now E t < d" "live w i u" "\<And>x. live w i x \<Longrightarrow> Q () x" for d u w i Q
  proof (cases "payload = []")
    case False
    then show ?thesis
      by simp (rule send_precommit_twp [OF env(1,2) that(1) small(7) that(2)], rule that(3))
  qed (use that in \<open>simp add: twp_return\<close>)
  have request: "twp (send_precommit fuel E request d (frame_bytes (makeServiceHelperRequest (inext v) n m p x)))
     (\<lambda>_. twp (send_precommit fuel E request d (string_bytes (sr_service request)))
       (\<lambda>_. twp (send_precommit fuel E request d (string_bytes (service_md5 description)))
         (\<lambda>_. twp (if payload \<noteq> [] then send_precommit fuel E request d payload else returnP ())
           (\<lambda>_. twp (await_ready fuel E request d (inext v))
             (\<lambda>_. twp (commit_and_complete fuel E B limits request description started_at d (inext v)) (\<lambda>result _. sres_response result = json)))))) u"
    if d: "\<And>t. se_steady_now E t < d" and u: "sinput u = sinput v" for d u n m p x
  proof -
    have start: "live u (frame_bytes (makeServiceHelperReady (inext v) ReadyReady) @
        response_bytes (inext v) RespCompleted data @ rest) u"
      using input u by (simp add: live_def)
    note send = send_precommit_twp [OF env(1,2) d]
    show ?thesis
      by (rule send [OF small(4) start], rule send [OF small(5)], assumption, rule send [OF small(6)], assumption,
          rule part [OF d], assumption, rule await_ready_twp [OF env(1,2) d small(2) rid], assumption,
          rule complete [OF d])
  qed
  show ?thesis
    unfolding exchange_def Let_def twp_bind twp_then
    apply (rule runtimeDeadline_twp [OF env(1), of v "sinput v"], simp add: live_def)
    subgoal for d u
      using nextRequestId_twp [OF env(3) small(1), of u] rid request [of d]
      by (auto simp: live_def)
    done
qed

lemma with_helper_twp:
  assumes starts: "helper_starts E" and "uncontended E" "0 < fuel"
    and exchange: "\<And>u. sinput u = sinput v \<Longrightarrow> inext u = inext v \<Longrightarrow>
      twp (exchange fuel E B limits request description payload started_at) (\<lambda>r _. P r) u"
  shows "twp (with_helper fuel E B limits request description payload started_at) (\<lambda>r _. P r) v"
proof -
  let ?v = "v\<lparr>iprocess_id := -1, isocket_fd := -1\<rparr>"
  show ?thesis
    unfolding with_helper_def twp_then twp_modify
  proof (rule twp_finally, unfold twp_bind, rule start_twp [OF starts, of ?v "sinput ?v"], goal_cases)
    case (2 u)
    have "twp (exchange fuel E B limits request description payload started_at) (\<lambda>r _. P r) u"
      by (rule exchange) (use 2 in \<open>simp_all add: live_def\<close>)
    then have "twp (exchange fuel E B limits request description payload started_at)
        (\<lambda>r. twp (terminateAndReap fuel E) (\<lambda>_ _. P r)) u"
      by (rule twp_mono) (rule terminate_twp [OF assms(2,3)], auto simp: live_def)
    then show ?case by simp
  qed (simp add: live_def)
qed

lemma call_twp:
  assumes env: "in_time E request" "eager E" "uncontended E" "helper_starts E"
    and fuel: "kMaximumServicePayloadBytes < fuel"
    and prep: "prepare_call B J R limits request = Inr (description, payload)"
    and valid: "validServiceMd5 (service_md5 description)" "sr_service request \<noteq> []"
      "length (sr_service request) \<le> kMaximumServiceNameBytes"
    and free: "in_flight (ipermits w) < maximum" and rid: "inext w \<noteq> 0"
    and data: "length data \<le> kMaximumServicePayloadBytes"
    and input: "sinput w = frame_bytes (makeServiceHelperReady (inext w) ReadyReady) @
      response_bytes (inext w) RespCompleted data @ rest"
    and response: "template_of (service_response description) = Some t"
      "bf_createMessageFromTemplate B t data = Inr (Some message, length data)" "encode limits message = Inr json"
  shows "twp (call fuel E B J R limits maximum request) (\<lambda>result _. sres_response result = json) w"
proof -
  have small: "0 < fuel" using fuel by simp
  have payload: "length payload \<le> kMaximumServicePayloadBytes"
    using prep by (auto simp: prepare_call_def bindE_eq_Inr serializeServiceRequest_def Let_def error_defs split: if_splits)
  have md5: "length (service_md5 description) = kServiceMd5Bytes" using valid(1) by (simp add: validServiceMd5_def)
  have served: "twp (with_helper fuel E B limits request description payload started_at)
      (\<lambda>result _. sres_response result = json) u"
    if "sinput u = sinput w" "inext u = inext w" for u started_at
  proof (rule with_helper_twp [OF env(4,3) small])
    fix x :: invoker_world
    assume x: "sinput x = sinput u" "inext x = inext u"
    show "twp (exchange fuel E B limits request description payload started_at)
        (\<lambda>result _. sres_response result = json) x"
      by (rule exchange_twp [OF env(1-3) fuel valid(3) md5 payload data _ _ response])
        (use x that rid input in simp_all)
  qed
  have release: "twp (releaseInFlight E maximum) (\<lambda>_ _. P) u" if P for u P
    using that by (simp add: twp_def releaseInFlight_def Let_def)
  have admitted: "twp (bindP (acquireInFlight fuel E maximum) (\<lambda>acquired.
         if \<not> acquired
         then liftP (resourceExhaustedError ''service_call_busy''
                ''maximum concurrent ROS1 service calls reached'')
         else finallyP
           (with_helper fuel E B limits request description payload started_at)
           (releaseInFlight E maximum))) (\<lambda>result _. sres_response result = json) u"
    if "live w (sinput w) u" for u started_at
    unfolding twp_bind
  proof (rule acquireInFlight_twp [OF env(3) small])
    show "in_flight (ipermits u) < maximum" using that free by (simp add: live_def)
  next
    fix x :: invoker_world
    assume x: "sinput x = sinput u" "inext x = inext u"
    have "twp (finallyP (with_helper fuel E B limits request description payload started_at)
           (releaseInFlight E maximum)) (\<lambda>result _. sres_response result = json) x"
      by (rule twp_finally, rule twp_mono [OF served]) (use x that release in \<open>simp_all add: live_def\<close>)
    then show "twp (if \<not> True
         then liftP (resourceExhaustedError ''service_call_busy''
                ''maximum concurrent ROS1 service calls reached'')
         else finallyP
           (with_helper fuel E B limits request description payload started_at)
           (releaseInFlight E maximum)) (\<lambda>result _. sres_response result = json) x"
      by simp
  qed
  have start: "live w (sinput w) (w\<lparr>stick := k\<rparr>)" for k by (simp add: live_def)
  show ?thesis
    unfolding call_def twp_bind [of "lookP f" for f] twp_look twp_then prep twp_bind [of "liftP r" for r] twp_lift prod.case
    by (rule require_twp [OF env(1) start], rule require_twp [OF env(1)], assumption)
      (use valid admitted in \<open>simp add: not_less [symmetric]\<close>)
qed

section \<open>Properties of a call\<close>

text \<open>
  C4. How a service call fails says whether the service may have run, for every behaviour of
  the helper, the socket, the clocks and the cancellation: an error that is not of the class
  \<open>uncertain\<close> is thrown only while the helper has been sent nothing or a proper beginning of
  the request and its commit frame, and an uncertain error or a result only when the helper has
  been sent all of it, the commit frame to its last byte.
\<close>

theorem service_call_fenced:
  assumes "call fuel E B J R limits maximum request w = Some (r, w')"
    and "own_permits (ipermits w) = 0"
    and "jsoncpp_numbers J" and "ros_time R" and "plain_libraries B R"
  shows "(if \<exists>e. r = Inl e \<and> \<not> uncertain e
     then ssent w' = ssent w \<or>
       (\<exists>description payload rid j. prepare_call B J R limits request = Inr (description, payload) \<and>
          j < length (call_bytes rid request description payload) \<and>
          ssent w' = ssent w @ take j (call_bytes rid request description payload))
     else \<exists>description payload rid. prepare_call B J R limits request = Inr (description, payload) \<and>
       rid \<noteq> 0 \<and> ssent w' = ssent w @ call_bytes rid request description payload)"
proof -
  have "wp (call fuel E B J R limits maximum request)
     (\<lambda>result v. \<exists>description payload rid. prepare_call B J R limits request = Inr (description, payload) \<and>
       rid \<noteq> 0 \<and> ssent v = ssent w @ call_bytes rid request description payload)
     (\<lambda>e v. if uncertain e
       then \<exists>description payload rid. prepare_call B J R limits request = Inr (description, payload) \<and>
         rid \<noteq> 0 \<and> ssent v = ssent w @ call_bytes rid request description payload
       else ssent v = ssent w \<or>
         (\<exists>description payload rid. prepare_call B J R limits request = Inr (description, payload) \<and>
           sent_partly (call_bytes rid request description payload) w v)) w"
  proof (rule call_vc [OF assms(2)], goal_cases)
    case (2 v e)
    then have "\<not> uncertain e" using prepare_certain [OF assms(3-5)] by blast
    then show ?case using 2 by simp
  qed auto
  then show ?thesis
    using assms(1) by (cases r) (auto simp: wp_def sent_partly_def)
qed

text \<open>
  C8. A call gives everything back, on every way out: no child process and no descriptor is
  left over, the permit is returned, and the counter of calls in flight still counts exactly
  the permits that are held and is within its maximum, whatever the other calls did meanwhile.
\<close>

theorem service_call_resources:
  assumes "call fuel E B J R limits maximum request w = Some (r, w')"
    and "own_permits (ipermits w) = 0" and "permits_ok maximum (ipermits w)" and "posix_numbers E"
  shows "ichildren w' = ichildren w \<and> iopen w' = iopen w \<and> own_permits (ipermits w') = 0 \<and>
    permits_ok maximum (ipermits w')"
proof -
  have "wp (call fuel E B J R limits maximum request) (\<lambda>_. call_done E maximum w) (\<lambda>_. call_done E maximum w) w"
    by (rule call_vc [OF assms(2)])
  then have "call_done E maximum w w'" using assms(1) by (cases r) (simp_all add: wp_def)
  then show ?thesis using assms(2-4) by (simp add: call_done_def)
qed

text \<open>
  C12. The result of a call is the response of the helper and nothing else: when a call
  returns, the bytes it read are the ready frame for its request, the frame of a completed
  response and exactly the message that frame announces; the introspection library has
  consumed all of that message, and the JSON value is its encoding.
\<close>

theorem service_call_result:
  assumes "call fuel E B J R limits maximum request w = Some (Inr result, w')"
    and "own_permits (ipermits w) = 0"
  shows "sres_service result = sr_service request \<and> sres_service_type result = sr_service_type request \<and>
    (\<exists>description payload rid data t message.
       prepare_call B J R limits request = Inr (description, payload) \<and>
       ssent w' = ssent w @ call_bytes rid request description payload \<and>
       sinput w = frame_bytes (makeServiceHelperReady rid ReadyReady) @
         frame_bytes (makeServiceHelperResponse rid RespCompleted (of_nat (length data))) @ data @ sinput w' \<and>
       template_of (service_response description) = Some t \<and>
       bf_createMessageFromTemplate B t data = Inr (Some message, length data) \<and>
       encode limits message = Inr (sres_response result))"
proof -
  have "wp (call fuel E B J R limits maximum request)
     (\<lambda>result v. \<exists>description payload rid data. prepare_call B J R limits request = Inr (description, payload) \<and>
       ssent v = ssent w @ call_bytes rid request description payload \<and>
       sinput w = frame_bytes (makeServiceHelperReady rid ReadyReady) @ response_bytes rid RespCompleted data @ sinput v \<and>
       result_of B limits request description data result)
     (\<lambda>_ _. True) w"
    by (rule call_vc [OF assms(2)]) auto
  from wp_Inr [OF this assms(1)] show ?thesis
    unfolding result_of_def response_bytes_def append_assoc by blast
qed

lemma call_answered:
  assumes "in_time E request" "eager E" "uncontended E" "helper_starts E"
    and "kMaximumServicePayloadBytes < fuel"
    and "prepare_call B J R limits request = Inr (description, payload)"
    and "validServiceMd5 (service_md5 description)" "sr_service request \<noteq> []"
      "length (sr_service request) \<le> kMaximumServiceNameBytes"
    and "in_flight (ipermits w) < maximum" and "inext w \<noteq> 0" and "own_permits (ipermits w) = 0"
    and "length data \<le> kMaximumServicePayloadBytes"
    and "sinput w = frame_bytes (makeServiceHelperReady (inext w) ReadyReady) @
      response_bytes (inext w) RespCompleted data @ rest"
    and "template_of (service_response description) = Some t"
      "bf_createMessageFromTemplate B t data = Inr (Some message, length data)" "encode limits message = Inr json"
  shows "\<exists>result w'. call fuel E B J R limits maximum request w = Some (Inr result, w') \<and>
    sres_response result = json \<and> ssent w' = ssent w @ call_bytes (inext w) request description payload"
proof -
  obtain result w' where run: "call fuel E B J R limits maximum request w = Some (Inr result, w')"
      "sres_response result = json"
    using twpD [OF call_twp [OF assms(1-11,13-)]] by blast
  have "wp (call fuel E B J R limits maximum request)
     (\<lambda>result v. \<exists>rid input. ssent v = ssent w @ call_bytes rid request description payload \<and>
       sinput w = frame_bytes (makeServiceHelperReady rid ReadyReady) @ input) (\<lambda>_ _. True) w"
    by (rule call_vc [OF assms(12)]) (use assms(6) in auto)
  from wp_Inr [OF this run(1)]
  obtain rid input where sent: "ssent w' = ssent w @ call_bytes rid request description payload"
      "sinput w = frame_bytes (makeServiceHelperReady rid ReadyReady) @ input"
    by blast
  have "rid = inext w" using ready_bytes_inject assms(14) sent(2) by metis
  then show ?thesis using run sent(1) by blast
qed

text \<open>
  C17. A call that is answered returns the answer: if the call is not cancelled, its deadlines
  are not reached, a helper can be started, a permit is free and no other call interferes, the
  socket moves bytes in portions of any size, and the helper answers with the ready frame and a
  completed response that the introspection library and the codec accept, then the call returns
  that response, and has sent the request and the commit with its own identifier. More rounds
  than the largest payload has bytes are enough.
\<close>

theorem service_call_completes:
  assumes "in_time E request" "eager E" "uncontended E" "helper_starts E"
    and "kMaximumServicePayloadBytes < fuel"
    and "prepare_call B J R limits request = Inr (description, payload)"
    and "validServiceMd5 (service_md5 description)" "sr_service request \<noteq> []"
      "length (sr_service request) \<le> kMaximumServiceNameBytes"
    and "in_flight (ipermits w) < maximum" and "inext w \<noteq> 0" and "own_permits (ipermits w) = 0"
    and "length data \<le> kMaximumServicePayloadBytes"
    and "sinput w = frame_bytes (makeServiceHelperReady (inext w) ReadyReady) @
      response_bytes (inext w) RespCompleted data @ rest"
    and "template_of (service_response description) = Some t"
      "bf_createMessageFromTemplate B t data = Inr (Some message, length data)" "encode limits message = Inr json"
  shows "\<exists>result w'. call fuel E B J R limits maximum request w = Some (Inr result, w') \<and>
    sres_response result = json \<and> ssent w' = ssent w @ call_bytes (inext w) request description payload"
  by (rule call_answered [OF assms])

section \<open>Example\<close>

text \<open>A call of a service like \<^verbatim>\<open>std_srvs/SetBool\<close>, answered by its helper.\<close>

definition bool_message :: "string \<Rightarrow> bool \<Rightarrow> msg" where
  "bool_message field b = MCompound [field] [MBool b]"

definition sample_description :: "string service_description" where
  "sample_description =
     \<lparr>service_md5 = replicate 32 (CHR ''a''), service_request = Some \<lparr>message_template = Some ''data''\<rparr>,
      service_response = Some \<lparr>message_template = Some ''success''\<rparr>\<rparr>"

definition sample_library :: "string babel_fish" where
  "sample_library =
     \<lparr>bf_createMessage = \<lambda>_. Inr (bool_message ''data'' False),
      bf_getServiceDescription = \<lambda>_. Inr (Some sample_description),
      bf_createEmptyMessageFromTemplate = \<lambda>field. bool_message field False,
      bf_translateMessage = \<lambda>_. Inr (Some [1]),
      bf_createMessageFromTemplate = \<lambda>field bytes. Inr (Some (bool_message field (bytes = [1])), length bytes),
      bf_sizeInBytes = \<lambda>_. 1, bf_writeToStream = \<lambda>m. [if m = bool_message ''data'' True then 1 else 0]\<rparr>"

definition sample_call :: service_call_request where
  "sample_call =
     \<lparr>sr_service = ''/set'', sr_service_type = ''std_srvs/SetBool'',
      sr_request = JObject [(''data'', JBool True)], sr_wait_for_service_ms = 100, sr_call_timeout_ms = 100,
      sr_deadline_unix_nanos = 50, sr_has_cancellation = True\<rparr>"

definition sample_invoker_env :: invoker_env where
  "sample_invoker_env =
     \<lparr>se_recv = (\<lambda>t. RecvBytes 3), se_send = (\<lambda>t. SendBytes 5), se_poll = (\<lambda>t. PollEvents True False),
      se_steady_now = (\<lambda>t. 7), se_ros_ok = (\<lambda>t. True), ie_cancelled = (\<lambda>t. False),
      ie_system_now = (\<lambda>t. 20), ie_readlink = (\<lambda>t. Inr ''/bin/adapter''),
      ie_socketpair = (\<lambda>t. Inr (198, 5)), ie_dupfd = (\<lambda>t. Inr 199), ie_file_action = (\<lambda>t. None),
      ie_spawn = (\<lambda>t. Inr 77), ie_interrupted = (\<lambda>t. False), ie_others = (\<lambda>t. []),
      ie_spurious = (\<lambda>t. False), ie_ids = (\<lambda>t. 0)\<rparr>"

definition sample_invoker_world :: invoker_world where
  "sample_invoker_world =
     \<lparr>stick = 0,
      sinput = frame_bytes (makeServiceHelperReady 9 ReadyReady) @ response_bytes 9 RespCompleted [1] @ [],
      ssent = [], iprocess_id = -1, isocket_fd = -1, iopen = {#0, 1, 2#}, ichildren = {#}, ispawned = [],
      ipermits = \<lparr>in_flight = 3, own_permits = 0, other_permits = 3\<rparr>, inext = 9, itimeouts = []\<rparr>"

lemma sample_environment:
  "in_time sample_invoker_env sample_call" "eager sample_invoker_env" "uncontended sample_invoker_env"
  "helper_starts sample_invoker_env" "posix_numbers sample_invoker_env"
  by (simp_all add: in_time_def eager_def uncontended_def helper_starts_def posix_numbers_def
      sample_invoker_env_def sample_call_def time_point_max_def milliseconds_def)

lemma sample_prepared:
  "prepare_call sample_library jsoncpp_reference ros_time_reference default_codec_limits sample_call =
     Inr (sample_description, [1])"
  by (simp add: prepare_call_def resolveService_def createServiceRequest_def createServiceResponse_def
      template_of_def sample_library_def sample_description_def sample_call_def bool_message_def bindE_def
      decode_def decodeValue.simps checkDepth_def default_codec_limits_def rejectUnknownMembers_def
      getMemberNames_def isMember_def json_member_def json_get_def decodeScalar_def mapE_def booleanValue_def
      serializeServiceRequest_def kMaximumServicePayloadBytes_def)

lemma sample_encoded:
  "encode default_codec_limits (bool_message ''success'' True) = Inr (JObject [(''success'', JBool True)])"
  by (simp add: encode_def bool_message_def encodeValue.simps checkDepth_def default_codec_limits_def
      encodeScalar_def json_set_def)

lemma sample_admitted:
  "validServiceMd5 (service_md5 sample_description)" "sr_service sample_call \<noteq> []"
  "length (sr_service sample_call) \<le> kMaximumServiceNameBytes"
  "in_flight (ipermits sample_invoker_world) < 16" "inext sample_invoker_world \<noteq> 0"
  "own_permits (ipermits sample_invoker_world) = 0" "length [1 :: byte] \<le> kMaximumServicePayloadBytes"
  "permits_ok 16 (ipermits sample_invoker_world)"
  by (simp_all add: validServiceMd5_def sample_description_def kServiceMd5Bytes_def hex_character_def list_all_iff
      sample_call_def kMaximumServiceNameBytes_def sample_invoker_world_def kMaximumServicePayloadBytes_def
      permits_ok_def)

lemma sample_answered:
  "sinput sample_invoker_world =
     frame_bytes (makeServiceHelperReady (inext sample_invoker_world) ReadyReady) @
     response_bytes (inext sample_invoker_world) RespCompleted [1] @ []"
  "template_of (service_response sample_description) = Some ''success''"
  "bf_createMessageFromTemplate sample_library ''success'' [1] =
     Inr (Some (bool_message ''success'' True), length [1 :: byte])"
  by (simp_all add: sample_invoker_world_def template_of_def sample_description_def sample_library_def)

lemma sample_libraries: "plain_libraries sample_library ros_time_reference"
  by (auto simp: plain_libraries_def sample_library_def bool_message_def ros_time_reference_def Let_def
      stdError_def adapter_error_def split: if_splits)

abbreviation sample_service_call ::
  "invoker_world \<Rightarrow> (service_call_result result \<times> invoker_world) option" where
  "sample_service_call \<equiv>
     call (Suc kMaximumServicePayloadBytes) sample_invoker_env sample_library jsoncpp_reference
       ros_time_reference default_codec_limits 16 sample_call"

lemma sample_returns:
  "\<exists>result w'. sample_service_call sample_invoker_world = Some (Inr result, w')"
  using twpD [OF call_twp [OF sample_environment(1-4) _ sample_prepared sample_admitted(1-5,7)
      sample_answered sample_encoded, of "Suc kMaximumServicePayloadBytes"]] by simp blast

theorem service_call_completes_witness:
  "\<exists>result w'. sample_service_call sample_invoker_world = Some (Inr result, w') \<and>
     sres_response result = JObject [(''success'', JBool True)]"
  using service_call_completes [OF sample_environment(1-4) _ sample_prepared sample_admitted(1-7)
      sample_answered sample_encoded, of "Suc kMaximumServicePayloadBytes"] by simp blast

theorem service_call_fenced_witness:
  "\<exists>result w' rid. sample_service_call sample_invoker_world = Some (Inr result, w') \<and> rid \<noteq> 0 \<and>
     ssent w' = ssent sample_invoker_world @ call_bytes rid sample_call sample_description [1]"
proof -
  obtain result w' where run: "sample_service_call sample_invoker_world = Some (Inr result, w')"
    using sample_returns by blast
  show ?thesis
    using service_call_fenced [OF run sample_admitted(6) reference_numbers.jsoncpp_numbers_axioms
        reference_time.ros_time_axioms sample_libraries] run sample_prepared by auto
qed

theorem service_call_resources_witness:
  "\<exists>r w'. sample_service_call sample_invoker_world = Some (r, w') \<and>
     ichildren w' = {#} \<and> iopen w' = {#0, 1, 2#} \<and> own_permits (ipermits w') = 0 \<and>
     permits_ok 16 (ipermits w')"
proof -
  obtain result w' where run: "sample_service_call sample_invoker_world = Some (Inr result, w')"
    using sample_returns by blast
  show ?thesis
    using service_call_resources [OF run sample_admitted(6,8) sample_environment(5)] run
    by (simp add: sample_invoker_world_def)
qed

theorem service_call_result_witness:
  "\<exists>result w'. sample_service_call sample_invoker_world = Some (Inr result, w') \<and>
     sres_service result = ''/set'' \<and> sres_service_type result = ''std_srvs/SetBool''"
proof -
  obtain result w' where run: "sample_service_call sample_invoker_world = Some (Inr result, w')"
    using sample_returns by blast
  show ?thesis
    using service_call_result [OF run sample_admitted(6)] run by (simp add: sample_call_def)
qed

end
