(* ===== verification/Service_Composition.thy ===== *)
theory Service_Composition
  imports Service_Helper Service_Progress "HOL-Library.Sublist"
begin

text \<open>
  The parent and its helper together: what the invoker writes to the socket is what the helper
  reads, and the other way round. The whole stream of a call is a request that announces its
  parts, the parts, and the commit frame of the request. A helper that has received less than
  all of it does not enter the native call; one that has received all of it answers.
\<close>

section \<open>The stream of a call\<close>

definition announced :: "frame \<Rightarrow> byte list \<Rightarrow> byte list \<Rightarrow> byte list \<Rightarrow> bool" where
  "announced f service md5 payload \<longleftrightarrow>
     wf_frame f \<and> length service = unat (service_name_bytes f) \<and> length md5 = unat (service_md5_bytes f) \<and>
     length payload = unat (payload_bytes f)"

definition whole_stream :: "frame \<Rightarrow> byte list \<Rightarrow> byte list \<Rightarrow> byte list \<Rightarrow> byte list" where
  "whole_stream f service md5 payload =
     request_stream f service md5 payload @ frame_bytes (makeServiceHelperCommit (request_id f))"

text \<open>Less than a whole stream has been sent.\<close>

definition commit_withheld :: "byte list \<Rightarrow> bool" where
  "commit_withheld sent \<longleftrightarrow>
     sent = [] \<or>
     (\<exists>f service md5 payload j. announced f service md5 payload \<and>
        j < length (whole_stream f service md5 payload) \<and> sent = take j (whole_stream f service md5 payload))"

lemma whole_stream_length:
  assumes "announced f service md5 payload"
  shows "length (whole_stream f service md5 payload) =
    2 * frame_size + unat (service_name_bytes f) + unat (service_md5_bytes f) + unat (payload_bytes f)"
  using assms frame_bytes_length [of f] frame_bytes_length [of "makeServiceHelperCommit (request_id f)"]
  by (simp add: announced_def whole_stream_def request_stream_def)

lemma whole_stream_frame:
  assumes "announced f service md5 payload"
  shows "take frame_size (whole_stream f service md5 payload) = frame_bytes f"
  using assms frame_bytes_length [of f] by (simp add: announced_def whole_stream_def request_stream_def)

text \<open>A stream is not a beginning of another one.\<close>

lemma whole_stream_maximal:
  assumes "announced f service md5 payload" and "announced f' service' md5' payload'"
    and "prefix (whole_stream f service md5 payload) (take j (whole_stream f' service' md5' payload'))"
  shows "length (whole_stream f' service' md5' payload') \<le> j"
proof -
  define s where "s = whole_stream f service md5 payload"
  define s' where "s' = whole_stream f' service' md5' payload'"
  have frames: "take frame_size s = frame_bytes f" "take frame_size s' = frame_bytes f'"
    using whole_stream_frame assms(1,2) by (simp_all add: s_def s'_def)
  have long: "frame_size \<le> length s" using whole_stream_length [OF assms(1)] by (simp add: s_def)
  obtain rest where rest: "take j s' = s @ rest" using assms(3) by (auto simp: prefix_def s_def s'_def)
  have len: "length s \<le> j" using arg_cong [OF rest, of length] by simp
  have "take frame_size (take j s') = take frame_size s" unfolding rest using long by simp
  moreover have "take frame_size (take j s') = take frame_size s'" using len long by simp
  ultimately have eq: "frame_bytes f = frame_bytes f'" using frames by simp
  have wf: "wf_frame f" "wf_frame f'" using assms(1,2) unfolding announced_def by blast+
  have "f = f'"
    using frame_of_frame_bytes [OF wf(1)] frame_of_frame_bytes [OF wf(2)] unfolding eq by simp
  then have "length s = length s'"
    using whole_stream_length [OF assms(1)] whole_stream_length [OF assms(2)] by (simp add: s_def s'_def)
  then show ?thesis using len by (simp add: s'_def)
qed

lemma commit_withheld_not_whole:
  assumes "announced f service md5 payload" and "commit_withheld sent"
  shows "\<not> prefix (whole_stream f service md5 payload) sent"
proof
  assume whole: "prefix (whole_stream f service md5 payload) sent"
  then have "sent \<noteq> []" using whole_stream_length [OF assms(1)] by (auto simp: frame_size_def)
  then obtain f' service' md5' payload' j where "announced f' service' md5' payload'"
    "j < length (whole_stream f' service' md5' payload')" "sent = take j (whole_stream f' service' md5' payload')"
    using assms(2) unfolding commit_withheld_def by blast
  then show False using whole_stream_maximal [OF assms(1)] whole by fastforce
qed

lemma withheld_not_called:
  assumes "commit_withheld sent" and "prefix (sinput h) sent" and "runHelper fuel E h = Some (r, h')"
  shows "hcalls h' = hcalls h"
proof -
  have "quiet_end h h' \<or> called_end E h h'"
    using runHelper_ends [of fuel E h] assms(3) by (cases r) (auto simp: wp_def)
  moreover have "\<not> called_end E h h'"
  proof
    assume "called_end E h h'"
    then obtain f service md5 payload rest where req: "acceptable_request E f service md5 payload"
      "sinput h = request_stream f service md5 payload @ frame_bytes (makeServiceHelperCommit (request_id f)) @ rest"
      unfolding called_end_def by blast
    have "announced f service md5 payload" using req(1) by (simp add: acceptable_request_def announced_def)
    moreover have "prefix (whole_stream f service md5 payload) sent"
      using req(2) assms(2) unfolding whole_stream_def prefix_def by auto
    ultimately show False using commit_withheld_not_whole [OF _ assms(1)] by blast
  qed
  ultimately show ?thesis by (simp add: quiet_end_def)
qed

section \<open>The invoker's side\<close>

lemma string_bytes_back: "bytes_string (string_bytes s) = s"
proof -
  have "(char_of (unat (of_nat (of_char c) :: byte)) :: char) = c" for c :: char
  proof -
    have "(of_char c :: nat) < 256" by simp
    then have "unat (of_nat (of_char c) :: byte) = (of_char c :: nat)" by (simp add: unsigned_of_nat take_bit_nat_eq_self)
    then show ?thesis by simp
  qed
  then show ?thesis by (simp add: bytes_string_def string_bytes_def map_idI)
qed

abbreviation call_frame_of :: "64 word \<Rightarrow> service_call_request \<Rightarrow> 't service_description \<Rightarrow> byte list \<Rightarrow> frame" where
  "call_frame_of rid request description payload \<equiv>
     makeServiceHelperRequest rid (of_nat (length (sr_service request)))
       (of_nat (length (service_md5 description))) (of_nat (length payload)) (sr_wait_for_service_ms request)"

lemma call_bytes_whole:
  "call_bytes rid request description payload =
     whole_stream (call_frame_of rid request description payload)
       (string_bytes (sr_service request)) (string_bytes (service_md5 description)) payload"
  by (simp add: call_bytes_def whole_stream_def makeServiceHelperRequest_def)

lemma unat_size: "n < 2 ^ 32 \<Longrightarrow> unat (ucast (of_nat n :: 64 word) :: 32 word) = n"
  by (simp add: unat_ucast_size)

lemma deliverable_announced:
  assumes "deliverable request description payload"
  shows "announced (call_frame_of rid request description payload)
    (string_bytes (sr_service request)) (string_bytes (service_md5 description)) payload"
  using assms
  by (simp add: announced_def deliverable_def validServiceMd5_def makeServiceHelperRequest_def unat_size
      kMaximumServiceNameBytes_def kServiceMd5Bytes_def kMaximumServicePayloadBytes_def string_bytes_def wf_frame_def
      zero_frame_def)

lemma sent_partly_withheld:
  assumes "deliverable request description payload"
    and "sent_partly (call_bytes rid request description payload) w v"
  shows "\<exists>sent. ssent v = ssent w @ sent \<and> commit_withheld sent"
  using assms(2) deliverable_announced [OF assms(1)] unfolding sent_partly_def commit_withheld_def call_bytes_whole by blast

text \<open>The request of a call is one the helper accepts.\<close>

lemma call_acceptable:
  assumes "deliverable request description payload" and "rid \<noteq> 0"
    and "unat (sr_wait_for_service_ms request) \<le> kMaximumServiceWaitMilliseconds"
    and "validAbsoluteServiceName E (sr_service request)"
  shows "acceptable_request E (call_frame_of rid request description payload)
    (string_bytes (sr_service request)) (string_bytes (service_md5 description)) payload"
proof -
  have md5: "length (service_md5 description) = kServiceMd5Bytes"
    using assms(1) by (simp add: deliverable_def validServiceMd5_def)
  have "validateServiceHelperRequest (call_frame_of rid request description payload)"
    unfolding md5 by (rule request_frame_valid) (use assms in \<open>auto simp: deliverable_def\<close>)
  then show ?thesis
    using assms deliverable_announced [OF assms(1), of rid]
    by (simp add: acceptable_request_def announced_def string_bytes_back deliverable_def)
qed

end
