(* ===== verification/Tools_Adapter.thy ===== *)
theory Tools_Adapter
  imports Capability_Contract Publisher_Registry Service_Composition
begin

text \<open>
  The adapter itself (\<^verbatim>\<open>ToolsAdapter\<close> of \<^verbatim>\<open>tools_adapter.cpp\<close>): its lifecycle callbacks,
  which the runtime SDK delivers one at a time, and the two operations, which validate an
  invocation, run the publisher registry or the service invoker and turn the outcome into an
  operation result. The constants of the generated header are the record \<open>contract\<close>.
\<close>

section \<open>Data\<close>

record contract =
  kConfiguration :: contract_schema
  kPublish :: expected_endpoint
  kService :: expected_endpoint

record 'p adapter =
  adapter_context :: native_context
  instance_spec_applied :: bool
  publish_enabled :: bool
  service_enabled :: bool
  publishers :: "'p registry"

record operation_request =
  op_context :: work_context
  op_input :: payload

datatype error_class =
    ErrorPermanent
  | ErrorTransient
  | ErrorUncertain
  | ErrorRejected
  | ErrorResourceExhausted
  | ErrorCancelled
  | ErrorDeadline

text \<open>\<^verbatim>\<open>OperationResult\<close>: a payload and its commit flag, or a class, a code and a message.\<close>

datatype operation_result =
    OpSuccess payload bool
  | OpFailure error_class string string

section \<open>Lifecycle\<close>

text \<open>The registry and the codec are built with their default limits.\<close>

definition ToolsAdapter :: "native_context \<Rightarrow> 'p adapter result" where
  "ToolsAdapter ctx =
     bindE (PublisherRegistry 128) (\<lambda>reg.
     Inr \<lparr>adapter_context = ctx, instance_spec_applied = False, publish_enabled = False,
       service_enabled = False, publishers = reg\<rparr>)"

text \<open>
  The comparison of a specification with the context of the process: \<open>None\<close> when they agree,
  otherwise the text for the caller. Only errors derived from \<^verbatim>\<open>std::exception\<close> are caught;
  \<open>FromInstanceSpec\<close> throws no other.
\<close>

definition context_mismatch ::
  "libraries \<Rightarrow> contract \<Rightarrow> 'p adapter \<Rightarrow> instance_spec \<Rightarrow> string \<Rightarrow> string option" where
  "context_mismatch L C a spec message =
     (case FromInstanceSpec L (kConfiguration C) spec of
        Inl e \<Rightarrow> Some (what e)
      | Inr ctx \<Rightarrow> if \<not> same_context ctx (adapter_context a) then Some message else None)"

definition ApplyInstanceSpec ::
  "libraries \<Rightarrow> contract \<Rightarrow> instance_spec \<Rightarrow> 'p adapter \<Rightarrow> (bool \<times> string) \<times> 'p adapter" where
  "ApplyInstanceSpec L C spec a =
     (case context_mismatch L C a spec ''a running ROS1 process cannot change its native context'' of
        Some reason \<Rightarrow> ((False, reason), a)
      | None \<Rightarrow> ((True, []), a\<lparr>instance_spec_applied := True\<rparr>))"

definition StopPublishCapability :: "'p adapter \<Rightarrow> 'p adapter" where
  "StopPublishCapability a = a\<lparr>publish_enabled := False, publishers := clear (publishers a)\<rparr>"

definition StopServiceCapability :: "'p adapter \<Rightarrow> 'p adapter" where
  "StopServiceCapability a = a\<lparr>service_enabled := False\<rparr>"

definition ClearInstanceSpec :: "'p adapter \<Rightarrow> 'p adapter" where
  "ClearInstanceSpec a = (StopServiceCapability (StopPublishCapability a))\<lparr>instance_spec_applied := False\<rparr>"

definition StartPublishCapability ::
  "libraries \<Rightarrow> contract \<Rightarrow> instance_spec \<Rightarrow> enabled_capability \<Rightarrow> 'p adapter \<Rightarrow>
   (bool \<times> string) \<times> 'p adapter" where
  "StartPublishCapability L C spec grant a =
     (if \<not> instance_spec_applied a
      then ((False, ''instance spec must be applied before publish capability start''), a)
      else case context_mismatch L C a spec
             ''publish capability instance spec does not match this native context'' of
        Some reason \<Rightarrow> ((False, reason), a)
      | None \<Rightarrow>
          (case validateCapabilityGrant grant (kPublish C) of
             Some reason \<Rightarrow> ((False, reason), a)
           | None \<Rightarrow>
               if publish_enabled a then ((False, ''publish capability is already active''), a)
               else ((True, []), a\<lparr>publish_enabled := True\<rparr>)))"

definition StartServiceCapability ::
  "libraries \<Rightarrow> contract \<Rightarrow> instance_spec \<Rightarrow> enabled_capability \<Rightarrow> 'p adapter \<Rightarrow>
   (bool \<times> string) \<times> 'p adapter" where
  "StartServiceCapability L C spec grant a =
     (if \<not> instance_spec_applied a
      then ((False, ''instance spec must be applied before service capability start''), a)
      else case context_mismatch L C a spec
             ''service capability instance spec does not match this native context'' of
        Some reason \<Rightarrow> ((False, reason), a)
      | None \<Rightarrow>
          (case validateCapabilityGrant grant (kService C) of
             Some reason \<Rightarrow> ((False, reason), a)
           | None \<Rightarrow>
               if service_enabled a then ((False, ''service capability is already active''), a)
               else ((True, []), a\<lparr>service_enabled := True\<rparr>)))"

definition ProbeMasterBinding ::
  "int result \<Rightarrow> 'p adapter \<Rightarrow> (master_binding_state \<times> int) \<times> 'p adapter" where
  "ProbeMasterBinding provided a =
     (case probeMasterBinding provided (publishers a) of
        (outcome, reg) \<Rightarrow> (outcome, a\<lparr>publishers := reg\<rparr>))"

section \<open>Fields of an invocation\<close>

definition requiredBool :: "json \<Rightarrow> string \<Rightarrow> bool result" where
  "requiredBool request field =
     (if \<not> isMember request field then permanentError ''invalid_request'' (field @ '' must be a boolean'')
      else case json_get request field of
        JBool b \<Rightarrow> Inr b
      | _ \<Rightarrow> permanentError ''invalid_request'' (field @ '' must be a boolean''))"

definition between_message :: "string \<Rightarrow> string \<Rightarrow> string \<Rightarrow> string" where
  "between_message field lo hi = field @ '' must be between '' @ lo @ '' and '' @ hi"

definition requiredUInt :: "jsoncpp \<Rightarrow> json \<Rightarrow> string \<Rightarrow> nat \<Rightarrow> nat \<Rightarrow> 32 word result" where
  "requiredUInt J request field minimum maximum =
     (if \<not> isMember request field then permanentError ''invalid_request'' (field @ '' is required'')
      else let v = json_get request field in
        bindE (if \<not> isIntegral J v then Inr True
               else if isInt64 J v then bindE (asInt64 J v) (\<lambda>i. Inr (i < 0)) else Inr False) (\<lambda>invalid.
        if invalid then permanentError ''invalid_request'' (field @ '' must be an unsigned integer'')
        else bindE (asUInt64 J v) (\<lambda>parsed.
          if parsed < minimum \<or> parsed > maximum
          then permanentError ''invalid_request'' (between_message field (nat_to_string minimum) (nat_to_string maximum))
          else Inr (of_nat parsed))))"



definition validateAbsoluteRosName :: "libraries \<Rightarrow> string \<Rightarrow> string \<Rightarrow> unit result" where
  "validateAbsoluteRosName L v field =
     (if v = [] \<or> length v > kMaximumRosNameBytes \<or> v = ''/'' \<or> hd v \<noteq> CHR ''/'' \<or>
         \<not> regex_match v absoluteRosNamePattern
      then permanentError ''invalid_ros_name'' (field @ '' must be an absolute ROS1 graph name'')
      else case names_validate L v of
        Some validation_error \<Rightarrow>
          permanentError ''invalid_ros_name'' (field @ '' is not a valid ROS1 graph name: '' @ validation_error)
      | None \<Rightarrow> Inr ())"

definition validateRosType :: "string \<Rightarrow> string \<Rightarrow> unit result" where
  "validateRosType v field =
     (if length v > kMaximumRosTypeBytes \<or> \<not> regex_match v rosTypePattern
      then permanentError ''invalid_ros_type'' (field @ '' must use package/Type syntax'')
      else Inr ())"

definition requiredObjectMember :: "json \<Rightarrow> string \<Rightarrow> json result" where
  "requiredObjectMember input field =
     (if \<not> isMember input field then permanentError ''invalid_request'' (field @ '' is required'')
      else bindE (requireObject (json_get input field) field) (\<lambda>_. Inr (json_get input field)))"

definition parseInput :: "libraries \<Rightarrow> payload \<Rightarrow> schema_reference \<Rightarrow> 32 word \<Rightarrow> json result" where
  "parseInput L p expected_schema maximum =
     (if encoding p \<noteq> EncodingJson \<or>
         (case payload_schema p of
            None \<Rightarrow> True
          | Some s \<Rightarrow> serialize_schema L s \<noteq> serialize_schema L expected_schema)
      then permanentError ''unsupported_input_contract'' ''capability input must use its compiled JSON schema''
      else if length (payload_value p) > unat maximum
      then resourceExhaustedError ''request_too_large''
             ''capability input exceeds its compiled maximum request size''
      else bindE (parseStrictJson L (payload_value p) ''capability input'') (\<lambda>v.
        bindE (requireObject v ''capability input'') (\<lambda>_. Inr v)))"

definition validateSubject :: "native_context \<Rightarrow> work_context \<Rightarrow> unit result" where
  "validateSubject ctx context =
     (case subject context of
        None \<Rightarrow> permanentError ''invalid_subject'' ''invocation subject must be ros1-native-context''
      | Some s \<Rightarrow>
          if scope_kind s \<noteq> ''ros1-native-context''
          then permanentError ''invalid_subject'' ''invocation subject must be ros1-native-context''
          else if scope_id s \<noteq> scope_key ctx \<or>
                  fmlookup (attributes s) ''master-uri'' \<noteq> Some (ros_master_uri ctx) \<or>
                  attribute_or_empty s ''ip'' \<noteq> ros_ip ctx \<or>
                  attribute_or_empty s ''hostname'' \<noteq> ros_hostname ctx \<or>
                  fcard (fmdom (attributes s)) \<noteq> expected_attributes ctx
          then permanentError ''invalid_subject'' ''invocation subject does not match this native context''
          else Inr ())"

section \<open>Outcomes\<close>

definition success :: "libraries \<Rightarrow> json \<Rightarrow> schema_reference \<Rightarrow> 32 word \<Rightarrow> operation_result result" where
  "success L v out_schema maximum =
     bindE (writeJson L v) (\<lambda>text.
       if length text > unat maximum
       then uncertainError ''operation_result_too_large''
              ''native side effect committed but its result exceeds the compiled response limit''
       else Inr (OpSuccess \<lparr>payload_schema = Some out_schema, encoding = EncodingJson, payload_value = text\<rparr> True))"

definition error_class_of :: "string \<Rightarrow> error_class" where
  "error_class_of cls =
     (if cls = ''transient'' then ErrorTransient
      else if cls = ''uncertain'' then ErrorUncertain
      else if cls = ''rejected'' then ErrorRejected
      else if cls = ''resource-exhausted'' then ErrorResourceExhausted
      else if cls = ''cancelled'' then ErrorCancelled
      else if cls = ''deadline'' then ErrorDeadline
      else ErrorPermanent)"

definition failure :: "exn \<Rightarrow> operation_result" where
  "failure e =
     (case e of
        Ros1ToolsError code cls message \<Rightarrow> OpFailure (error_class_of cls) code message
      | _ \<Rightarrow> OpFailure ErrorTransient ''internal_error'' (what e))"

text \<open>
  The handlers around the encoding of a result: the adapter's own errors pass, everything else
  becomes uncertain.
\<close>

definition encoding_failed :: "string \<Rightarrow> string \<Rightarrow> 'a result \<Rightarrow> 'a result" where
  "encoding_failed code message r =
     (case r of
        Inl (StdException exception) \<Rightarrow> uncertainError code (message @ '': '' @ exception)
      | Inl UnknownException \<Rightarrow> uncertainError code message
      | _ \<Rightarrow> r)"

text \<open>
  The outline of both operations: validate, run the native operation, encode its result, and
  report every exception derived from \<^verbatim>\<open>std::exception\<close> as a failure.
\<close>

definition operation ::
  "'req result \<Rightarrow> ('req \<Rightarrow> ('w, 'res) prog) \<Rightarrow> ('res \<Rightarrow> operation_result result) \<Rightarrow>
   ('w, operation_result) prog" where
  "operation request native encode_result =
     catchP
       (bindP (liftP request) (\<lambda>request.
        bindP (native request) (\<lambda>result.
        liftP (encode_result result))))
       (\<lambda>e. if e = UnknownException then liftP (Inl e) else returnP (failure e))"

section \<open>Publishing\<close>




definition publish_json :: "publish_result \<Rightarrow> json" where
  "publish_json published =
     json_set (json_set (json_set (json_set (json_set (json_set (JObject [])
       ''event'' (JString ''published''))
       ''topic'' (JString (result_topic published)))
       ''messageType'' (JString (result_message_type published)))
       ''serializedBytes'' (JUInt (unat (serialized_bytes published))))
       ''publishedCount'' (JUInt (published_count published)))
       ''subscriberCount'' (JUInt (subscriber_count published))"

definition encode_publish :: "libraries \<Rightarrow> contract \<Rightarrow> publish_result \<Rightarrow> operation_result result" where
  "encode_publish L C published =
     encoding_failed ''publish_result_encoding_failed''
       ''ROS1 message was published but its result could not be encoded''
       (success L (publish_json published) (schemaReference (ex_output_schema (kPublish C)))
         (maximum_response_bytes (ex_limits (kPublish C))))"


section \<open>Calling a service\<close>

definition service_fields :: "string list" where
  "service_fields = [''service'', ''serviceType'', ''request'', ''waitForServiceMs'', ''callTimeoutMs'']"

definition service_input :: "libraries \<Rightarrow> jsoncpp \<Rightarrow> int \<Rightarrow> json \<Rightarrow> service_call_request result" where
  "service_input L J deadline input =
     bindE (rejectUnknownFields input service_fields) (\<lambda>_.
     bindE (requiredString input ''service'') (\<lambda>service.
     bindE (requiredString input ''serviceType'') (\<lambda>service_type.
     bindE (validateAbsoluteRosName L service ''service'') (\<lambda>_.
     bindE (validateRosType service_type ''serviceType'') (\<lambda>_.
     bindE (requiredObjectMember input ''request'') (\<lambda>request.
     bindE (requiredUInt J input ''waitForServiceMs'' 0 kMaximumWaitMilliseconds) (\<lambda>wait.
     bindE (requiredUInt J input ''callTimeoutMs'' 1 kMaximumWaitMilliseconds) (\<lambda>timeout.
     Inr \<lparr>sr_service = service, sr_service_type = service_type, sr_request = request,
       sr_wait_for_service_ms = wait, sr_call_timeout_ms = timeout, sr_deadline_unix_nanos = deadline,
       sr_has_cancellation = True\<rparr>))))))))"

definition prepare_service ::
  "libraries \<Rightarrow> jsoncpp \<Rightarrow> contract \<Rightarrow> 'p adapter \<Rightarrow> operation_request \<Rightarrow> service_call_request result" where
  "prepare_service L J C a request =
     (if \<not> service_enabled a
      then rejectedError ''service_capability_disabled'' ''ROS1 service-call capability is not active''
      else
        bindE (validateInvocationContext (op_context request) (kService C)) (\<lambda>deadline.
        bindE (validateSubject (adapter_context a) (op_context request)) (\<lambda>_.
        bindE (parseInput L (op_input request) (schemaReference (ex_input_schema (kService C)))
                (maximum_request_bytes (ex_limits (kService C)))) (\<lambda>input.
        service_input L J deadline input))))"

definition service_json :: "service_call_result \<Rightarrow> json" where
  "service_json called =
     json_set (json_set (json_set (json_set (json_set (JObject [])
       ''event'' (JString ''response''))
       ''service'' (JString (sres_service called)))
       ''serviceType'' (JString (sres_service_type called)))
       ''response'' (sres_response called))
       ''durationMs'' (JUInt (unat (sres_duration_ms called)))"

definition encode_service :: "libraries \<Rightarrow> contract \<Rightarrow> service_call_result \<Rightarrow> operation_result result" where
  "encode_service L C called =
     encoding_failed ''service_result_encoding_failed''
       ''ROS1 service executed but its result could not be encoded''
       (success L (service_json called) (schemaReference (ex_output_schema (kService C)))
         (maximum_response_bytes (ex_limits (kService C))))"

text \<open>The invoker is built with its default of sixteen calls in flight.\<close>

definition CallService ::
  "nat \<Rightarrow> invoker_env \<Rightarrow> 't babel_fish \<Rightarrow> jsoncpp \<Rightarrow> ros_time_api \<Rightarrow> libraries \<Rightarrow> contract \<Rightarrow> 'p adapter \<Rightarrow>
   operation_request \<Rightarrow> (invoker_world, operation_result) prog" where
  "CallService fuel E B J R L C a request =
     operation (prepare_service L J C a request) (call fuel E B J R default_codec_limits 16) (encode_service L C)"

section \<open>The lifecycle as the SDK sees it\<close>

text \<open>The callbacks, with their answer; the ones without a result answer true.\<close>

datatype callback =
    Apply instance_spec
  | Clear
  | StartPublish instance_spec enabled_capability
  | StopPublish
  | StartService instance_spec enabled_capability
  | StopService

fun deliver :: "libraries \<Rightarrow> contract \<Rightarrow> callback \<Rightarrow> 'p adapter \<Rightarrow> bool \<times> 'p adapter" where
  "deliver L C (Apply spec) a = apfst fst (ApplyInstanceSpec L C spec a)"
| "deliver L C Clear a = (True, ClearInstanceSpec a)"
| "deliver L C (StartPublish spec grant) a = apfst fst (StartPublishCapability L C spec grant a)"
| "deliver L C StopPublish a = (True, StopPublishCapability a)"
| "deliver L C (StartService spec grant) a = apfst fst (StartServiceCapability L C spec grant a)"
| "deliver L C StopService a = (True, StopServiceCapability a)"

text \<open>
  What the adapter promises: outside a session nothing runs; within one, for a specification
  that belongs to the process, each capability is active or not, is started at most once by
  its own grant, and ends with the session.
\<close>

datatype session = Idle | Session (publishing: bool) (serving_calls: bool)

fun promise ::
  "(instance_spec \<Rightarrow> bool) \<Rightarrow> (enabled_capability \<Rightarrow> bool) \<Rightarrow> (enabled_capability \<Rightarrow> bool) \<Rightarrow>
   callback \<Rightarrow> session \<Rightarrow> bool \<times> session" where
  "promise belongs may_publish may_serve (Apply spec) Idle =
     (if belongs spec then (True, Session False False) else (False, Idle))"
| "promise belongs may_publish may_serve (Apply spec) (Session p q) = (belongs spec, Session p q)"
| "promise belongs may_publish may_serve Clear s = (True, Idle)"
| "promise belongs may_publish may_serve (StartPublish spec grant) (Session p q) =
     (if belongs spec \<and> may_publish grant \<and> \<not> p then (True, Session True q) else (False, Session p q))"
| "promise belongs may_publish may_serve (StartService spec grant) (Session p q) =
     (if belongs spec \<and> may_serve grant \<and> \<not> q then (True, Session p True) else (False, Session p q))"
| "promise belongs may_publish may_serve (StartPublish spec grant) Idle = (False, Idle)"
| "promise belongs may_publish may_serve (StartService spec grant) Idle = (False, Idle)"
| "promise belongs may_publish may_serve StopPublish Idle = (True, Idle)"
| "promise belongs may_publish may_serve StopPublish (Session p q) = (True, Session False q)"
| "promise belongs may_publish may_serve StopService Idle = (True, Idle)"
| "promise belongs may_publish may_serve StopService (Session p q) = (True, Session p False)"

fun run_steps :: "('i \<Rightarrow> 's \<Rightarrow> 'o \<times> 's) \<Rightarrow> 'i list \<Rightarrow> 's \<Rightarrow> 'o list \<times> 's" where
  "run_steps step [] s = ([], s)"
| "run_steps step (i # rest) s =
     (case step i s of (out, s') \<Rightarrow> case run_steps step rest s' of (outs, s'') \<Rightarrow> (out # outs, s''))"

text \<open>A machine implements another if its steps commute with an abstraction under an invariant.\<close>

locale simulation =
  fixes concrete :: "'i \<Rightarrow> 'c \<Rightarrow> 'o \<times> 'c" and abstract :: "'i \<Rightarrow> 'a \<Rightarrow> 'o \<times> 'a"
    and inv :: "'c \<Rightarrow> bool" and abs :: "'c \<Rightarrow> 'a"
  assumes inv_step: "inv c \<Longrightarrow> inv (snd (concrete i c))"
    and abs_step: "inv c \<Longrightarrow> apsnd abs (concrete i c) = abstract i (abs c)"
begin

lemma refines: "inv c \<Longrightarrow> apsnd abs (run_steps concrete is c) = run_steps abstract is (abs c) \<and> inv (snd (run_steps concrete is c))"
proof (induction "is" arbitrary: c)
  case Nil
  then show ?case by simp
next
  case (Cons i "is")
  obtain out d where step: "concrete i c = (out, d)" by (cases "concrete i c")
  obtain outs e where run: "run_steps concrete is d = (outs, e)" by (cases "run_steps concrete is d")
  have "inv d" using inv_step [OF Cons.prems, of i] step by simp
  then have "run_steps abstract is (abs d) = (outs, abs e) \<and> inv e" using Cons.IH run by fastforce
  moreover have "abstract i (abs c) = (out, abs d)" using abs_step [OF Cons.prems, of i] step by simp
  ultimately show ?case using step run by simp
qed

end

definition session_of :: "'p adapter \<Rightarrow> session" where
  "session_of a = (if instance_spec_applied a then Session (publish_enabled a) (service_enabled a) else Idle)"

definition adapter_inv :: "native_context \<Rightarrow> 'p adapter \<Rightarrow> bool" where
  "adapter_inv ctx a \<longleftrightarrow>
     adapter_context a = ctx \<and> (\<not> instance_spec_applied a \<longrightarrow> \<not> publish_enabled a \<and> \<not> service_enabled a)"

text \<open>The only grant of a capability.\<close>

definition compiled_grant :: "expected_endpoint \<Rightarrow> enabled_capability" where
  "compiled_grant expected =
     \<lparr>grant_capability_id = ex_capability_id expected, grant_contract_version = ex_contract_version expected,
      grant_contract_digest = ex_contract_digest expected, enabled_endpoint_ids = [ex_endpoint_id expected],
      grant_configuration = None\<rparr>"

lemma validateCapabilityGrant_iff:
  "validateCapabilityGrant grant expected = None \<longleftrightarrow> grant = compiled_grant expected"
proof -
  have "length ids = 1 \<and> ids ! 0 = x \<longleftrightarrow> ids = [x]" for ids and x :: string
    by (auto simp: length_Suc_conv)
  then show ?thesis
    by (cases grant) (auto simp: validateCapabilityGrant_def compiled_grant_def)
qed

lemma same_context_iff: "same_context a b \<longleftrightarrow> a = b"
  by (cases a; cases b) (simp add: same_context_def)

lemma context_mismatch_iff:
  "context_mismatch L C a spec message = None \<longleftrightarrow> describes L (kConfiguration C) spec (adapter_context a)"
  by (auto simp: context_mismatch_def FromInstanceSpec_iff [symmetric] same_context_iff split: sum.splits)

abbreviation adapter_promise :: "libraries \<Rightarrow> contract \<Rightarrow> native_context \<Rightarrow> callback \<Rightarrow> session \<Rightarrow> bool \<times> session" where
  "adapter_promise L C ctx \<equiv>
     promise (\<lambda>spec. describes L (kConfiguration C) spec ctx)
       (\<lambda>grant. grant = compiled_grant (kPublish C)) (\<lambda>grant. grant = compiled_grant (kService C))"

lemmas lifecycle_defs = ApplyInstanceSpec_def ClearInstanceSpec_def StartPublishCapability_def
  StopPublishCapability_def StartServiceCapability_def StopServiceCapability_def

interpretation lifecycle: simulation "deliver L C" "adapter_promise L C ctx" "adapter_inv ctx" session_of
  for L C ctx
proof
  fix a :: "'a adapter" and cb
  assume inv: "adapter_inv ctx a"
  have agree: "context_mismatch L C a spec message = None \<Longrightarrow> describes L (kConfiguration C) spec ctx"
    and disagree: "context_mismatch L C a spec message = Some reason \<Longrightarrow> \<not> describes L (kConfiguration C) spec ctx"
    for spec message reason
    using inv context_mismatch_iff [of L C a spec message] by (auto simp: adapter_inv_def)
  show "adapter_inv ctx (snd (deliver L C cb a))"
    using inv by (cases cb) (auto simp: lifecycle_defs adapter_inv_def split: option.splits)
  show "apsnd session_of (deliver L C cb a) = adapter_promise L C ctx cb (session_of a)"
  proof (cases "instance_spec_applied a")
    case True
    then show ?thesis
      by (cases cb)
        (auto simp: lifecycle_defs session_of_def validateCapabilityGrant_iff [symmetric]
          dest: agree disagree split: option.splits)
  next
    case False
    then show ?thesis using inv
      by (cases cb) (auto simp: lifecycle_defs session_of_def adapter_inv_def dest: agree disagree split: option.splits)
  qed
qed

section \<open>Operations as guarded side effects\<close>

text \<open>
  What the outline of an operation needs of its parts to classify failures: a native failure
  that is not uncertain has had no effect, a result stands for a completed effect, and a
  failure to encode a result is uncertain. \<open>ready\<close> is what is asked of the state before,
  \<open>untouched\<close> says that no side effect happened between two states, and \<open>completed\<close> that
  the whole effect of a request did, with its result.
\<close>

locale classified_operation =
  fixes native :: "'req \<Rightarrow> ('w, 'res) prog" and encode_result :: "'res \<Rightarrow> operation_result result"
    and ready :: "'w \<Rightarrow> bool" and untouched :: "'w \<Rightarrow> 'w \<Rightarrow> bool"
    and completed :: "'req \<Rightarrow> 'res \<Rightarrow> 'w \<Rightarrow> 'w \<Rightarrow> bool"
  assumes unchanged: "untouched w w"
    and failed: "ready w \<Longrightarrow> native req w = Some (Inl e, w') \<Longrightarrow> uncertain e \<or> untouched w w'"
    and returned: "ready w \<Longrightarrow> native req w = Some (Inr res, w') \<Longrightarrow> completed req res w w'"
    and encode_failed: "encode_result res = Inl e \<Longrightarrow> uncertain e"
    and encoded: "encode_result res = Inr out \<Longrightarrow> \<exists>p. out = OpSuccess p True"
begin

lemma outcome:
  assumes "operation request native encode_result w = Some (r, w')" and "ready w"
  shows "case r of
      Inr (OpSuccess p committed) \<Rightarrow> committed \<and> (\<exists>req res. request = Inr req \<and> completed req res w w' \<and>
        encode_result res = Inr (OpSuccess p committed))
    | Inr (OpFailure cls code message) \<Rightarrow> cls = ErrorUncertain \<or> untouched w w'
    | Inl e \<Rightarrow> e = UnknownException \<and> untouched w w'"
proof (cases request)
  case (Inl e)
  then show ?thesis using assms(1) unchanged
    by (cases e) (auto simp: operation_def prog_defs failure_def)
next
  case (Inr req)
  obtain res v where native: "native req w = Some (res, v)"
    using assms Inr by (auto simp: operation_def prog_defs split: option.splits)
  show ?thesis
  proof (cases res)
    case (Inl e)
    have "uncertain e \<or> untouched w v" using failed [OF assms(2)] native Inl by simp
    then show ?thesis using assms(1) Inr native Inl
      by (auto simp: operation_def prog_defs failure_def error_class_of_def uncertain_def split: exn.splits if_splits)
  next
    case (Inr x)
    have complete: "completed req x w v" using returned [OF assms(2)] native Inr by simp
    show ?thesis
    proof (cases "encode_result x")
      case (Inl e)
      then show ?thesis using assms(1) \<open>request = Inr req\<close> native Inr encode_failed [OF Inl]
        by (auto simp: operation_def prog_defs failure_def error_class_of_def uncertain_def)
    next
      case out: (Inr out)
      obtain p where p: "out = OpSuccess p True" using encoded [OF out] by blast
      have "r = Inr out \<and> w' = v" using assms(1) \<open>request = Inr req\<close> native Inr out
        by (simp add: operation_def prog_defs)
      then show ?thesis using \<open>request = Inr req\<close> complete out p by auto
    qed
  qed
qed

end

lemma encoding_failed_outcome:
  "encoding_failed code message (success L v schema maximum) = Inl e \<Longrightarrow> uncertain e"
  "encoding_failed code message (success L v schema maximum) = Inr out \<Longrightarrow>
     \<exists>text. write_json L v = Inr text \<and> length text \<le> unat maximum \<and>
       out = OpSuccess \<lparr>payload_schema = Some schema, encoding = EncodingJson, payload_value = text\<rparr> True"
  by (auto simp: encoding_failed_def success_def writeJson_def stdError_def bindE_def uncertainError_def uncertain_def
      split: sum.splits if_splits exn.splits option.splits)

interpretation publishing: classified_operation "publish fuel E B J R limits" "encode_publish L C"
    "\<lambda>_. native_errors (env_subscribers E)" "\<lambda>w w'. dispatched w' = dispatched w"
    "\<lambda>req res w w'. publish_completed E req (dispatched w) res w'"
  for fuel E B J R limits L C
proof
  fix w w' req e
  assume "native_errors (env_subscribers E)" and "publish fuel E B J R limits req w = Some (Inl e, w')"
  then show "uncertain e \<or> dispatched w' = dispatched w"
    using wp_Inl [OF effects.publish_vc] by fastforce
next
  fix w w' req res
  assume "native_errors (env_subscribers E)" and "publish fuel E B J R limits req w = Some (Inr res, w')"
  then show "publish_completed E req (dispatched w) res w'"
    using wp_Inr [OF effects.publish_vc] by fastforce
qed (auto simp: encode_publish_def dest: encoding_failed_outcome)

text \<open>What a call that returns a result has sent and received.\<close>

definition service_completed ::
  "'t babel_fish \<Rightarrow> jsoncpp \<Rightarrow> ros_time_api \<Rightarrow> codec_limits \<Rightarrow> service_call_request \<Rightarrow> service_call_result \<Rightarrow>
   invoker_world \<Rightarrow> invoker_world \<Rightarrow> bool" where
  "service_completed B J R limits request result w w' \<longleftrightarrow>
     (\<exists>description payload rid data. prepare_call B J R limits request = Inr (description, payload) \<and> rid \<noteq> 0 \<and>
        deliverable request description payload \<and>
        ssent w' = ssent w @ call_bytes rid request description payload \<and>
        sinput w = frame_bytes (makeServiceHelperReady rid ReadyReady) @ response_bytes rid RespCompleted data @ sinput w' \<and>
        result_of B limits request description data result)"

lemma call_classified:
  assumes "own_permits (ipermits w) = 0"
  shows "wp (call fuel E B J R limits maximum request) (\<lambda>result w'. service_completed B J R limits request result w w')
    (\<lambda>e w'. uncertain e \<or> (\<exists>sent. ssent w' = ssent w @ sent \<and> commit_withheld sent)) w"
proof (rule call_vc [OF assms], goal_cases)
  case (1 v description payload rid data result)
  then show ?case unfolding service_completed_def by blast
next
  case (2 v e)
  then have "ssent v = ssent w @ [] \<and> commit_withheld []" by (simp add: commit_withheld_def)
  then show ?case by blast
next
  case (3 v e description payload rid)
  then show ?case using sent_partly_withheld by blast
qed simp

interpretation calling: classified_operation "call fuel E B J R limits maximum" "encode_service L C"
    "\<lambda>w. own_permits (ipermits w) = 0" "\<lambda>w w'. \<exists>sent. ssent w' = ssent w @ sent \<and> commit_withheld sent"
    "service_completed B J R limits"
  for fuel E B J R limits maximum L C
proof
  show "\<exists>sent. ssent w = ssent w @ sent \<and> commit_withheld sent" for w :: invoker_world
    by (intro exI [of _ "[]"]) (simp add: commit_withheld_def)
next
  fix w w' req e
  assume "own_permits (ipermits w) = 0" and "call fuel E B J R limits maximum req w = Some (Inl e, w')"
  then show "uncertain e \<or> (\<exists>sent. ssent w' = ssent w @ sent \<and> commit_withheld sent)"
    using wp_Inl [OF call_classified] by blast
next
  fix w w' req res
  assume "own_permits (ipermits w) = 0" and "call fuel E B J R limits maximum req w = Some (Inr res, w')"
  then show "service_completed B J R limits req res w w'"
    using wp_Inr [OF call_classified] by blast
qed (auto simp: encode_service_def dest: encoding_failed_outcome)

section \<open>What an accepted invocation is\<close>

text \<open>
  An invocation of a capability that belongs to this process: it names the compiled contract,
  has a positive deadline, its subject is the scope of the context and its input is a JSON
  object of the compiled schema within the compiled limit.
\<close>

definition invocation_of ::
  "libraries \<Rightarrow> expected_endpoint \<Rightarrow> native_context \<Rightarrow> operation_request \<Rightarrow> int \<Rightarrow> json \<Rightarrow> bool" where
  "invocation_of L expected ctx request deadline input \<longleftrightarrow>
     work_capability_id (op_context request) = ex_capability_id expected \<and>
     work_endpoint_id (op_context request) = ex_endpoint_id expected \<and>
     work_contract_version (op_context request) = ex_contract_version expected \<and>
     work_contract_digest (op_context request) = ex_contract_digest expected \<and>
     deadline_unix_nanos (op_context request) = Some deadline \<and> 0 < deadline \<and>
     subject (op_context request) =
       Some \<lparr>scope_kind = ''ros1-native-context'', scope_id = scope_key ctx, attributes = context_attributes ctx\<rparr> \<and>
     encoding (op_input request) = EncodingJson \<and>
     map_option (serialize_schema L) (payload_schema (op_input request)) =
       Some (serialize_schema L (schemaReference (ex_input_schema expected))) \<and>
     length (payload_value (op_input request)) \<le> unat (maximum_request_bytes (ex_limits expected)) \<and>
     parse_json L (payload_value (op_input request)) = Inr input \<and> isObject input"

definition ros_name :: "libraries \<Rightarrow> string \<Rightarrow> bool" where
  "ros_name L s \<longleftrightarrow> length s \<le> 4096 \<and> names_validate L s = None \<and>
     (\<exists>parts. parts \<noteq> [] \<and> s = concat (map ((#) CHR ''/'') parts) \<and> (\<forall>p \<in> set parts. ros_identifier p))"

definition ros_type :: "string \<Rightarrow> bool" where
  "ros_type s \<longleftrightarrow> length s \<le> 512 \<and> (\<exists>a b. s = a @ ''/'' @ b \<and> ros_identifier a \<and> ros_identifier b)"


definition service_within :: "libraries \<Rightarrow> int \<Rightarrow> json \<Rightarrow> service_call_request \<Rightarrow> bool" where
  "service_within L deadline input req \<longleftrightarrow>
     set (getMemberNames input) \<subseteq> set service_fields \<and>
     json_member input ''service'' = Some (JString (sr_service req)) \<and> ros_name L (sr_service req) \<and>
     json_member input ''serviceType'' = Some (JString (sr_service_type req)) \<and> ros_type (sr_service_type req) \<and>
     json_member input ''request'' = Some (sr_request req) \<and> isObject (sr_request req) \<and>
     unat (sr_wait_for_service_ms req) \<le> 300000 \<and>
     1 \<le> unat (sr_call_timeout_ms req) \<and> unat (sr_call_timeout_ms req) \<le> 300000 \<and>
     sr_deadline_unix_nanos req = deadline \<and> sr_has_cancellation req"

lemma requiredUInt_bounds:
  assumes "requiredUInt J v field lo hi = Inr n" and "hi < 2 ^ 32"
  shows "lo \<le> unat n \<and> unat n \<le> hi"
proof -
  obtain k where k: "n = of_nat k" "lo \<le> k" "k \<le> hi"
    using assms(1) by (auto simp: requiredUInt_def Let_def bindE_eq_Inr split: if_splits)
  have "unat n = k" using k assms(2) by (simp add: unsigned_of_nat take_bit_nat_eq_self)
  then show ?thesis using k by simp
qed



lemma requiredObjectMember_member:
  "requiredObjectMember v field = Inr x \<Longrightarrow> json_member v field = Some x \<and> isObject x"
  by (auto simp: requiredObjectMember_def isMember_def json_get_def bindE_eq_Inr requireObject_iff split: if_splits option.splits)

lemma validateAbsoluteRosName_name: "validateAbsoluteRosName L s field = Inr x \<Longrightarrow> ros_name L s"
  by (auto simp: validateAbsoluteRosName_def ros_name_def ros_name_iff kMaximumRosNameBytes_def split: if_splits option.splits)

lemma validateRosType_type: "validateRosType s field = Inr x \<Longrightarrow> ros_type s"
  by (auto simp: validateRosType_def ros_type_def ros_type_iff kMaximumRosTypeBytes_def split: if_splits)

lemma validateSubject_iff:
  "validateSubject ctx context = Inr x \<longleftrightarrow>
     subject context =
       Some \<lparr>scope_kind = ''ros1-native-context'', scope_id = scope_key ctx, attributes = context_attributes ctx\<rparr>"
proof (cases "subject context")
  case (Some s)
  have "validateSubject ctx context = Inr x \<longleftrightarrow>
      scope_kind s = ''ros1-native-context'' \<and> scope_id s = scope_key ctx \<and> attributes s = context_attributes ctx"
    unfolding attributes_iff [symmetric] by (auto simp: validateSubject_def Some)
  then show ?thesis using Some by (cases s) auto
qed (simp add: validateSubject_def)

lemma invocation_accepted:
  assumes "validateInvocationContext (op_context request) expected = Inr deadline"
    and "validateSubject ctx (op_context request) = Inr x"
    and "parseInput L (op_input request) (schemaReference (ex_input_schema expected))
      (maximum_request_bytes (ex_limits expected)) = Inr input"
  shows "invocation_of L expected ctx request deadline input"
  using assms(1,3) assms(2) [unfolded validateSubject_iff]
  by (auto simp: invocation_of_def validateInvocationContext_def parseInput_def bindE_eq_Inr parseStrictJson_iff
      requireObject_iff resourceExhaustedError_def split: if_splits option.splits)


lemma service_input_within:
  assumes "service_input L J deadline input = Inr req"
  shows "service_within L deadline input req"
  using assms
  by (auto simp: service_input_def service_within_def bindE_eq_Inr rejectUnknownFields_iff requiredString_iff
      kMaximumWaitMilliseconds_def
      dest!: validateAbsoluteRosName_name validateRosType_type requiredObjectMember_member requiredUInt_bounds)


lemma prepare_service_accepted:
  assumes "prepare_service L J C a request = Inr req"
  shows "service_enabled a \<and> (\<exists>deadline input.
    invocation_of L (kService C) (adapter_context a) request deadline input \<and> service_within L deadline input req)"
  using assms
  by (auto simp: prepare_service_def rejectedError_def bindE_eq_Inr split: if_splits
      dest!: service_input_within intro: invocation_accepted)

section \<open>Properties\<close>

text \<open>
  C6. The lifecycle of the adapter refines its session protocol: from a new adapter, every
  sequence of callbacks is answered as the protocol answers it and leaves the adapter in the
  session the protocol is in. So a session starts only with a specification that describes the
  context of this process, a capability starts only within a session, with such a specification
  and the compiled grant, and not twice, and nothing stays active when the session is cleared.
\<close>

theorem lifecycle_refines_session:
  assumes "ToolsAdapter ctx = Inr a"
  shows "apsnd session_of (run_steps (deliver L C) callbacks a) = run_steps (adapter_promise L C ctx) callbacks Idle \<and>
    adapter_inv ctx (snd (run_steps (deliver L C) callbacks a))"
proof -
  have "adapter_inv ctx a" "session_of a = Idle"
    using assms by (auto simp: ToolsAdapter_def bindE_eq_Inr adapter_inv_def session_of_def)
  then show ?thesis using lifecycle.refines [of ctx a L C callbacks] by simp
qed


text \<open>A helper that gets no more than these bytes never enters the native call.\<close>

definition no_native_call :: "byte list \<Rightarrow> bool" where
  "no_native_call sent \<longleftrightarrow>
     (\<forall>fuel (E :: helper_env) h r h'. prefix (sinput h) sent \<longrightarrow> runHelper fuel E h = Some (r, h') \<longrightarrow>
        hcalls h' = hcalls h)"

lemma withheld_no_native_call: "commit_withheld sent \<Longrightarrow> no_native_call sent"
  unfolding no_native_call_def using withheld_not_called by blast

text \<open>
  C1. A service operation reports what may have happened on the ROS side, across both
  processes. Success stands for an invocation of the compiled contract on an active capability
  with all fields within their limits, whose request and commit were sent completely and whose
  completed response is what the payload shows; and after any failure other than an uncertain
  one, no behaviour of the helper process on what it was sent enters the native call.
\<close>

theorem service_operation_outcome:
  assumes "own_permits (ipermits w) = 0" and "CallService fuel E B J R L C a request w = Some (r, w')"
  shows "case r of
      Inr (OpSuccess p committed) \<Rightarrow> committed \<and> service_enabled a \<and>
        (\<exists>req result deadline input text.
           invocation_of L (kService C) (adapter_context a) request deadline input \<and>
           service_within L deadline input req \<and>
           service_completed B J R default_codec_limits req result w w' \<and>
           write_json L (service_json result) = Inr text \<and>
           length text \<le> unat (maximum_response_bytes (ex_limits (kService C))) \<and>
           p = \<lparr>payload_schema = Some (schemaReference (ex_output_schema (kService C))), encoding = EncodingJson,
             payload_value = text\<rparr>)
    | Inr (OpFailure cls code message) \<Rightarrow>
        cls = ErrorUncertain \<or> (\<exists>sent. ssent w' = ssent w @ sent \<and> no_native_call sent)
    | Inl e \<Rightarrow> e = UnknownException \<and> (\<exists>sent. ssent w' = ssent w @ sent \<and> no_native_call sent)"
proof -
  note out = calling.outcome [OF assms(2) [unfolded CallService_def] assms(1)]
  show ?thesis
  proof (cases "\<exists>p committed. r = Inr (OpSuccess p committed)")
    case True
    then obtain p committed req result where r: "r = Inr (OpSuccess p committed)" "committed"
      "prepare_service L J C a request = Inr req" "service_completed B J R default_codec_limits req result w w'"
      "encode_service L C result = Inr (OpSuccess p committed)"
      using out by auto
    then show ?thesis
      using prepare_service_accepted [OF r(3)] encoding_failed_outcome(2) [OF r(5) [unfolded encode_service_def]]
      by fastforce
  next
    case False
    then show ?thesis using out withheld_no_native_call by (auto split: sum.splits operation_result.splits)
  qed
qed

section \<open>Examples\<close>

definition sample_contract :: contract where
  "sample_contract = \<lparr>kConfiguration = sample_schema, kPublish = sample_endpoint ''publish'',
     kService = sample_endpoint ''service''\<rparr>"

definition sample_adapter :: "unit adapter" where
  "sample_adapter = \<lparr>adapter_context = sample_context, instance_spec_applied = True, publish_enabled = True,
     service_enabled = True, publishers = example_registry\<rparr>"

definition sample_publish_input :: json where
  "sample_publish_input = JObject [(''latch'', JBool False), (''message'', JObject [(''data'', JBool True)]),
     (''messageType'', JString ''std_msgs/Bool''), (''publishCount'', JUInt 1), (''publishRateHz'', JReal double_240),
     (''queueSize'', JUInt 10), (''topic'', JString ''/set''), (''waitForSubscribersMs'', JUInt 0)]"

definition sample_service_input :: json where
  "sample_service_input = JObject [(''callTimeoutMs'', JUInt 100), (''request'', JObject [(''data'', JBool True)]),
     (''service'', JString ''/set''), (''serviceType'', JString ''std_srvs/SetBool''), (''waitForServiceMs'', JUInt 100)]"

definition sample_tools :: libraries where
  "sample_tools = sample_libraries\<lparr>parse_json := \<lambda>text.
     if text = ''publish'' then Inr sample_publish_input else Inr sample_service_input\<rparr>"

definition sample_operation :: "string \<Rightarrow> operation_request" where
  "sample_operation name =
     \<lparr>op_context = \<lparr>work_capability_id = name, work_endpoint_id = ''run'', work_contract_version = 1,
        work_contract_digest = ''sha256:0'', deadline_unix_nanos = Some 50,
        subject = Some \<lparr>scope_kind = ''ros1-native-context'', scope_id = scope_key sample_context,
          attributes = context_attributes sample_context\<rparr>\<rparr>,
      op_input = \<lparr>payload_schema = Some (schemaReference sample_schema), encoding = EncodingJson,
        payload_value = name\<rparr>\<rparr>"


lemma sample_names:
  "regex_match ''/set'' absoluteRosNamePattern" "regex_match ''std_msgs/Bool'' rosTypePattern"
  "regex_match ''std_srvs/SetBool'' rosTypePattern"
  by (simp_all add: absoluteRosNamePattern_def rosTypePattern_def identifier_regex_def Literal_def is_letter_def
      is_word_char_def is_alnum_def char_range_def is_digit_def)

lemma sample_subject: "validateSubject sample_context (op_context (sample_operation name)) = Inr ()"
  by (simp add: validateSubject_iff sample_operation_def)

lemma sample_invocation:
  "validateInvocationContext (op_context (sample_operation name)) (sample_endpoint name) = Inr 50"
  "parseInput sample_tools (op_input (sample_operation ''publish''))
     (schemaReference (ex_input_schema (sample_endpoint ''publish'')))
     (maximum_request_bytes (ex_limits (sample_endpoint ''publish''))) = Inr sample_publish_input"
  "parseInput sample_tools (op_input (sample_operation ''service''))
     (schemaReference (ex_input_schema (sample_endpoint ''service'')))
     (maximum_request_bytes (ex_limits (sample_endpoint ''service''))) = Inr sample_service_input"
  by (simp_all add: validateInvocationContext_def parseInput_def parseStrictJson_def requireObject_def
      sample_operation_def sample_endpoint_def sample_tools_def sample_publish_input_def sample_service_input_def)

lemmas input_simps = rejectUnknownFields_def getMemberNames_def requiredString_def isMember_def json_member_def
  json_get_def asString_def validateAbsoluteRosName_def validateRosType_def requiredObjectMember_def requireObject_def
  requiredUInt_def requiredBool_def Let_def int64_range_def uint64_range_def jsoncpp_reference_def json_whole_def




lemma sample_prepared_service:
  "prepare_service sample_tools jsoncpp_reference sample_contract sample_adapter (sample_operation ''service'') =
     Inr sample_call"
proof -
  have "service_input sample_tools jsoncpp_reference 50 sample_service_input = Inr sample_call"
    by (simp add: service_input_def service_fields_def input_simps sample_names sample_service_input_def sample_call_def
        sample_tools_def sample_libraries_def kMaximumRosNameBytes_def kMaximumRosTypeBytes_def kMaximumWaitMilliseconds_def
        del: regex_match.simps)
  then show ?thesis
    using sample_invocation sample_subject by (simp add: prepare_service_def sample_adapter_def sample_contract_def)
qed


lemma sample_endpoints:
  "kPublish sample_contract = sample_endpoint ''publish''" "kService sample_contract = sample_endpoint ''service''"
  by (simp_all add: sample_contract_def)

lemma sample_written: "write_json sample_tools v = Inr ''{}''" "unat (maximum_response_bytes (ex_limits (sample_endpoint name))) = 4096"
  by (simp_all add: sample_tools_def sample_libraries_def sample_endpoint_def)

theorem lifecycle_refines_session_witness:
  "\<exists>a :: unit adapter. ToolsAdapter sample_context = Inr a \<and>
     apsnd session_of (run_steps (deliver sample_libraries sample_contract)
       [StartService sample_spec (compiled_grant (sample_endpoint ''service'')), Apply sample_spec,
        StartService sample_spec (compiled_grant (sample_endpoint ''service'')), Clear] a) =
     ([False, True, True, True], Idle)"
proof -
  obtain a :: "unit adapter" where a: "ToolsAdapter sample_context = Inr a"
    by (simp add: ToolsAdapter_def PublisherRegistry_def)
  have "describes sample_libraries (kConfiguration sample_contract) sample_spec sample_context"
    using sample_describes by (simp add: sample_contract_def)
  then show ?thesis
    using a lifecycle_refines_session [OF a, of sample_libraries sample_contract
      "[StartService sample_spec (compiled_grant (sample_endpoint ''service'')), Apply sample_spec,
        StartService sample_spec (compiled_grant (sample_endpoint ''service'')), Clear]"]
    by (intro exI [of _ a]) (simp add: sample_contract_def)
qed


theorem service_operation_outcome_witness:
  "\<exists>p w' req result. CallService (Suc kMaximumServicePayloadBytes) sample_invoker_env sample_library jsoncpp_reference
     ros_time_reference sample_tools sample_contract sample_adapter (sample_operation ''service'')
     sample_invoker_world = Some (Inr (OpSuccess p True), w') \<and>
     service_completed sample_library jsoncpp_reference ros_time_reference default_codec_limits req result
       sample_invoker_world w'"
proof -
  obtain result w' where "sample_service_call sample_invoker_world = Some (Inr result, w')" using sample_returns by blast
  then obtain p where run: "CallService (Suc kMaximumServicePayloadBytes) sample_invoker_env sample_library jsoncpp_reference
      ros_time_reference sample_tools sample_contract sample_adapter (sample_operation ''service'')
      sample_invoker_world = Some (Inr (OpSuccess p True), w')"
    by (simp add: CallService_def operation_def sample_prepared_service prog_defs encode_service_def encoding_failed_def
        success_def writeJson_def sample_written sample_endpoints)
  from service_operation_outcome [OF sample_admitted(6) run] run show ?thesis by auto
qed

end
