(* ===== verification/Adapter_Main.thy ===== *)
theory Adapter_Main
  imports Tools_Adapter
begin

text \<open>
  The adapter process (\<^verbatim>\<open>main.cpp\<close>): its command line, the order in which it comes up, the
  loop that watches the ROS master, and its exit codes. What the bootstrap file, roscpp, the
  Runtime client and the operating system answer is the record \<open>main_env\<close>. The other threads -
  signal handlers, the callbacks of the client, the workers that publish - act between the
  steps of the main thread, as the lists of actions of the environment say.
\<close>

section \<open>Data\<close>

text \<open>
  What other threads do: the three ways to ask for a stop, a lifecycle callback of the SDK, or a
  critical section of a worker on the publisher registry.
\<close>

datatype 'p action =
    Interrupt
  | StopRequested string
  | SessionLost string
  | Lifecycle callback
  | Worker "'p registry \<Rightarrow> 'p registry"

text \<open>
  One round of the polling loop is one instant: \<open>me_before\<close> acts before the loop condition is
  read, \<open>me_during\<close> between the condition and the probe, and \<open>me_finally\<close> while the process
  shuts down.
\<close>

record 'p main_env =
  me_bootstrap :: "string \<Rightarrow> (client_config \<times> instance_spec) result"
  me_setenv :: "string \<Rightarrow> string \<Rightarrow> string option"
  me_ros_init :: "unit result"
  me_spinner :: "unit result"
  me_sdk :: "binding \<Rightarrow> string option"
  me_client :: "unit result"
  me_start :: "(bool \<times> string) result"
  me_ok :: "nat \<Rightarrow> bool"
  me_master :: "nat \<Rightarrow> int option"
  me_before :: "nat \<Rightarrow> 'p action list"
  me_during :: "nat \<Rightarrow> 'p action list"
  me_finally :: "'p action list"
  me_stop :: "unit result"
  me_initialized :: bool

datatype main_event =
    RosInit "string \<rightharpoonup> string"
  | RuntimeStarted client_config nat
  | RuntimeStopped
  | SpinnerStopped
  | RosShutdown

record main_world =
  mround :: nat
  menvironment :: "string \<rightharpoonup> string"
  stop_requested :: bool
  session_lost :: bool
  mevents :: "main_event list"

section \<open>Command line\<close>

text \<open>\<^verbatim>\<open>--help\<close> ends the process at once, with the given code.\<close>

datatype command_line = Exit int | BootstrapFile string

definition parseBootstrapPath :: "string list \<Rightarrow> command_line result" where
  "parseBootstrapPath argv =
     (if length argv = 2 \<and> (argv ! 1 = ''--help'' \<or> argv ! 1 = ''-h'') then Inr (Exit 0)
      else if length argv = 3 \<and> argv ! 1 = ''--adapter-bootstrap-file'' \<and> argv ! 2 \<noteq> []
      then Inr (BootstrapFile (argv ! 2))
      else stdError ''exactly --adapter-bootstrap-file PATH is required'')"

section \<open>Other threads\<close>

fun act :: "libraries \<Rightarrow> contract \<Rightarrow> 'p action \<Rightarrow> 'p adapter \<times> main_world \<Rightarrow> 'p adapter \<times> main_world" where
  "act L C Interrupt (a, w) = (a, w\<lparr>stop_requested := True\<rparr>)"
| "act L C (StopRequested reason) (a, w) = (a, w\<lparr>stop_requested := True\<rparr>)"
| "act L C (SessionLost reason) (a, w) = (a, w\<lparr>session_lost := True, stop_requested := True\<rparr>)"
| "act L C (Lifecycle callback) (a, w) = (snd (deliver L C callback a), w)"
| "act L C (Worker update) (a, w) = (a\<lparr>publishers := update (publishers a)\<rparr>, w)"

definition interfere ::
  "libraries \<Rightarrow> contract \<Rightarrow> 'p action list \<Rightarrow> 'p adapter \<Rightarrow> (main_world, 'p adapter) prog" where
  "interfere L C actions a = (\<lambda>w. case fold (act L C) actions (a, w) of (a', w') \<Rightarrow> Some (Inr a', w'))"

section \<open>The polling loop\<close>

definition kUnavailableExitPolls :: nat where "kUnavailableExitPolls = 10"

definition set_stop :: "(main_world, unit) prog" where
  "set_stop = modifyP (\<lambda>w. w\<lparr>stop_requested := True\<rparr>)"

text \<open>The body of the loop after the probe: the new count of unavailable polls.\<close>

definition poll_outcome :: "master_binding_state \<Rightarrow> nat \<Rightarrow> (main_world, nat) prog" where
  "poll_outcome state unavailable_polls =
     (case state of
        Changed \<Rightarrow> thenP set_stop (returnP unavailable_polls)
      | Unavailable \<Rightarrow>
          if unavailable_polls + 1 \<ge> kUnavailableExitPolls then thenP set_stop (returnP (unavailable_polls + 1))
          else returnP (unavailable_polls + 1)
      | Bound \<Rightarrow> returnP 0
      | Unbound \<Rightarrow> returnP 0)"

definition poll_round ::
  "'p main_env \<Rightarrow> libraries \<Rightarrow> contract \<Rightarrow> 'p adapter \<times> nat \<Rightarrow>
   (main_world, ('p adapter \<times> nat, 'p adapter) flow) prog" where
  "poll_round E L C = (\<lambda>(a, unavailable_polls).
     bindP (getP mround) (\<lambda>k.
     bindP (interfere L C (me_before E k) a) (\<lambda>a.
     bindP (getP stop_requested) (\<lambda>stop.
       if \<not> (me_ok E k \<and> \<not> stop) then returnP (Done a)
       else
         bindP (interfere L C (me_during E k) a) (\<lambda>a.
           case ProbeMasterBinding (currentMasterGeneration (me_master E k)) a of
             ((state, current), a) \<Rightarrow>
               bindP (poll_outcome state unavailable_polls) (\<lambda>unavailable_polls.
               thenP (modifyP (\<lambda>w. w\<lparr>mround := mround w + 1\<rparr>))
                 (returnP (Again (a, unavailable_polls)))))))))"

definition poll_loop ::
  "nat \<Rightarrow> 'p main_env \<Rightarrow> libraries \<Rightarrow> contract \<Rightarrow> 'p adapter \<Rightarrow> (main_world, 'p adapter) prog" where
  "poll_loop fuel E L C a = iterP fuel (poll_round E L C) (a, 0)"

section \<open>The process\<close>

definition emit :: "main_event \<Rightarrow> (main_world, unit) prog" where
  "emit event = modifyP (\<lambda>w. w\<lparr>mevents := mevents w @ [event]\<rparr>)"

definition apply_environment :: "'p main_env \<Rightarrow> native_context \<Rightarrow> (main_world, unit) prog" where
  "apply_environment E ctx = (\<lambda>w.
     case ApplyEnvironment (me_setenv E) ctx (menvironment w) of
       None \<Rightarrow> None
     | Some (r, env) \<Rightarrow> Some (r, w\<lparr>menvironment := env\<rparr>))"

text \<open>\<^verbatim>\<open>ros::init\<close> and the node handle with its spinner; roscpp reads the environment here.\<close>

definition start_ros :: "'p main_env \<Rightarrow> (main_world, unit) prog" where
  "start_ros E =
     bindP (getP menvironment) (\<lambda>env.
     thenP (emit (RosInit env))
     (thenP (liftP (me_ros_init E)) (liftP (me_spinner E))))"

text \<open>From the bound configuration to the end of the process.\<close>

definition start_runtime :: "'p main_env \<Rightarrow> client_config \<Rightarrow> (main_world, unit) prog" where
  "start_runtime E config =
     thenP (liftP (me_client E))
     (bindP (liftP (me_start E)) (\<lambda>(started, error).
       if \<not> started then liftP (stdError (''Adapter Runtime startup failed: '' @ error))
       else emit (RuntimeStarted config 16)))"

definition shut_down :: "'p main_env \<Rightarrow> libraries \<Rightarrow> contract \<Rightarrow> 'p adapter \<Rightarrow> (main_world, int) prog" where
  "shut_down E L C a =
     thenP (liftP (me_stop E))
     (thenP (emit RuntimeStopped)
     (thenP (emit SpinnerStopped)
     (thenP (emit RosShutdown)
     (bindP (interfere L C (me_finally E) a) (\<lambda>a.
      bindP (getP session_lost) (\<lambda>lost.
      returnP (if lost then 2 else 0)))))))"

definition serve ::
  "nat \<Rightarrow> 'p main_env \<Rightarrow> libraries \<Rightarrow> contract \<Rightarrow> client_config \<Rightarrow> instance_spec \<Rightarrow> (main_world, int) prog" where
  "serve fuel E L C config spec =
     bindP (liftP (FromInstanceSpec L (kConfiguration C) spec)) (\<lambda>native_context.
     thenP (apply_environment E native_context)
     (thenP (start_ros E)
     (bindP (liftP (ToolsAdapter native_context)) (\<lambda>a.
       case BindCapabilities (me_sdk E) (kPublish C) (kService C) (Some config) True of
         ((bound, error), config') \<Rightarrow>
           if \<not> bound then liftP (stdError (case error of None \<Rightarrow> [] | Some text \<Rightarrow> text))
           else case config' of
             None \<Rightarrow> liftP (stdError [])
           | Some config' \<Rightarrow>
               thenP (start_runtime E config')
               (bindP (poll_loop fuel E L C a) (shut_down E L C))))))"

definition adapter_main ::
  "nat \<Rightarrow> 'p main_env \<Rightarrow> libraries \<Rightarrow> contract \<Rightarrow> string list \<Rightarrow> (main_world, int) prog" where
  "adapter_main fuel E L C argv =
     catchP
       (bindP (liftP (parseBootstrapPath argv)) (\<lambda>command.
         case command of
           Exit code \<Rightarrow> returnP code
         | BootstrapFile path \<Rightarrow>
             bindP (liftP (me_bootstrap E path)) (\<lambda>(config, spec). serve fuel E L C config spec)))
       (\<lambda>e. if e = UnknownException then liftP (Inl e)
            else if me_initialized E then thenP (emit RosShutdown) (returnP 1)
            else returnP 1)"

section \<open>What other threads can change\<close>

definition asks_stop :: "'p action list \<Rightarrow> bool" where
  "asks_stop actions \<longleftrightarrow>
     list_ex (\<lambda>action. case action of Interrupt \<Rightarrow> True | StopRequested _ \<Rightarrow> True | SessionLost _ \<Rightarrow> True | _ \<Rightarrow> False) actions"

definition loses_session :: "'p action list \<Rightarrow> bool" where
  "loses_session actions \<longleftrightarrow> list_ex (\<lambda>action. case action of SessionLost _ \<Rightarrow> True | _ \<Rightarrow> False) actions"

text \<open>Workers touch the registry only by its critical sections.\<close>

definition disciplined :: "'p action list \<Rightarrow> bool" where
  "disciplined actions \<longleftrightarrow>
     (\<forall>update reg. Worker update \<in> set actions \<longrightarrow> (\<exists>held held'. registry_step\<^sup>*\<^sup>* (reg, held) (update reg, held')))"

definition generation :: "'p adapter \<Rightarrow> int" where
  "generation a = master_generation (publishers a)"

lemma deliver_generation: "generation (snd (deliver L C callback a)) = generation a"
  by (cases callback)
    (auto simp: generation_def lifecycle_defs clear_def split: option.splits)

lemma act_generation:
  assumes "disciplined [action]" and "generation a \<noteq> 0"
  shows "generation (fst (act L C action (a, w))) = generation a"
proof (cases action)
  case (Worker update)
  then obtain held held' where "registry_step\<^sup>*\<^sup>* (publishers a, held) (update (publishers a), held')"
    using assms(1) unfolding disciplined_def by (metis list.set_intros(1))
  then show ?thesis using steps_generation assms(2) Worker by (fastforce simp: generation_def)
qed (auto simp: deliver_generation)

lemma interfere_flags:
  assumes "fold (act L C) actions (a, w) = (a', w')"
  shows "mround w' = mround w \<and> menvironment w' = menvironment w \<and> mevents w' = mevents w \<and>
    (stop_requested w' \<longleftrightarrow> stop_requested w \<or> asks_stop actions) \<and>
    (session_lost w' \<longleftrightarrow> session_lost w \<or> loses_session actions)"
  using assms
proof (induction actions arbitrary: a w)
  case Nil
  then show ?case by (simp add: asks_stop_def loses_session_def)
next
  case (Cons action rest)
  obtain a1 w1 where one: "act L C action (a, w) = (a1, w1)" by (cases "act L C action (a, w)")
  then have "fold (act L C) rest (a1, w1) = (a', w')" using Cons.prems by simp
  from Cons.IH [OF this] one show ?case
    by (cases action) (auto simp: asks_stop_def loses_session_def)
qed

lemma interfere_generation:
  assumes "fold (act L C) actions (a, w) = (a', w')" and "disciplined actions" and "generation a \<noteq> 0"
  shows "generation a' = generation a"
  using assms
proof (induction actions arbitrary: a w)
  case (Cons action rest)
  obtain a1 w1 where one: "act L C action (a, w) = (a1, w1)" by (cases "act L C action (a, w)")
  have parts: "disciplined [action]" "disciplined rest" using Cons.prems(2) by (auto simp: disciplined_def)
  have "generation a1 = generation a" using act_generation [OF parts(1) Cons.prems(3), of L C w] one by simp
  then show ?case using Cons.IH [of a1 w1] Cons.prems one parts(2) by simp
qed simp

lemma wp_interfere [wp_simps]:
  "wp (interfere L C actions a) Q X = (\<lambda>w. case fold (act L C) actions (a, w) of (a', w') \<Rightarrow> Q a' w')"
  by (simp add: fun_eq_iff wp_def interfere_def split: prod.splits)

lemma twp_interfere [twp_simps]:
  "twp (interfere L C actions a) Q = (\<lambda>w. case fold (act L C) actions (a, w) of (a', w') \<Rightarrow> Q a' w')"
  by (simp add: fun_eq_iff twp_def interfere_def split: prod.splits)

section \<open>The loop\<close>

text \<open>The master did not tell its process, or told the process of another master than the bound one.\<close>

definition no_generation :: "int option \<Rightarrow> bool" where
  "no_generation answer \<longleftrightarrow> (case answer of None \<Rightarrow> True | Some pid \<Rightarrow> pid \<le> 0)"

definition other_generation :: "int option \<Rightarrow> int \<Rightarrow> bool" where
  "other_generation answer bound \<longleftrightarrow> (case answer of None \<Rightarrow> False | Some pid \<Rightarrow> 0 < pid \<and> bound \<noteq> 0 \<and> pid \<noteq> bound)"

text \<open>Why the loop may have been told to stop before round \<open>n\<close>.\<close>

definition stop_reason :: "'p main_env \<Rightarrow> nat \<Rightarrow> int \<Rightarrow> bool" where
  "stop_reason E n bound \<longleftrightarrow>
     (\<exists>k < n. asks_stop (me_before E k) \<or> asks_stop (me_during E k)) \<or>
     (0 < n \<and> other_generation (me_master E (n - 1)) bound) \<or>
     (kUnavailableExitPolls \<le> n \<and> (\<forall>k. n - kUnavailableExitPolls \<le> k \<and> k < n \<longrightarrow> no_generation (me_master E k)))"

definition disciplined_env :: "'p main_env \<Rightarrow> bool" where
  "disciplined_env E \<longleftrightarrow> (\<forall>k. disciplined (me_before E k) \<and> disciplined (me_during E k))"

lemma probe_cases:
  assumes "ProbeMasterBinding (currentMasterGeneration answer) a = ((state, current), a')"
  shows "(state = Changed \<longleftrightarrow> other_generation answer (generation a)) \<and>
    (state = Unavailable \<longleftrightarrow> no_generation answer \<and> generation a \<noteq> 0) \<and>
    (generation a \<noteq> 0 \<longrightarrow> generation a' = generation a)"
  using assms
  by (auto simp: ProbeMasterBinding_def probeMasterBinding_def currentMasterGeneration_def unbound_or_unavailable_def
      transientError_def other_generation_def no_generation_def generation_def
      split: option.splits if_splits prod.splits sum.splits)

definition poll_inv :: "'p main_env \<Rightarrow> 'p adapter \<times> nat \<Rightarrow> main_world \<Rightarrow> bool" where
  "poll_inv E = (\<lambda>(a, unavailable_polls) w.
     (\<forall>k < mround w. me_ok E k) \<and>
     (if stop_requested w then stop_reason E (mround w) (generation a)
      else unavailable_polls < kUnavailableExitPolls \<and> unavailable_polls \<le> mround w \<and>
        (\<forall>k. mround w - unavailable_polls \<le> k \<and> k < mround w \<longrightarrow> no_generation (me_master E k))))"

lemma wp_poll_outcome:
  "wp (poll_outcome state unavailable_polls) Q X w =
     (case state of
        Changed \<Rightarrow> Q unavailable_polls (w\<lparr>stop_requested := True\<rparr>)
      | Unavailable \<Rightarrow>
          if unavailable_polls + 1 \<ge> kUnavailableExitPolls then Q (unavailable_polls + 1) (w\<lparr>stop_requested := True\<rparr>)
          else Q (unavailable_polls + 1) w
      | _ \<Rightarrow> Q 0 w)"
  by (simp add: poll_outcome_def set_stop_def wp_simps split: master_binding_state.split)

lemma poll_round_vc:
  assumes "disciplined_env E" and "poll_inv E (a, u) w"
    and leave: "\<And>a' w'. (\<forall>k < mround w. me_ok E k) \<Longrightarrow> mround w' = mround w \<Longrightarrow>
      \<not> me_ok E (mround w) \<or> asks_stop (me_before E (mround w)) \<or> stop_reason E (mround w) (generation a') \<Longrightarrow>
      mevents w' = mevents w \<Longrightarrow> Q (Done a') w'"
    and again: "\<And>a' u' w'. poll_inv E (a', u') w' \<Longrightarrow> mround w' = mround w + 1 \<Longrightarrow> mevents w' = mevents w \<Longrightarrow> Q (Again (a', u')) w'"
  shows "wp (poll_round E L C (a, u)) Q X w"
proof -
  let ?k = "mround w"
  obtain a1 w1 where one: "fold (act L C) (me_before E ?k) (a, w) = (a1, w1)" by (cases "fold (act L C) (me_before E ?k) (a, w)")
  obtain a2 w2 where two: "fold (act L C) (me_during E ?k) (a1, w1) = (a2, w2)" by (cases "fold (act L C) (me_during E ?k) (a1, w1)")
  obtain state current a3 where probe: "ProbeMasterBinding (currentMasterGeneration (me_master E ?k)) a2 = ((state, current), a3)"
    by (cases "ProbeMasterBinding (currentMasterGeneration (me_master E ?k)) a2") auto
  note flags = interfere_flags [OF one] interfere_flags [OF two]
  have keep: "generation a1 = generation a" if "generation a \<noteq> 0"
    using interfere_generation [OF one _ that] assms(1) by (simp add: disciplined_env_def)
  have keep2: "generation a2 = generation a1" if "generation a1 \<noteq> 0"
    using interfere_generation [OF two _ that] assms(1) by (simp add: disciplined_env_def)
  show ?thesis
  proof (cases "me_ok E ?k \<and> \<not> stop_requested w1")
    case False
    then have "\<not> me_ok E ?k \<or> asks_stop (me_before E ?k) \<or> stop_reason E ?k (generation a1)"
      using flags(1) assms(2) keep by (auto simp: poll_inv_def stop_reason_def other_generation_def split: option.splits)
    then have "Q (Done a1) w1" using leave assms(2) flags(1) by (simp add: poll_inv_def)
    then show ?thesis using False by (simp add: poll_round_def wp_simps one)
  next
    case True
    have quiet: "\<not> stop_requested w" "mround w2 = ?k" "mevents w2 = mevents w" using True flags by auto
    then have inv: "\<forall>k < ?k. me_ok E k" "u < kUnavailableExitPolls" "u \<le> ?k"
      "\<forall>k. ?k - u \<le> k \<and> k < ?k \<longrightarrow> no_generation (me_master E k)" using assms(2) by (auto simp: poll_inv_def)
    define after where "after = (\<lambda>u' stop. poll_inv E (a3, u') (w2\<lparr>stop_requested := stop, mround := ?k + 1\<rparr>))"
    have ok: "\<forall>k < ?k + 1. me_ok E k" using inv(1) True by (auto simp: less_Suc_eq)
    note probed = probe_cases [OF probe]
    have changed: "after u True" if "state = Changed"
      using probed that ok by (auto simp: after_def poll_inv_def stop_reason_def other_generation_def split: option.splits)
    have asked: "after u' True" if "stop_requested w2" for u'
      using that flags True ok by (auto simp: after_def poll_inv_def stop_reason_def)
    have missing: "\<forall>k. ?k + 1 - (u + 1) \<le> k \<and> k < ?k + 1 \<longrightarrow> no_generation (me_master E k)" if "state = Unavailable"
      using probed that inv(4) by (auto simp: less_Suc_eq)
    have gone: "after (u + 1) True" if "state = Unavailable" "u + 1 \<ge> kUnavailableExitPolls"
      using missing [OF that(1)] that(2) inv(2,3) ok by (auto simp: after_def poll_inv_def stop_reason_def)
    have still: "after (u + 1) False" if "state = Unavailable" "\<not> u + 1 \<ge> kUnavailableExitPolls"
      using missing [OF that(1)] that(2) inv(3) ok by (auto simp: after_def poll_inv_def)
    have fine: "after 0 False" using ok by (auto simp: after_def poll_inv_def kUnavailableExitPolls_def)
    have next_round: "Q (Again (a3, u')) (w2\<lparr>stop_requested := stop, mround := Suc ?k\<rparr>)" if "after u' stop" for u' stop
      using again [OF that [unfolded after_def]] quiet(3) by simp
    have unchanged: "Q (Again (a3, u')) (w2\<lparr>mround := Suc ?k\<rparr>)" if "after u' False" for u'
    proof -
      have "after u' (stop_requested w2)" using that asked [of u'] by (cases "stop_requested w2") simp_all
      moreover have "w2\<lparr>stop_requested := stop_requested w2, mround := Suc ?k\<rparr> = w2\<lparr>mround := Suc ?k\<rparr>" by simp
      ultimately show ?thesis using next_round [of u' "stop_requested w2"] by argo
    qed
    show ?thesis
      using True changed gone still fine next_round unchanged
      by (auto simp: poll_round_def wp_simps one two probe wp_poll_outcome quiet(2) split: master_binding_state.split)
  qed
qed

text \<open>The loop was left in round \<open>n\<close> for one of the reasons the code has.\<close>

definition left_loop :: "'p main_env \<Rightarrow> nat \<Rightarrow> int \<Rightarrow> bool" where
  "left_loop E n bound \<longleftrightarrow>
     (\<forall>k < n. me_ok E k) \<and> (\<not> me_ok E n \<or> asks_stop (me_before E n) \<or> stop_reason E n bound)"

lemma poll_loop_vc:
  assumes "disciplined_env E" and "mround w = 0" and "\<not> stop_requested w"
  shows "wp (poll_loop fuel E L C a)
    (\<lambda>a' w'. left_loop E (mround w') (generation a') \<and> mevents w' = mevents w) (\<lambda>_ _. False) w"
  unfolding poll_loop_def
proof (rule wp_iter [where I = "\<lambda>x w'. poll_inv E x w' \<and> mevents w' = mevents w"])
  show "poll_inv E (a, 0) w \<and> mevents w = mevents w"
    using assms(2,3) by (simp add: poll_inv_def kUnavailableExitPolls_def)
next
  fix x w1
  assume inv: "poll_inv E x w1 \<and> mevents w1 = mevents w"
  obtain a u where x: "x = (a, u)" by (cases x)
  show "wp (poll_round E L C x) (\<lambda>r w'. case r of Again x' \<Rightarrow> poll_inv E x' w' \<and> mevents w' = mevents w
      | Done a' \<Rightarrow> left_loop E (mround w') (generation a') \<and> mevents w' = mevents w) (\<lambda>_ _. False) w1"
    unfolding x by (rule poll_round_vc [OF assms(1)]) (use inv x in \<open>auto simp: left_loop_def\<close>)
qed

text \<open>
  The loop has to stop: it is told so in round \<open>m\<close>, or the master that answered in an earlier
  round \<open>j\<close> does not answer any more in the polls that count.
\<close>

definition deserted :: "'p main_env \<Rightarrow> nat \<Rightarrow> nat \<Rightarrow> int \<Rightarrow> bool" where
  "deserted E m j pid \<longleftrightarrow>
     j < m \<and> 0 < pid \<and> me_master E j = Some pid \<and>
     (\<forall>k. m \<le> k \<and> k < m + kUnavailableExitPolls \<longrightarrow> me_master E k \<noteq> Some pid)"

definition told_to_stop :: "'p main_env \<Rightarrow> nat \<Rightarrow> bool" where
  "told_to_stop E m \<longleftrightarrow> \<not> me_ok E m \<or> asks_stop (me_before E m) \<or> asks_stop (me_during E m)"

definition ending_inv :: "'p main_env \<Rightarrow> nat \<Rightarrow> nat \<Rightarrow> int \<Rightarrow> 'p adapter \<times> nat \<Rightarrow> main_world \<Rightarrow> bool" where
  "ending_inv E m j pid = (\<lambda>(a, u) w.
     mround w \<le> m + kUnavailableExitPolls \<and>
     (stop_requested w \<or>
       (deserted E m j pid \<and> j < mround w \<longrightarrow> generation a = pid) \<and>
       (mround w \<le> m \<or> deserted E m j pid \<and> mround w \<le> m + u \<and> u < kUnavailableExitPolls)))"

lemma probe_answered:
  assumes "ProbeMasterBinding (currentMasterGeneration (Some pid)) a = ((state, current), a')" and "0 < pid"
  shows "state = Changed \<or> generation a' = pid"
  using assms
  by (auto simp: ProbeMasterBinding_def probeMasterBinding_def currentMasterGeneration_def generation_def
      split: if_splits)

lemma twp_poll_outcome:
  "twp (poll_outcome state unavailable_polls) Q w =
     (case state of
        Changed \<Rightarrow> Q unavailable_polls (w\<lparr>stop_requested := True\<rparr>)
      | Unavailable \<Rightarrow>
          if unavailable_polls + 1 \<ge> kUnavailableExitPolls then Q (unavailable_polls + 1) (w\<lparr>stop_requested := True\<rparr>)
          else Q (unavailable_polls + 1) w
      | _ \<Rightarrow> Q 0 w)"
  by (simp add: poll_outcome_def set_stop_def twp_simps split: master_binding_state.split)

lemma poll_round_ends:
  assumes "disciplined_env E" and "told_to_stop E m \<or> deserted E m j pid" and "ending_inv E m j pid (a, u) w"
  shows "twp (poll_round E L C (a, u)) (\<lambda>r w'. case r of
      Again x \<Rightarrow> ending_inv E m j pid x w' \<and> mround w < m + kUnavailableExitPolls \<and> mround w' = mround w + 1
    | Done a' \<Rightarrow> mround w' \<le> m + kUnavailableExitPolls) w"
proof -
  let ?k = "mround w"
  obtain a1 w1 where one: "fold (act L C) (me_before E ?k) (a, w) = (a1, w1)" by (cases "fold (act L C) (me_before E ?k) (a, w)")
  obtain a2 w2 where two: "fold (act L C) (me_during E ?k) (a1, w1) = (a2, w2)" by (cases "fold (act L C) (me_during E ?k) (a1, w1)")
  obtain state current a3 where probe: "ProbeMasterBinding (currentMasterGeneration (me_master E ?k)) a2 = ((state, current), a3)"
    by (cases "ProbeMasterBinding (currentMasterGeneration (me_master E ?k)) a2") auto
  note flags = interfere_flags [OF one] interfere_flags [OF two]
  show ?thesis
  proof (cases "me_ok E ?k \<and> \<not> stop_requested w1")
    case False
    then show ?thesis using flags(1) assms(3) by (simp add: poll_round_def twp_simps one ending_inv_def)
  next
    case True
    have quiet: "\<not> stop_requested w" "mround w2 = ?k" "\<not> asks_stop (me_before E ?k)" using True flags by auto
    then have early: "?k < m + kUnavailableExitPolls"
      and inv: "deserted E m j pid \<and> j < ?k \<longrightarrow> generation a = pid"
        "?k \<le> m \<or> deserted E m j pid \<and> ?k \<le> m + u \<and> u < kUnavailableExitPolls"
      using assms(3) by (auto simp: ending_inv_def kUnavailableExitPolls_def)
    have kept: "generation a2 = pid \<and> generation a3 = pid" if "deserted E m j pid" "j < ?k"
      using that inv(1) assms(1) interfere_generation [OF one] interfere_generation [OF two] probe_cases [OF probe]
      by (auto simp: disciplined_env_def deserted_def)
    have bound: "generation a3 = pid" if "deserted E m j pid" "j \<le> ?k" "state \<noteq> Changed"
      using that kept probe_answered [of pid a2 state current a3] probe by (cases "j = ?k") (auto simp: deserted_def)
    have lost: "state = Changed \<or> state = Unavailable" if "deserted E m j pid" "m \<le> ?k"
      using probe_cases [OF probe] kept that early
      by (auto simp: deserted_def other_generation_def no_generation_def split: option.splits)
    define after where "after = (\<lambda>u' w'. ending_inv E m j pid (a3, u') (w'\<lparr>mround := Suc ?k\<rparr>))"
    have stopped: "after u' w'" if "stop_requested w'" for u' w'
      using that early by (auto simp: after_def ending_inv_def)
    have before: "after u' w2" if "?k < m" "state \<noteq> Changed" for u'
      using that bound early by (auto simp: after_def ending_inv_def less_Suc_eq_le)
    have missed: "state \<noteq> Bound \<and> state \<noteq> Unbound \<and> (state = Unavailable \<and> u + 1 < kUnavailableExitPolls \<longrightarrow> after (u + 1) w2)"
      if "\<not> ?k < m" "\<not> stop_requested w2"
    proof -
      have gone: "deserted E m j pid" "?k \<le> m + u"
        using that assms(2) inv(2) quiet True flags(2) by (cases "?k = m"; auto simp: told_to_stop_def)+
      then show ?thesis using lost bound that early by (auto simp: after_def ending_inv_def deserted_def)
    qed
    show ?thesis
      using True early stopped before missed
      by (cases "?k < m"; cases "stop_requested w2")
        (auto simp: poll_round_def twp_simps one two probe twp_poll_outcome quiet(2) after_def
          split: master_binding_state.split)
  qed
qed

lemma poll_loop_returns:
  assumes "disciplined_env E" and "told_to_stop E m \<or> deserted E m j pid" and "mround w = 0"
  shows "twp (poll_loop (m + kUnavailableExitPolls + 1) E L C a) (\<lambda>a' w'. mround w' \<le> m + kUnavailableExitPolls) w"
proof -
  have "twp (iterP (Suc n) (poll_round E L C) (a', u)) (\<lambda>a' w'. mround w' \<le> m + kUnavailableExitPolls) w'"
    if "ending_inv E m j pid (a', u) w'" "m + kUnavailableExitPolls \<le> mround w' + n" for n a' u w'
    using that
  proof (induction n arbitrary: a' u w')
    case 0
    show ?case
      by (subst iterP.simps(2), subst twp_bind, rule twp_mono [OF poll_round_ends [OF assms(1,2) 0(1)]])
        (use 0(2) in \<open>auto simp: twp_simps split: flow.splits\<close>)
  next
    case (Suc n)
    show ?case
      by (subst iterP.simps(2), subst twp_bind, rule twp_mono [OF poll_round_ends [OF assms(1,2) Suc.prems(1)]])
        (use Suc.IH Suc.prems(2) in \<open>auto simp: twp_return split: flow.splits simp del: iterP.simps\<close>)
  qed
  from this [of a 0 w "m + kUnavailableExitPolls"] assms(3) show ?thesis
    by (simp add: poll_loop_def ending_inv_def)
qed

section \<open>The process\<close>

lemma wp_apply_environment [wp_simps]:
  "wp (apply_environment E ctx) Q X = (\<lambda>w.
     case ApplyEnvironment (me_setenv E) ctx (menvironment w) of
       None \<Rightarrow> True
     | Some (Inl e, env) \<Rightarrow> X e (w\<lparr>menvironment := env\<rparr>)
     | Some (Inr _, env) \<Rightarrow> Q () (w\<lparr>menvironment := env\<rparr>))"
  by (simp add: fun_eq_iff wp_def apply_environment_def split: option.splits sum.splits)

lemma wp_emit [wp_simps]: "wp (emit event) Q X = (\<lambda>w. Q () (w\<lparr>mevents := mevents w @ [event]\<rparr>))"
  by (simp add: emit_def wp_simps)

text \<open>The bootstrap file the command line names, with the context its specification describes.\<close>

definition bootstrapped ::
  "'p main_env \<Rightarrow> libraries \<Rightarrow> contract \<Rightarrow> string list \<Rightarrow> client_config \<Rightarrow> native_context \<Rightarrow> bool" where
  "bootstrapped E L C argv config ctx \<longleftrightarrow>
     (\<exists>path spec. parseBootstrapPath argv = Inr (BootstrapFile path) \<and> me_bootstrap E path = Inr (config, spec) \<and>
        describes L (kConfiguration C) spec ctx)"

text \<open>Both compiled capabilities were advertised, and are bound to their callbacks.\<close>

definition both_bound :: "contract \<Rightarrow> client_config \<Rightarrow> client_config \<Rightarrow> bool" where
  "both_bound C config config' \<longleftrightarrow>
     set (capabilities config) = {compiled_contract (kPublish C), compiled_contract (kService C)} \<and>
     (\<exists>new. bindings config' = bindings config @ new \<and> length new = 2 \<and>
        set new = {compiled_binding (kPublish C) PublishCallbacks, compiled_binding (kService C) ServiceCallbacks})"

text \<open>How far the process came up, and with what.\<close>

fun came_up ::
  "'p main_env \<Rightarrow> libraries \<Rightarrow> contract \<Rightarrow> string list \<Rightarrow> (string \<rightharpoonup> string) \<Rightarrow> main_event list \<Rightarrow> bool" where
  "came_up E L C argv env [] \<longleftrightarrow> True"
| "came_up E L C argv env [RosInit used] \<longleftrightarrow>
     (\<exists>config ctx. bootstrapped E L C argv config ctx \<and> used = context_environment ctx env)"
| "came_up E L C argv env [RosInit used, RuntimeStarted config' workers] \<longleftrightarrow>
     (\<exists>config ctx. bootstrapped E L C argv config ctx \<and> used = context_environment ctx env \<and>
        both_bound C config config' \<and> workers = 16)"
| "came_up E L C argv env _ \<longleftrightarrow> False"

lemma BindCapabilities_bound:
  assumes "ex_capability_id (kPublish C) \<noteq> ex_capability_id (kService C)"
    and "BindCapabilities sdk (kPublish C) (kService C) (Some config) True = ((True, error), config')"
  shows "\<exists>c. config' = Some c \<and> both_bound C config c"
proof -
  note out = BindCapabilities_outcome [OF assms]
  then obtain c where "config' = Some c" by (cases config') auto
  then show ?thesis using out unfolding both_bound_def by auto
qed

definition ended ::
  "'p main_env \<Rightarrow> libraries \<Rightarrow> contract \<Rightarrow> string list \<Rightarrow> (string \<rightharpoonup> string) \<Rightarrow> int \<Rightarrow> main_world \<Rightarrow> bool" where
  "ended E L C argv env code w' \<longleftrightarrow>
     (\<exists>used config bound. came_up E L C argv env [RosInit used, RuntimeStarted config 16] \<and>
        mevents w' = [RosInit used, RuntimeStarted config 16, RuntimeStopped, SpinnerStopped, RosShutdown] \<and>
        left_loop E (mround w') bound \<and> code = (if session_lost w' then 2 else 0))"

definition failed ::
  "'p main_env \<Rightarrow> libraries \<Rightarrow> contract \<Rightarrow> string list \<Rightarrow> (string \<rightharpoonup> string) \<Rightarrow> main_event list \<Rightarrow> bool" where
  "failed E L C argv env events \<longleftrightarrow>
     came_up E L C argv env events \<and> (me_stop E = Inr () \<longrightarrow> (\<forall>config workers. RuntimeStarted config workers \<notin> set events))"

lemma shut_down_vc:
  assumes "came_up E L C argv env [RosInit used, RuntimeStarted config 16]"
    and "mevents w = [RosInit used, RuntimeStarted config 16]" and "left_loop E (mround w) bound"
  shows "wp (shut_down E L C a) (ended E L C argv env) (\<lambda>e w'. failed E L C argv env (mevents w')) w"
proof -
  have finished: "ended E L C argv env code w'"
    if "mround w' = mround w" "mevents w' = mevents w @ [RuntimeStopped, SpinnerStopped, RosShutdown]"
      "code = (if session_lost w' then 2 else 0)" for w' code
    unfolding ended_def using assms that by (intro exI [of _ used] exI [of _ config] exI [of _ bound]) simp
  have "failed E L C argv env (mevents w)" if "me_stop E = Inl e" for e
    using assms(1,2) that by (simp add: failed_def)
  then show ?thesis
    unfolding shut_down_def by (auto simp: wp_simps dest!: interfere_flags intro!: finished split: sum.splits)
qed

lemma serve_vc:
  assumes "disciplined_env E" and "ex_capability_id (kPublish C) \<noteq> ex_capability_id (kService C)"
    and "parseBootstrapPath argv = Inr (BootstrapFile path)" and "me_bootstrap E path = Inr (config, spec)"
    and "mround w = 0" and "\<not> stop_requested w" and "mevents w = []"
  shows "wp (serve fuel E L C config spec) (ended E L C argv (menvironment w))
    (\<lambda>e w'. failed E L C argv (menvironment w) (mevents w')) w"
proof (cases "FromInstanceSpec L (kConfiguration C) spec")
  case (Inl e)
  then show ?thesis using assms(7) by (simp add: serve_def wp_simps failed_def)
next
  case (Inr ctx)
  then have described: "describes L (kConfiguration C) spec ctx" by (simp add: FromInstanceSpec_iff)
  then have boot: "bootstrapped E L C argv config ctx" using assms(3,4) by (auto simp: bootstrapped_def)
  have identity: "network_identity L ctx" using described unfolding describes_def by blast
  let ?used = "context_environment ctx (menvironment w)"
  have up: "came_up E L C argv (menvironment w) [RosInit ?used]" using boot by auto
  have early: "failed E L C argv (menvironment w) []" "failed E L C argv (menvironment w) [RosInit ?used]"
    using up by (auto simp: failed_def simp del: came_up.simps(2))
  obtain ok error config' where bind: "BindCapabilities (me_sdk E) (kPublish C) (kService C) (Some config) True = ((ok, error), config')"
    by (cases "BindCapabilities (me_sdk E) (kPublish C) (kService C) (Some config) True") auto
  have running: "wp (bindP (poll_loop fuel E L C a) (shut_down E L C)) (ended E L C argv (menvironment w))
      (\<lambda>e w'. failed E L C argv (menvironment w) (mevents w')) w1"
    if "mround w1 = 0" "\<not> stop_requested w1" "mevents w1 = [RosInit ?used, RuntimeStarted c 16]" "both_bound C config c" for a c w1
    unfolding wp_bind
    by (rule wp_mono [OF poll_loop_vc [OF assms(1) that(1,2)]], rule shut_down_vc)
      (use that boot in auto)
  have bound: "\<exists>c. config' = Some c \<and> both_bound C config c" if ok
    using BindCapabilities_bound [OF assms(2)] bind that by simp
  show ?thesis
    using early assms(5-7) bound
    by (auto simp: serve_def start_ros_def start_runtime_def wp_simps Inr bind stdError_def
        intro!: running [unfolded wp_bind] dest!: ApplyEnvironment_run [OF identity] split: option.splits sum.splits)
qed

section \<open>Properties\<close>

text \<open>
  C13. The adapter process comes up in order and says how it ended. Exit code 1 means that the
  Runtime client was never started (unless the client itself failed to stop), and whatever was
  reached before the failure was reached properly; any other code but that of the help text
  means that roscpp was initialised under exactly the environment of the context that the
  bootstrap describes, that the client was started with both compiled capabilities bound to
  their callbacks, that the polling loop was left because ROS went down, a stop was asked for,
  the master changed or ten polls in a row found no master, and that client, spinner and ROS
  were stopped in this order; it is 2 exactly when the session was lost.
\<close>

theorem adapter_process_outcome:
  assumes "disciplined_env E" and "ex_capability_id (kPublish C) \<noteq> ex_capability_id (kService C)"
    and "adapter_main fuel E L C argv w = Some (Inr code, w')"
    and "mround w = 0" and "\<not> stop_requested w" and "mevents w = []"
  shows "ended E L C argv (menvironment w) code w' \<or>
    (code = 1 \<and> (\<exists>events. failed E L C argv (menvironment w) events \<and>
       mevents w' = events @ (if me_initialized E then [RosShutdown] else []))) \<or>
    (code = 0 \<and> w' = w \<and> parseBootstrapPath argv = Inr (Exit 0))"
proof -
  define Q where "Q = (\<lambda>code w'. ended E L C argv (menvironment w) code w' \<or>
    (code = 1 \<and> (\<exists>events. failed E L C argv (menvironment w) events \<and>
       mevents w' = events @ (if me_initialized E then [RosShutdown] else []))) \<or>
    (code = 0 \<and> w' = w \<and> parseBootstrapPath argv = Inr (Exit 0)))"
  define handler :: "exn \<Rightarrow> (main_world, int) prog" where "handler = (\<lambda>e. if e = UnknownException then liftP (Inl e)
    else if me_initialized E then thenP (emit RosShutdown) (returnP 1) else returnP 1)"
  have handled: "wp (handler e) Q (\<lambda>_ _. True) v" if "failed E L C argv (menvironment w) (mevents v)" for e v
    using that by (auto simp: handler_def Q_def wp_simps)
  have early: "wp (handler e) Q (\<lambda>_ _. True) w" for e
    by (rule handled) (use assms(6) in \<open>simp add: failed_def\<close>)
  have exit: "Q code w" if "parseBootstrapPath argv = Inr (Exit code)" for code
    using that by (auto simp: Q_def parseBootstrapPath_def stdError_def split: if_splits)
  have served: "wp (serve fuel E L C config spec) Q (\<lambda>e. wp (handler e) Q (\<lambda>_ _. True)) w"
    if "parseBootstrapPath argv = Inr (BootstrapFile path)" "me_bootstrap E path = Inr (config, spec)" for path config spec
  proof (rule wp_mono [OF serve_vc [OF assms(1,2) that assms(4-6)]])
    show "Q code w'" if "ended E L C argv (menvironment w) code w'" for code w' using that by (simp add: Q_def)
  qed (rule handled)
  have "wp (adapter_main fuel E L C argv) Q (\<lambda>_ _. True) w"
    unfolding adapter_main_def wp_catch handler_def [symmetric]
    by (auto simp: wp_bind wp_lift wp_return wp_case_prod early
        intro: exit served split: sum.split command_line.split)
  from wp_Inr [OF this assms(3)] show ?thesis unfolding Q_def .
qed

text \<open>
  C22. The process does not outlive its master or a request to stop. If in round \<open>m\<close> ROS is
  down or a signal, the Runtime or a lost session asks for a stop, or if a master process that
  answered before does not answer any more from round \<open>m\<close> on for ten polls, whether there is
  none or another one, then the polling loop ends in round \<open>m + 10\<close> at the latest, whatever
  the callbacks and workers do meanwhile.
\<close>

theorem polling_ends:
  assumes "disciplined_env E" and "told_to_stop E m \<or> deserted E m j pid" and "mround w = 0"
    and "m + kUnavailableExitPolls < fuel"
  shows "\<exists>a' w'. poll_loop fuel E L C a w = Some (Inr a', w') \<and> mround w' \<le> m + kUnavailableExitPolls"
proof -
  obtain a' w' where run: "poll_loop (m + kUnavailableExitPolls + 1) E L C a w = Some (Inr a', w')"
      "mround w' \<le> m + kUnavailableExitPolls"
    using twpD [OF poll_loop_returns [OF assms(1-3)]] by blast
  have "mono_fuel (\<lambda>n. poll_loop n E L C a)" unfolding poll_loop_def by (rule mono_iter_const)
  from mono_fuelD [OF this run(1)] assms(4) run(2) show ?thesis by auto
qed

section \<open>Example\<close>

text \<open>A master that answers until the third poll and is then gone.\<close>

definition sample_main_env :: "unit main_env" where
  "sample_main_env =
     \<lparr>me_bootstrap = (\<lambda>path. Inr (\<lparr>capabilities = [compiled_contract (kPublish sample_contract), compiled_contract (kService sample_contract)],
        bindings = []\<rparr>, sample_spec)),
      me_setenv = (\<lambda>name v. None), me_ros_init = Inr (), me_spinner = Inr (), me_sdk = (\<lambda>binding. None),
      me_client = Inr (), me_start = Inr (True, []), me_ok = (\<lambda>k. True),
      me_master = (\<lambda>k. if k < 3 then Some 42 else None), me_before = (\<lambda>k. [Lifecycle (Apply sample_spec)]),
      me_during = (\<lambda>k. [Worker clear]), me_finally = [SessionLost ''stopped''], me_stop = Inr (), me_initialized = True\<rparr>"

definition sample_main_world :: main_world where
  "sample_main_world =
     \<lparr>mround = 0, menvironment = Map.empty, stop_requested = False, session_lost = False, mevents = []\<rparr>"

lemma sample_disciplined: "disciplined_env sample_main_env"
  by (auto simp: disciplined_env_def disciplined_def sample_main_env_def intro!: r_into_rtranclp registry_step.clear)

definition sample_argv :: "string list" where
  "sample_argv = [''node'', ''--adapter-bootstrap-file'', ''/run/bootstrap'']"

lemma sample_process:
  "\<exists>w'. adapter_main 14 sample_main_env sample_libraries sample_contract sample_argv sample_main_world = Some (Inr 2, w')"
proof -
  have ctx: "FromInstanceSpec sample_libraries (kConfiguration sample_contract) sample_spec = Inr sample_context"
    using sample_describes by (simp add: FromInstanceSpec_iff sample_contract_def)
  obtain a :: "unit adapter" where a: "ToolsAdapter sample_context = Inr a"
    by (simp add: ToolsAdapter_def PublisherRegistry_def)
  let ?config = "\<lparr>capabilities = [compiled_contract (kPublish sample_contract), compiled_contract (kService sample_contract)],
    bindings = []\<rparr>"
  obtain ok error config' where bind: "BindCapabilities (\<lambda>_. None) (kPublish sample_contract) (kService sample_contract)
      (Some ?config) True = ((ok, error), config')" by (metis prod.collapse)
  have ids: "ex_capability_id (kPublish sample_contract) \<noteq> ex_capability_id (kService sample_contract)"
    by (simp add: sample_contract_def sample_endpoint_def)
  have ok using BindCapabilities_outcome [OF ids bind] by simp
  moreover from this obtain c where "config' = Some c" using BindCapabilities_bound [OF ids] bind by fastforce
  ultimately have bound: "BindCapabilities (\<lambda>_. None) (kPublish sample_contract) (kService sample_contract)
      (Some ?config) True = ((True, error), Some c)" using bind by simp
  have poll: "\<exists>a' w'. poll_loop 14 sample_main_env sample_libraries sample_contract a w = Some (Inr a', w')"
    if "mround w = 0" for w
  proof -
    have "deserted sample_main_env 3 2 42" by (simp add: deserted_def sample_main_env_def)
    from twpD [OF poll_loop_returns [OF sample_disciplined disjI2 [OF this] that]] show ?thesis
      by (simp add: kUnavailableExitPolls_def) blast
  qed
  have answers: "me_bootstrap sample_main_env path = Inr (?config, sample_spec)" "me_setenv sample_main_env = (\<lambda>name v. None)"
    "me_ros_init sample_main_env = Inr ()" "me_spinner sample_main_env = Inr ()" "me_sdk sample_main_env = (\<lambda>_. None)"
    "me_client sample_main_env = Inr ()" "me_start sample_main_env = Inr (True, [])" "me_stop sample_main_env = Inr ()"
    "me_finally sample_main_env = [SessionLost ''stopped'']" for path
    by (simp_all add: sample_main_env_def)
  have command: "parseBootstrapPath sample_argv = Inr (BootstrapFile ''/run/bootstrap'')"
    by (simp add: parseBootstrapPath_def sample_argv_def)
  have finish: "\<exists>w'. shut_down sample_main_env sample_libraries sample_contract a' w = Some (Inr 2, w')" for a' :: "unit adapter" and w
    by (simp add: shut_down_def prog_defs emit_def interfere_def answers)
  obtain env where env: "ApplyEnvironment (\<lambda>name v. None) sample_context (menvironment sample_main_world) = Some (Inr (), env)"
    by (simp add: ApplyEnvironment_def setEnvironment_def thenP_def bindP_def)
  define w1 where "w1 = sample_main_world\<lparr>menvironment := env, mevents := [RosInit env, RuntimeStarted c 16]\<rparr>"
  obtain a' w2 where polled: "poll_loop 14 sample_main_env sample_libraries sample_contract a w1 = Some (Inr a', w2)"
    using poll [of w1] by (auto simp: w1_def sample_main_world_def)
  have start: "mevents sample_main_world = []" by (simp add: sample_main_world_def)
  show ?thesis
    using finish [of a' w2]
    by (auto simp: adapter_main_def serve_def start_ros_def start_runtime_def command answers ctx a bound apply_environment_def
        env prog_defs emit_def start polled [unfolded w1_def])
qed

theorem adapter_process_outcome_witness:
  "\<exists>w'. adapter_main 14 sample_main_env sample_libraries sample_contract sample_argv sample_main_world = Some (Inr 2, w') \<and>
     ended sample_main_env sample_libraries sample_contract sample_argv Map.empty 2 w'"
proof -
  obtain w' where run: "adapter_main 14 sample_main_env sample_libraries sample_contract sample_argv sample_main_world = Some (Inr 2, w')"
    using sample_process by blast
  have "ex_capability_id (kPublish sample_contract) \<noteq> ex_capability_id (kService sample_contract)"
    by (simp add: sample_contract_def sample_endpoint_def)
  from adapter_process_outcome [OF sample_disciplined this run] run show ?thesis
    by (auto simp: sample_main_world_def)
qed

theorem polling_ends_witness:
  "\<exists>a' w'. poll_loop 14 sample_main_env sample_libraries sample_contract sample_adapter sample_main_world =
     Some (Inr a', w') \<and> mround w' \<le> 13"
proof -
  have "deserted sample_main_env 3 2 42" by (simp add: deserted_def sample_main_env_def)
  then show ?thesis
    using polling_ends [OF sample_disciplined, of 3 2 42 sample_main_world 14 sample_libraries sample_contract sample_adapter]
    by (simp add: sample_main_world_def kUnavailableExitPolls_def)
qed

end
