(* ===== verification/Clock_Wait.thy ===== *)
theory Clock_Wait
  imports Adapter_Prelude Complex_Main
begin

text \<open>
  The clock wait tool: \<^verbatim>\<open>clock_wait.hpp\<close> (decimal targets, observation of clock
  stamps) and \<^verbatim>\<open>clock_wait_main.cpp\<close> (its command line, subscription callback and
  polling loop). Integers are 64-bit and 32-bit words as in the source; the lemmas show
  that no operation wraps.
\<close>

section \<open>Decimal targets: clockTarget\<close>

definition UINT32_MAX :: "64 word" where
  "UINT32_MAX = 4294967295"

text \<open>The loop over the digits of the whole part.\<close>

fun clockTarget_whole :: "64 word \<Rightarrow> string \<Rightarrow> 64 word result" where
  "clockTarget_whole seconds [] = Inr seconds"
| "clockTarget_whole seconds (digit # rest) =
     (if \<not> is_digit digit \<or> seconds > UINT32_MAX div 10
      then stdError ''target is outside ROS time''
      else let seconds' = seconds * 10 + of_nat (digit_val digit)
           in if seconds' > UINT32_MAX then stdError ''target is outside ROS time''
              else clockTarget_whole seconds' rest)"

text \<open>The loop over the fraction, with its index, the nanoseconds and the rounding flag.\<close>

fun clockTarget_fraction ::
  "nat \<Rightarrow> 64 word \<Rightarrow> bool \<Rightarrow> string \<Rightarrow> (64 word \<times> bool) result" where
  "clockTarget_fraction i nanos round_up [] = Inr (nanos, round_up)"
| "clockTarget_fraction i nanos round_up (digit # rest) =
     (if \<not> is_digit digit then stdError ''invalid decimal target''
      else if i < 9
      then clockTarget_fraction (Suc i) (nanos * 10 + of_nat (digit_val digit)) round_up rest
      else clockTarget_fraction (Suc i) nanos (round_up \<or> digit \<noteq> CHR ''0'') rest)"

text \<open>The padding loop: the index runs from the size of the fraction up to nine.\<close>

function clockTarget_pad :: "nat \<Rightarrow> 64 word \<Rightarrow> 64 word" where
  "clockTarget_pad i nanos = (if i < 9 then clockTarget_pad (Suc i) (nanos * 10) else nanos)"
  by pat_completeness auto
termination by (relation "measure (\<lambda>(i, nanos). 9 - i)") auto

declare clockTarget_pad.simps [simp del]

definition clockTarget_nanos :: "string \<Rightarrow> 64 word result" where
  "clockTarget_nanos fraction =
     (if fraction = [] then stdError ''target has an empty fraction''
      else bindE (clockTarget_fraction 0 0 False fraction) (\<lambda>(nanos, round_up).
        Inr (clockTarget_pad (length fraction) nanos + (if round_up then 1 else 0))))"

definition clockTarget :: "string \<Rightarrow> 64 word result" where
  "clockTarget text =
     (let point = find_char CHR ''.'' text;
          whole = (case point of None \<Rightarrow> text | Some p \<Rightarrow> take p text)
      in if whole = [] \<or> length text > 128
         then stdError ''target must be bounded nonnegative decimal seconds''
         else bindE (clockTarget_whole 0 whole) (\<lambda>seconds.
              bindE (case point of
                       None \<Rightarrow> Inr 0
                     | Some p \<Rightarrow> clockTarget_nanos (drop (Suc p) text)) (\<lambda>nanos.
              if seconds = UINT32_MAX \<and> nanos \<noteq> 0 then stdError ''target is outside ROS time''
              else Inr (seconds * 1000000000 + nanos))))"

section \<open>ClockWait\<close>

record clock_wait =
  target :: "64 word"
  previous :: "64 word"
  observed :: bool

definition ClockWait :: "string \<Rightarrow> clock_wait result" where
  "ClockWait seconds =
     bindE (clockTarget seconds) (\<lambda>t. Inr \<lparr>target = t, previous = 0, observed = False\<rparr>)"

text \<open>
  An observation that throws leaves the object as it was: both throws precede the
  assignments.
\<close>

definition clock_stamp :: "32 word \<Rightarrow> 32 word \<Rightarrow> 64 word" where
  "clock_stamp sec nsec = ucast sec * 1000000000 + ucast nsec"

definition observe :: "clock_wait \<Rightarrow> 32 word \<Rightarrow> 32 word \<Rightarrow> bool result \<times> clock_wait" where
  "observe w sec nsec =
     (if nsec \<ge> 1000000000 then (stdError ''invalid clock nanoseconds'', w)
      else let stamp = clock_stamp sec nsec
           in if observed w \<and> stamp < previous w
              then (stdError ''simulation clock moved backwards'', w)
              else (Inr (target w \<le> stamp), w\<lparr>previous := stamp, observed := True\<rparr>))"

section \<open>The command line\<close>

record clock_options =
  opt_target :: string
  opt_topic :: string
  opt_timeout :: nat

text \<open>
  \<^verbatim>\<open>std::stoul\<close> on a string of digits: the value, or \<^verbatim>\<open>std::out_of_range\<close> above
  the largest 64-bit unsigned integer.
\<close>

definition stoul_digits :: "string \<Rightarrow> nat result" where
  "stoul_digits s =
     (if digits_val s > 18446744073709551615 then stdError ''stoul'' else Inr (digits_val s))"

fun parse_clock_arguments :: "clock_options \<Rightarrow> string list \<Rightarrow> clock_options result" where
  "parse_clock_arguments opts [] = Inr opts"
| "parse_clock_arguments opts [key] = stdError ''option requires a value''"
| "parse_clock_arguments opts (key # val # rest) =
     (if key = ''--target-seconds'' \<and> opt_target opts = []
      then parse_clock_arguments (opts\<lparr>opt_target := val\<rparr>) rest
      else if key = ''--clock-topic''
      then parse_clock_arguments (opts\<lparr>opt_topic := val\<rparr>) rest
      else if key = ''--timeout-seconds''
      then (if val = [] \<or> \<not> list_all is_digit val
            then stdError ''timeout must be integer seconds''
            else bindE (stoul_digits val) (\<lambda>parsed.
                 if parsed < 1 \<or> parsed > 86400
                 then stdError ''timeout must be 1..86400 seconds''
                 else parse_clock_arguments (opts\<lparr>opt_timeout := parsed\<rparr>) rest))
      else stdError (''unknown or repeated option: '' @ key))"

definition default_clock_options :: clock_options where
  "default_clock_options = \<lparr>opt_target = [], opt_topic = ''/clock'', opt_timeout = 300\<rparr>"

text \<open>
  Everything before \<^verbatim>\<open>ros::init\<close>. The name check of roscpp is a parameter.
\<close>

definition clock_setup ::
  "(string \<Rightarrow> bool) \<Rightarrow> string list \<Rightarrow> (clock_options \<times> clock_wait) result" where
  "clock_setup names_validate arguments =
     bindE (parse_clock_arguments default_clock_options arguments) (\<lambda>opts.
       if opt_topic opts = [] \<or> hd (opt_topic opts) \<noteq> CHR ''/'' \<or>
          \<not> names_validate (opt_topic opts)
       then stdError ''clock topic must be an absolute ROS name''
       else bindE (ClockWait (opt_target opts)) (\<lambda>w. Inr (opts, w)))"

section \<open>The polling loop\<close>

text \<open>
  The state the callback and the loop share. An empty \<^verbatim>\<open>failure\<close> string is
  \<^term>\<open>None\<close>: every message stored there is non-empty.
\<close>

record clock_loop =
  wait :: clock_wait
  reached :: bool
  failure :: "string option"
  stamp_sec :: "32 word"
  stamp_nsec :: "32 word"

text \<open>One delivered clock message, with the steady clock as the callback reads it.\<close>

record clock_message =
  at_ns :: int
  msg_sec :: "32 word"
  msg_nsec :: "32 word"

definition clock_callback :: "int \<Rightarrow> clock_loop \<Rightarrow> clock_message \<Rightarrow> clock_loop" where
  "clock_callback deadline l m =
     (if reached l \<or> failure l \<noteq> None then l
      else if at_ns m \<ge> deadline then l\<lparr>failure := Some ''simulation wait timed out''\<rparr>
      else case observe (wait l) (msg_sec m) (msg_nsec m) of
             (Inl e, w) \<Rightarrow> l\<lparr>wait := w, failure := Some (exn_what e)\<rparr>
           | (Inr r, w) \<Rightarrow>
               l\<lparr>wait := w, reached := r, stamp_sec := msg_sec m, stamp_nsec := msg_nsec m\<rparr>)"

text \<open>
  What one iteration of the loop reads from outside, in order: the stop flag and
  \<^verbatim>\<open>ros::ok\<close> at the loop test, the number of publishers, the two flags again, the
  steady clock, and the messages the callback queue delivers. Where the loop test fails,
  the statements after the loop read the flag and the number of publishers again.
\<close>

record clock_poll =
  poll_stop :: bool
  poll_ok :: bool
  poll_publishers :: nat
  poll_stop2 :: bool
  poll_ok2 :: bool
  poll_now :: int
  poll_messages :: "clock_message list"

datatype process_exit = Exit (exit_code: int) (exit_stdout: string) (exit_stderr: string)

definition pad_left :: "nat \<Rightarrow> string \<Rightarrow> string" where
  "pad_left n s = replicate (n - length s) CHR ''0'' @ s"

text \<open>The text after \<^verbatim>\<open>reachedSeconds\<close>: seconds, a point, nine digits of nanoseconds.\<close>

definition reached_seconds :: "32 word \<Rightarrow> 32 word \<Rightarrow> string" where
  "reached_seconds sec nsec =
     nat_to_string (unat sec) @ ''.'' @ pad_left 9 (nat_to_string (unat nsec))"

definition clock_report :: "clock_loop \<Rightarrow> string" where
  "clock_report l =
     ''{\"clock\":{\"sec\":'' @ nat_to_string (unat (stamp_sec l)) @
     '',\"nsec\":'' @ nat_to_string (unat (stamp_nsec l)) @
     ''},\"reachedSeconds\":'' @ reached_seconds (stamp_sec l) (stamp_nsec l) @ ''}\<newline>''"

definition clock_failed :: "string \<Rightarrow> process_exit" where
  "clock_failed what = Exit 1 [] (what @ ''\<newline>'')"

definition clock_finish :: "clock_loop \<Rightarrow> clock_poll \<Rightarrow> process_exit" where
  "clock_finish l p =
     (if poll_stop2 p then Exit 130 [] []
      else case failure l of
             Some what \<Rightarrow> clock_failed what
           | None \<Rightarrow>
               if \<not> reached l then Exit 130 [] []
               else if poll_publishers p > 1
               then clock_failed ''clock must have exactly one publisher''
               else Exit 0 (clock_report l) [])"

text \<open>
  The loop over the readings of its iterations; \<^term>\<open>None\<close> means that it is still
  polling when they end.
\<close>

fun clock_wait_loop :: "int \<Rightarrow> clock_loop \<Rightarrow> clock_poll list \<Rightarrow> process_exit option" where
  "clock_wait_loop deadline l [] = None"
| "clock_wait_loop deadline l (p # ps) =
     (if poll_stop p \<or> \<not> poll_ok p \<or> reached l \<or> failure l \<noteq> None
      then Some (clock_finish l p)
      else if poll_stop2 p \<or> \<not> poll_ok2 p then Some (Exit 130 [] [])
      else if poll_publishers p > 1
      then Some (clock_failed ''clock must have exactly one publisher'')
      else if observed (wait l) \<and> poll_publishers p = 0
      then Some (clock_failed ''clock publisher disconnected'')
      else if poll_now p \<ge> deadline then Some (clock_failed ''simulation wait timed out'')
      else clock_wait_loop deadline (foldl (clock_callback deadline) l (poll_messages p)) ps)"

definition clock_loop_start :: "clock_wait \<Rightarrow> clock_loop" where
  "clock_loop_start w =
     \<lparr>wait = w, reached = False, failure = None, stamp_sec = 0, stamp_nsec = 0\<rparr>"

definition clock_wait_main ::
  "(string \<Rightarrow> bool) \<Rightarrow> string list \<Rightarrow> int \<Rightarrow> clock_poll list \<Rightarrow> process_exit option" where
  "clock_wait_main names_validate arguments start_ns polls =
     (case clock_setup names_validate arguments of
        Inl e \<Rightarrow> Some (clock_failed (exn_what e))
      | Inr (opts, w) \<Rightarrow>
          clock_wait_loop (start_ns + int (opt_timeout opts) * 1000000000)
            (clock_loop_start w) polls)"

section \<open>What a decimal target means\<close>

text \<open>
  The reference: a target is a digit string with an optional point and non-empty fraction,
  and its value is an exact rational number of seconds.
\<close>

definition decimal_syntax :: "string \<Rightarrow> bool" where
  "decimal_syntax text \<longleftrightarrow>
     (case find_char CHR ''.'' text of
        None \<Rightarrow> text \<noteq> [] \<and> list_all is_digit text
      | Some p \<Rightarrow> take p text \<noteq> [] \<and> list_all is_digit (take p text) \<and>
                  drop (Suc p) text \<noteq> [] \<and> list_all is_digit (drop (Suc p) text))"

definition fraction_value :: "string \<Rightarrow> rat" where
  "fraction_value s = of_nat (digits_val s) / 10 ^ length s"

definition decimal_seconds :: "string \<Rightarrow> rat" where
  "decimal_seconds text =
     (case find_char CHR ''.'' text of
        None \<Rightarrow> of_nat (digits_val text)
      | Some p \<Rightarrow> of_nat (digits_val (take p text)) + fraction_value (drop (Suc p) text))"

section \<open>Lemmas on the loops of clockTarget\<close>

lemma unat_push_digit:
  fixes s :: "64 word"
  assumes "unat s * 10 + d < 2 ^ 64"
  shows "unat (s * 10 + of_nat d) = unat s * 10 + d"
proof -
  have "s * 10 + of_nat d = of_nat (unat s * 10 + d)" by simp
  then show ?thesis using assms by (simp only: unat_of_nat) simp
qed

lemma unat_UINT32_MAX [simp]: "unat UINT32_MAX = 4294967295"
  by (simp add: UINT32_MAX_def)

lemma UINT32_MAX_div [simp]: "UINT32_MAX div 10 = 429496729"
  by (simp add: UINT32_MAX_def)

lemma clockTarget_whole_iff:
  "unat s \<le> 4294967295 \<Longrightarrow>
   clockTarget_whole s ds = Inr t \<longleftrightarrow>
     list_all is_digit ds \<and> unat s * 10 ^ length ds + digits_val ds \<le> 4294967295 \<and>
     unat t = unat s * 10 ^ length ds + digits_val ds"
proof (induction ds arbitrary: s)
  case Nil
  then show ?case by (auto simp: word_unat_eq_iff)
next
  case (Cons d ds)
  let ?v = "unat s * 10 + digit_val d"
  have val: "unat s * 10 ^ length (d # ds) + digits_val (d # ds) =
      ?v * 10 ^ length ds + digits_val ds"
    by (simp add: digits_val_Cons algebra_simps)
  have big: "4294967295 < ?v \<Longrightarrow> \<not> ?v * 10 ^ length ds + digits_val ds \<le> 4294967295"
  proof -
    assume "4294967295 < ?v"
    also have "?v \<le> ?v * 10 ^ length ds" by simp
    finally show ?thesis by simp
  qed
  show ?case
  proof (cases "is_digit d")
    case False
    then show ?thesis by (simp add: error_defs)
  next
    case True
    then have d: "digit_val d < 10" by simp
    show ?thesis
    proof (cases "unat s \<le> 429496729")
      case False
      then have "s > UINT32_MAX div 10" by (simp add: word_less_nat_alt)
      moreover have "4294967295 < ?v" using False by simp
      ultimately show ?thesis using big val by (simp add: error_defs)
    next
      case small: True
      then have "\<not> s > UINT32_MAX div 10" by (simp add: word_less_nat_alt)
      moreover have v: "unat (s * 10 + of_nat (digit_val d)) = ?v"
        using small d by (intro unat_push_digit) simp
      ultimately have step: "clockTarget_whole s (d # ds) =
          (if ?v > 4294967295 then stdError ''target is outside ROS time''
           else clockTarget_whole (s * 10 + of_nat (digit_val d)) ds)"
        using True by (simp add: Let_def word_less_nat_alt)
      show ?thesis
      proof (cases "?v > 4294967295")
        case True
        then show ?thesis using big val step by (simp add: error_defs)
      next
        case False
        then have "unat (s * 10 + of_nat (digit_val d)) \<le> 4294967295" by (simp add: v)
        from Cons.IH [OF this] show ?thesis using False True step val by (simp add: v)
      qed
    qed
  qed
qed

lemma fraction_rest_flag:
  "9 \<le> i \<Longrightarrow> clockTarget_fraction i n r ds = Inr (n', r') \<longleftrightarrow>
     list_all is_digit ds \<and> n' = n \<and> r' = (r \<or> (\<exists>c \<in> set ds. c \<noteq> CHR ''0''))"
  by (induction ds arbitrary: i r) (auto simp: error_defs)

lemma fraction_first_nine:
  "i \<le> 9 \<Longrightarrow> unat n < 10 ^ i \<Longrightarrow>
   clockTarget_fraction i n r ds = Inr (n', r') \<longleftrightarrow>
     list_all is_digit ds \<and>
     unat n' = unat n * 10 ^ min (9 - i) (length ds) + digits_val (take (9 - i) ds) \<and>
     r' = (r \<or> (\<exists>c \<in> set (drop (9 - i) ds). c \<noteq> CHR ''0''))"
proof (induction ds arbitrary: i n)
  case Nil
  then show ?case by (auto simp: word_unat_eq_iff)
next
  case (Cons d ds)
  show ?case
  proof (cases "i < 9")
    case False
    with Cons.prems have "i = 9" by simp
    then show ?thesis by (auto simp: fraction_rest_flag error_defs word_unat_eq_iff)
  next
    case True
    then obtain k where k: "9 - i = Suc k" "8 - i = k" by (cases "9 - i") auto
    show ?thesis
    proof (cases "is_digit d")
      case False
      then show ?thesis by (simp add: error_defs)
    next
      case dig: True
      have "(10::nat) ^ i \<le> 10 ^ 8" using True by (intro power_increasing) auto
      then have bound: "unat n * 10 + digit_val d < 2 ^ 64"
        using Cons.prems(2) digit_val_less [OF dig] by simp
      have v: "unat (n * 10 + of_nat (digit_val d)) = unat n * 10 + digit_val d"
        using bound by (rule unat_push_digit)
      have "unat (n * 10 + of_nat (digit_val d)) < 10 ^ Suc i"
        using Cons.prems(2) digit_val_less [OF dig] by (simp add: v)
      note IH = Cons.IH [OF _ this]
      have "unat n * 10 ^ min (9 - i) (length (d # ds)) + digits_val (take (9 - i) (d # ds)) =
          (unat n * 10 + digit_val d) * 10 ^ min k (length ds) + digits_val (take k ds)"
        by (simp add: k digits_val_Cons min.commute algebra_simps)
      with IH True dig show ?thesis by (simp add: k v)
    qed
  qed
qed

lemma unat_clockTarget_pad:
  "unat n < 10 ^ i \<Longrightarrow> unat (clockTarget_pad i n) = unat n * 10 ^ (9 - i)"
proof (induction i n rule: clockTarget_pad.induct)
  case (1 i n)
  show ?case
  proof (cases "i < 9")
    case False
    then show ?thesis by (simp add: clockTarget_pad.simps [of i n])
  next
    case True
    have "(10::nat) ^ i \<le> 10 ^ 8" using True by (intro power_increasing) auto
    then have "unat (n * 10) = unat n * 10"
      using unat_push_digit [of n 0] "1.prems" by simp
    with 1 True have "unat (clockTarget_pad (Suc i) (n * 10)) = unat n * 10 * 10 ^ (8 - i)"
      by simp
    also have "\<dots> = unat n * 10 ^ Suc (8 - i)" by simp
    also have "Suc (8 - i) = 9 - i" using True by simp
    finally show ?thesis using True by (simp add: clockTarget_pad.simps [of i n])
  qed
qed

lemma fraction_value_bounds:
  "list_all is_digit f \<Longrightarrow> 0 \<le> fraction_value f \<and> fraction_value f < 1"
proof -
  assume "list_all is_digit f"
  then have "of_nat (digits_val f) < (of_nat (10 ^ length f) :: rat)"
    using digits_val_less by (simp only: of_nat_less_iff)
  then show ?thesis by (simp add: fraction_value_def)
qed

lemma short_fraction_ceiling:
  "length f \<le> 9 \<Longrightarrow> \<lceil>fraction_value f * 1000000000\<rceil> = int (digits_val f * 10 ^ (9 - length f))"
proof -
  assume "length f \<le> 9"
  then have "(1000000000::rat) = 10 ^ length f * 10 ^ (9 - length f)"
    by (simp only: power_add [symmetric]) simp
  then have "fraction_value f * 1000000000 = of_int (int (digits_val f * 10 ^ (9 - length f)))"
    by (simp only: fraction_value_def) (simp add: field_simps)
  then show ?thesis by (simp only: ceiling_of_int)
qed

lemma long_fraction_ceiling:
  assumes "9 < length f" and "list_all is_digit f"
  shows "\<lceil>fraction_value f * 1000000000\<rceil> =
    int (digits_val (take 9 f)) + (if \<exists>c \<in> set (drop 9 f). c \<noteq> CHR ''0'' then 1 else 0)"
proof -
  let ?R = "drop 9 f" and ?T = "take 9 f"
  have f: "f = ?T @ ?R" by simp
  have dig: "list_all is_digit ?R" using assms(2) by (auto simp: list_all_iff dest: in_set_dropD)
  have len: "length ?R = length f - 9" "length f = 9 + length ?R" using assms(1) by auto
  have D: "digits_val f = digits_val ?T * 10 ^ length ?R + digits_val ?R"
    by (subst f) (rule digits_val_append)
  have "fraction_value f * 1000000000 = of_nat (digits_val f) / 10 ^ length ?R"
    by (simp only: fraction_value_def len(2)) (simp add: power_add)
  also have "\<dots> = fraction_value ?R + of_int (int (digits_val ?T))"
    by (simp only: D) (simp add: fraction_value_def add_divide_distrib)
  finally have "\<lceil>fraction_value f * 1000000000\<rceil> = \<lceil>fraction_value ?R\<rceil> + int (digits_val ?T)"
    by (simp only: ceiling_add_of_int)
  moreover have "\<lceil>fraction_value ?R\<rceil> = (if digits_val ?R = 0 then 0 else 1)"
    using fraction_value_bounds [OF dig] by (auto simp: fraction_value_def ceiling_eq_iff)
  ultimately show ?thesis using digits_val_eq_0 [OF dig] by auto
qed

lemma clockTarget_nanos_iff:
  "clockTarget_nanos f = Inr n \<longleftrightarrow>
     f \<noteq> [] \<and> list_all is_digit f \<and> uint n = \<lceil>fraction_value f * 1000000000\<rceil>"
proof (cases "f \<noteq> [] \<and> list_all is_digit f")
  case False
  then show ?thesis
    using fraction_first_nine [of 0 0 False f] by (auto simp: clockTarget_nanos_def error_defs result_simps)
next
  case True
  define r where "r = (\<exists>c \<in> set (drop 9 f). c \<noteq> CHR ''0'')"
  define v where "v = digits_val (take 9 f)"
  have dig: "list_all is_digit (take 9 f)"
    using True by (auto simp: list_all_iff dest: in_set_takeD)
  have v: "v < 10 ^ length (take 9 f)" unfolding v_def using dig by (rule digits_val_less)
  have "(10::nat) ^ length (take 9 f) \<le> 10 ^ 9" by (rule power_increasing) auto
  then have v9: "v < 10 ^ 9" using v by linarith
  have un: "unat (of_nat v :: 64 word) = v" using v9 by (simp add: unat_of_nat)
  have frac: "clockTarget_fraction 0 0 False f = Inr (of_nat v, r)"
    using True fraction_first_nine [of 0 0 False f "of_nat v" r] un by (simp add: r_def v_def)
  have "v < 10 ^ length f"
    using v by (rule less_le_trans) (simp add: power_increasing)
  then have pad: "unat (clockTarget_pad (length f) (of_nat v)) = v * 10 ^ (9 - length f)"
    using unat_clockTarget_pad [of "of_nat v" "length f"] un by simp
  have "v * 10 ^ (9 - length f) < 10 ^ 9"
  proof (cases "length f \<le> 9")
    case True
    then have "v * 10 ^ (9 - length f) < 10 ^ length f * 10 ^ (9 - length f)"
      using v by simp
    then show ?thesis using True by (simp only: power_add [symmetric]) simp
  next
    case False
    then show ?thesis using v9 by simp
  qed
  then have "unat (clockTarget_pad (length f) (of_nat v) + (if r then 1 else 0)) =
      v * 10 ^ (9 - length f) + (if r then 1 else 0)"
    by (cases r) (simp_all add: unat_word_ariths pad)
  then have "uint (clockTarget_pad (length f) (of_nat v) + (if r then 1 else 0)) =
      int (v * 10 ^ (9 - length f)) + (if r then 1 else 0)"
    by (simp only: uint_nat) simp
  also have "\<dots> = \<lceil>fraction_value f * 1000000000\<rceil>"
  proof (cases "length f \<le> 9")
    case True
    then show ?thesis by (simp add: short_fraction_ceiling v_def r_def)
  next
    case False
    then show ?thesis using long_fraction_ceiling [of f] \<open>f \<noteq> [] \<and> list_all is_digit f\<close>
      by (simp add: v_def r_def)
  qed
  finally have "uint n = \<lceil>fraction_value f * 1000000000\<rceil> \<longleftrightarrow>
      n = clockTarget_pad (length f) (of_nat v) + (if r then 1 else 0)"
    by (simp only: word_uint_eq_iff)
  moreover have "clockTarget_nanos f =
      Inr (clockTarget_pad (length f) (of_nat v) + (if r then 1 else 0))"
    using True frac by (simp add: clockTarget_nanos_def)
  ultimately show ?thesis using True by (simp only: sum.inject) blast
qed

lemma clockTarget_nanos_complete:
  assumes "f \<noteq> []" and "list_all is_digit f"
  shows "\<exists>n. clockTarget_nanos f = Inr n"
proof -
  have "0 \<le> \<lceil>fraction_value f * 1000000000\<rceil>" and "\<lceil>fraction_value f * 1000000000\<rceil> \<le> 1000000000"
    using fraction_value_bounds [OF assms(2)] by (auto simp: ceiling_le_iff zero_le_ceiling)
  then have "uint (word_of_int \<lceil>fraction_value f * 1000000000\<rceil> :: 64 word) =
      \<lceil>fraction_value f * 1000000000\<rceil>"
    by (simp add: uint_word_of_int)
  then show ?thesis using assms clockTarget_nanos_iff by blast
qed

lemma clockTarget_assemble:
  fixes s :: "64 word" and x :: rat
  assumes s: "unat s \<le> 4294967295" and x: "0 \<le> x" "x < 1"
    and n: "uint n = \<lceil>x * 1000000000\<rceil>"
  shows "(if s = UINT32_MAX \<and> n \<noteq> 0 then stdError m else Inr (s * 1000000000 + n)) = Inr t \<longleftrightarrow>
     of_nat (unat s) + x \<le> 4294967295 \<and>
     uint t = \<lceil>(of_nat (unat s) + x) * 1000000000\<rceil>"
proof -
  have "\<lceil>x * 1000000000\<rceil> \<le> 1000000000" using x by (simp add: ceiling_le_iff)
  then have n_le: "unat n \<le> 1000000000" using n uint_nat [of n] by linarith
  have zero: "n = 0 \<longleftrightarrow> x = 0"
  proof -
    have "n = 0 \<longleftrightarrow> \<lceil>x * 1000000000\<rceil> \<le> 0" 
      using n [symmetric] uint_ge_0 [of n] by (auto simp: word_uint_eq_iff)
    also have "\<dots> \<longleftrightarrow> x = 0" using x(1) by (auto simp: ceiling_le_iff)
    finally show ?thesis .
  qed
  have "s * 1000000000 + n = of_nat (unat s * 1000000000 + unat n)" by simp
  then have sum: "unat (s * 1000000000 + n) = unat s * 1000000000 + unat n"
    using s n_le by (simp only: unat_of_nat) simp
  have "(of_nat (unat s) + x) * 1000000000 =
      x * 1000000000 + of_int (int (unat s * 1000000000))"
    by (simp add: algebra_simps)
  then have ceil: "\<lceil>(of_nat (unat s) + x) * 1000000000\<rceil> =
      uint (s * 1000000000 + n)"
    by (simp only: ceiling_add_of_int uint_nat sum) (simp add: n [symmetric] uint_nat [of n] del: of_nat_unat)
  have bad: "(s = UINT32_MAX \<and> n \<noteq> 0) \<longleftrightarrow> \<not> of_nat (unat s) + x \<le> (4294967295 :: rat)"
  proof (cases "unat s = 4294967295")
    case True
    then have "s = UINT32_MAX" by (simp add: word_unat_eq_iff)
    with True zero x show ?thesis by auto
  next
    case False
    with s have "unat s + 1 \<le> 4294967295" by simp
    then have "of_nat (unat s + 1) \<le> (of_nat 4294967295 :: rat)" by (simp only: of_nat_le_iff)
    then have "of_nat (unat s) + x \<le> (4294967295 :: rat)" using x by simp
    moreover have "s \<noteq> UINT32_MAX" using False by auto
    ultimately show ?thesis by simp
  qed
  show ?thesis using bad ceil by (auto simp: error_defs word_uint_eq_iff)
qed

lemma clockTarget_sum:
  assumes x: "0 \<le> x" "x < 1" and n: "uint n = \<lceil>x * 1000000000\<rceil>"
  shows "bindE (clockTarget_whole 0 w) (\<lambda>s.
      if s = UINT32_MAX \<and> n \<noteq> 0 then stdError m else Inr (s * 1000000000 + n)) = Inr t \<longleftrightarrow>
    list_all is_digit w \<and> of_nat (digits_val w) + x \<le> (4294967295 :: rat) \<and>
    uint t = \<lceil>(of_nat (digits_val w) + x) * 1000000000\<rceil>"
proof (cases "clockTarget_whole 0 w")
  case (Inl e)
  have "\<not> (list_all is_digit w \<and> of_nat (digits_val w) \<le> (of_nat 4294967295 :: rat))"
    using clockTarget_whole_iff [of 0 w "of_nat (digits_val w)"] Inl
    by (auto simp: unat_of_nat of_nat_le_iff simp del: of_nat_numeral)
  then show ?thesis using x Inl by auto
next
  case (Inr s)
  then have "list_all is_digit w" "unat s \<le> 4294967295" "digits_val w = unat s"
    using clockTarget_whole_iff [of 0 w s] by auto
  then show ?thesis using clockTarget_assemble [OF _ x n, of s m t] Inr by simp
qed

lemma clockTarget_guard:
  "(m = Inr t \<longleftrightarrow> d \<and> v \<and> u) \<Longrightarrow>
   (if w = [] \<or> 128 < length l then stdError what else m) = Inr t \<longleftrightarrow>
     length l \<le> 128 \<and> (w \<noteq> [] \<and> d) \<and> v \<and> u"
  by (auto simp: stdError_def)

lemma clockTarget_iff:
  "clockTarget text = Inr t \<longleftrightarrow>
     length text \<le> 128 \<and> decimal_syntax text \<and> decimal_seconds text \<le> 4294967295 \<and>
     uint t = \<lceil>decimal_seconds text * 1000000000\<rceil>"
proof (cases "find_char CHR ''.'' text")
  case None
  have unf: "clockTarget text = (if text = [] \<or> 128 < length text
      then stdError ''target must be bounded nonnegative decimal seconds''
      else bindE (clockTarget_whole 0 text) (\<lambda>s.
        if s = UINT32_MAX \<and> (0 :: 64 word) \<noteq> 0 then stdError ''target is outside ROS time''
        else Inr (s * 1000000000 + 0)))"
    unfolding clockTarget_def by (simp add: None)
  have syn: "decimal_syntax text \<longleftrightarrow> text \<noteq> [] \<and> list_all is_digit text"
    by (simp add: decimal_syntax_def None)
  have val: "decimal_seconds text = of_nat (digits_val text) + 0"
    by (simp add: decimal_seconds_def None)
  have "uint (0 :: 64 word) = \<lceil>(0 :: rat) * 1000000000\<rceil>" by simp
  from clockTarget_sum [OF _ _ this, of "text" "''target is outside ROS time''" t] show ?thesis
    unfolding unf syn val by (intro clockTarget_guard) simp_all
next
  case (Some p)
  let ?w = "take p text" and ?f = "drop (Suc p) text"
  have unf: "clockTarget text = (if ?w = [] \<or> 128 < length text
      then stdError ''target must be bounded nonnegative decimal seconds''
      else bindE (clockTarget_whole 0 ?w) (\<lambda>s. bindE (clockTarget_nanos ?f) (\<lambda>n.
        if s = UINT32_MAX \<and> n \<noteq> 0 then stdError ''target is outside ROS time''
        else Inr (s * 1000000000 + n))))"
    unfolding clockTarget_def by (simp add: Some)
  show ?thesis
  proof (cases "clockTarget_nanos ?f")
    case (Inl e)
    then have "\<not> (?f \<noteq> [] \<and> list_all is_digit ?f)"
      using clockTarget_nanos_complete [of ?f] by (auto simp only: sum.distinct)
    with Some have "\<not> decimal_syntax text" by (simp add: decimal_syntax_def)
    moreover have "clockTarget text \<noteq> Inr t"
      unfolding unf Inl by (auto simp: stdError_def result_simps)
    ultimately show ?thesis by simp
  next
    case (Inr n)
    then have f: "?f \<noteq> []" "list_all is_digit ?f"
      and n: "uint n = \<lceil>fraction_value ?f * 1000000000\<rceil>"
      by (simp_all add: clockTarget_nanos_iff)
    have syn: "decimal_syntax text \<longleftrightarrow> ?w \<noteq> [] \<and> list_all is_digit ?w"
      using Some f by (simp add: decimal_syntax_def)
    have val: "decimal_seconds text = of_nat (digits_val ?w) + fraction_value ?f"
      by (simp add: decimal_seconds_def Some)
    show ?thesis
      using clockTarget_sum [OF _ _ n, of ?w "''target is outside ROS time''" t]
        fraction_value_bounds [OF f(2)]
      unfolding unf Inr syn val bindE_Inr by (intro clockTarget_guard) blast
  qed
qed

text \<open>
  C34. \<^verbatim>\<open>clockTarget\<close> accepts exactly the decimal strings of at most 128 characters
  whose value is at most 4294967295 seconds, and returns the least whole number of
  nanoseconds that is not below that value: the threshold is rounded up, exactly, with no
  binary floating point and no wrap-around of the 64-bit sum.
\<close>

theorem clockTarget_exact:
  "clockTarget text = Inr t \<longleftrightarrow>
     length text \<le> 128 \<and> decimal_syntax text \<and> decimal_seconds text \<le> 4294967295 \<and>
     uint t = \<lceil>decimal_seconds text * 1000000000\<rceil>"
  by (rule clockTarget_iff)

section \<open>Observations\<close>

lemma unat_clock_stamp: "unat (clock_stamp sec nsec) = unat sec * 1000000000 + unat nsec"
proof -
  have "unat sec * 1000000000 + unat nsec < 2 ^ 64"
    using unat32_less [of sec] unat32_less [of nsec] by simp
  moreover have "clock_stamp sec nsec = of_nat (unat sec * 1000000000 + unat nsec)"
    by (simp add: clock_stamp_def)
  ultimately show ?thesis by (simp only: unat_of_nat) simp
qed

lemma decimal_point_text:
  assumes "list_all is_digit w"
  shows "find_char CHR ''.'' (w @ ''.'' @ f) = Some (length w)"
proof -
  have "CHR ''.'' \<notin> set w" using assms by (auto simp: list_all_iff)
  then show ?thesis using find_char_append [of "CHR ''.''" w f] by simp
qed

lemma pad_left_digits: "list_all is_digit s \<Longrightarrow> list_all is_digit (pad_left n s)"
  by (auto simp: pad_left_def list_all_iff is_digit_def)

lemma pad_left_length: "length s \<le> n \<Longrightarrow> length (pad_left n s) = n"
  by (simp add: pad_left_def)

lemma digits_val_pad_left: "digits_val (pad_left n s) = digits_val s"
proof -
  have "digits_val (replicate k CHR ''0'') = 0" for k
    by (induction k) (simp_all add: digits_val_Cons digit_val_def)
  then show ?thesis by (simp add: pad_left_def digits_val_append)
qed

lemma nat_to_string_length:
  "n < 10 ^ Suc k \<Longrightarrow> length (nat_to_string n) \<le> Suc k"
proof (induction k arbitrary: n)
  case 0
  then show ?case by (subst nat_to_string.simps) simp
next
  case (Suc k)
  show ?case
  proof (cases "n < 10")
    case True
    then show ?thesis by (subst nat_to_string.simps) simp
  next
    case False
    have "n div 10 < 10 ^ Suc k" using Suc.prems by (simp add: less_mult_imp_div_less)
    then show ?thesis using Suc.IH [of "n div 10"] False
      by (subst nat_to_string.simps) simp
  qed
qed

text \<open>
  C38. The reached time that the tool prints is read back by \<^verbatim>\<open>clockTarget\<close> as exactly
  the nanosecond stamp it was printed from, for every stamp that is a representable target.
\<close>

theorem reached_seconds_roundtrip:
  assumes "nsec < 1000000000" and "sec \<noteq> 4294967295 \<or> nsec = 0"
  shows "clockTarget (reached_seconds sec nsec) = Inr (clock_stamp sec nsec)"
proof -
  let ?w = "nat_to_string (unat sec)" and ?f = "pad_left 9 (nat_to_string (unat nsec))"
  let ?x = "of_nat (unat sec) + of_nat (unat nsec) / 1000000000 :: rat"
  have n: "unat nsec < 1000000000" using assms(1) by (simp add: word_less_nat_alt)
  have s: "unat sec \<le> 4294967295" using unat32_less [of sec] by simp
  have fl: "length ?f = 9"
    using nat_to_string_length [of "unat nsec" 8] n by (intro pad_left_length) simp
  have wl: "length ?w \<le> 10" using nat_to_string_length [of "unat sec" 9] s by simp
  have find: "find_char CHR ''.'' (reached_seconds sec nsec) = Some (length ?w)"
    unfolding reached_seconds_def by (rule decimal_point_text) simp
  have parts: "take (length ?w) (reached_seconds sec nsec) = ?w"
      "drop (Suc (length ?w)) (reached_seconds sec nsec) = ?f"
    by (simp_all add: reached_seconds_def)
  have "fraction_value ?f = of_nat (unat nsec) / 1000000000"
    by (simp add: fraction_value_def fl digits_val_pad_left)
  then have val: "decimal_seconds (reached_seconds sec nsec) = ?x"
    by (simp add: decimal_seconds_def find parts)
  have syn: "decimal_syntax (reached_seconds sec nsec)"
    using fl pad_left_digits [of "nat_to_string (unat nsec)" 9]
    by (auto simp: decimal_syntax_def find parts)
  have le: "?x \<le> 4294967295"
  proof (cases "unat sec = 4294967295")
    case True
    then have "sec = 4294967295" by (simp add: word_unat_eq_iff)
    with assms(2) True show ?thesis by simp
  next
    case False
    with s have "of_nat (unat sec + 1) \<le> (of_nat 4294967295 :: rat)" by (simp only: of_nat_le_iff)
    moreover have "of_nat (unat nsec) < (of_nat 1000000000 :: rat)"
      using n by (simp only: of_nat_less_iff)
    ultimately show ?thesis by simp
  qed
  have "?x * 1000000000 = of_int (uint (clock_stamp sec nsec))"
    by (simp only: uint_nat unat_clock_stamp) (simp add: field_simps)
  then have ceil: "uint (clock_stamp sec nsec) = \<lceil>?x * 1000000000\<rceil>"
    by (simp only: ceiling_of_int)
  have "length (reached_seconds sec nsec) \<le> 128"
    using fl wl by (simp add: reached_seconds_def)
  then show ?thesis using syn le ceil by (simp only: clockTarget_iff val)
qed

theorem reached_seconds_roundtrip_witness:
  "clockTarget (reached_seconds 12 300000000) = Inr (clock_stamp 12 300000000) \<and>
   reached_seconds 12 300000000 = ''12.300000000''"
proof
  show "clockTarget (reached_seconds 12 300000000) = Inr (clock_stamp 12 300000000)"
    by (rule reached_seconds_roundtrip) simp_all
  show "reached_seconds 12 300000000 = ''12.300000000''"
    by (simp add: reached_seconds_def pad_left_def nat_to_string.simps)
qed

text \<open>Feeding stamps one after the other, stopping at the first exception.\<close>

fun observe_all :: "clock_wait \<Rightarrow> (32 word \<times> 32 word) list \<Rightarrow> bool list result" where
  "observe_all w [] = Inr []"
| "observe_all w ((sec, nsec) # rest) =
     (case observe w sec nsec of
        (Inl e, w') \<Rightarrow> Inl e
      | (Inr r, w') \<Rightarrow> bindE (observe_all w' rest) (\<lambda>rs. Inr (r # rs)))"

lemma observe_Inr:
  "observe w sec nsec = (Inr r, w') \<longleftrightarrow>
     nsec < 1000000000 \<and> (observed w \<longrightarrow> previous w \<le> clock_stamp sec nsec) \<and>
     r = (target w \<le> clock_stamp sec nsec) \<and>
     w' = w\<lparr>previous := clock_stamp sec nsec, observed := True\<rparr>"
  by (auto simp: observe_def Let_def error_defs not_le not_less)

lemma observe_Inl:
  "observe w sec nsec = (Inl e, w') \<Longrightarrow> w' = w \<and> (\<exists>what. e = StdException what)"
  by (auto simp: observe_def Let_def error_defs split: if_splits)

lemma observe_all_Cons:
  "observe_all w ((sec, nsec) # ms) =
     (if nsec \<ge> 1000000000 then stdError ''invalid clock nanoseconds''
      else if observed w \<and> clock_stamp sec nsec < previous w
      then stdError ''simulation clock moved backwards''
      else bindE (observe_all (w\<lparr>previous := clock_stamp sec nsec, observed := True\<rparr>) ms)
             (\<lambda>rs. Inr ((target w \<le> clock_stamp sec nsec) # rs)))"
  by (simp add: observe_def Let_def error_defs)

declare observe_all.simps(2) [simp del]

lemma observe_all_after:
  "observed w \<Longrightarrow> observe_all w ms = Inr rs \<longleftrightarrow>
     (\<forall>m \<in> set ms. snd m < 1000000000) \<and>
     sorted (previous w # map (\<lambda>m. clock_stamp (fst m) (snd m)) ms) \<and>
     rs = map (\<lambda>m. target w \<le> clock_stamp (fst m) (snd m)) ms"
proof (induction ms arbitrary: w rs)
  case Nil
  then show ?case by auto
next
  case (Cons m ms)
  let ?w = "w\<lparr>previous := clock_stamp (fst m) (snd m), observed := True\<rparr>"
  have "observe_all w (m # ms) = Inr rs \<longleftrightarrow>
      snd m < 1000000000 \<and> previous w \<le> clock_stamp (fst m) (snd m) \<and>
      (\<exists>qs. observe_all ?w ms = Inr qs \<and>
        rs = (target w \<le> clock_stamp (fst m) (snd m)) # qs)"
    using Cons.prems by (cases m) (auto simp: observe_all_Cons result_simps error_defs)
  also have "\<dots> \<longleftrightarrow> snd m < 1000000000 \<and> previous w \<le> clock_stamp (fst m) (snd m) \<and>
      (\<forall>m \<in> set ms. snd m < 1000000000) \<and>
      sorted (clock_stamp (fst m) (snd m) # map (\<lambda>m. clock_stamp (fst m) (snd m)) ms) \<and>
      rs = map (\<lambda>m. target w \<le> clock_stamp (fst m) (snd m)) (m # ms)"
    using Cons.IH [of ?w] by auto
  also have "\<dots> \<longleftrightarrow> (\<forall>m \<in> set (m # ms). snd m < 1000000000) \<and>
      sorted (previous w # map (\<lambda>m. clock_stamp (fst m) (snd m)) (m # ms)) \<and>
      rs = map (\<lambda>m. target w \<le> clock_stamp (fst m) (snd m)) (m # ms)"
    by auto
  finally show ?case .
qed

text \<open>
  C37. A fresh \<^verbatim>\<open>ClockWait\<close> accepts a sequence of samples exactly when every sample has
  valid nanoseconds and the stamps never go backwards (a paused clock is accepted), and it
  then answers for each sample whether its stamp has reached the target.
\<close>

theorem observe_all_monotone:
  "ClockWait seconds = Inr w \<Longrightarrow>
   observe_all w ms = Inr rs \<longleftrightarrow>
     (\<forall>m \<in> set ms. snd m < 1000000000) \<and>
     sorted (map (\<lambda>m. unat (fst m) * 1000000000 + unat (snd m)) ms) \<and>
     rs = map (\<lambda>m. \<lceil>decimal_seconds seconds * 1000000000\<rceil> \<le>
                   int (unat (fst m) * 1000000000 + unat (snd m))) ms"
proof -
  assume "ClockWait seconds = Inr w"
  then have w: "\<not> observed w" and t: "uint (target w) = \<lceil>decimal_seconds seconds * 1000000000\<rceil>"
    by (auto simp: ClockWait_def result_simps clockTarget_iff)
  have le: "target w \<le> clock_stamp (fst m) (snd m) \<longleftrightarrow>
      \<lceil>decimal_seconds seconds * 1000000000\<rceil> \<le>
      int (unat (fst m) * 1000000000 + unat (snd m))" for m
    unfolding t [symmetric] unat_clock_stamp [symmetric] by (simp add: word_le_def)
  have srt: "sorted (map (\<lambda>m. clock_stamp (fst m) (snd m)) ms) \<longleftrightarrow>
      sorted (map (\<lambda>m. unat (fst m) * 1000000000 + unat (snd m)) ms)" for ms
    by (simp add: sorted_map word_le_nat_alt unat_clock_stamp)
  have fresh: "observe_all w ms = Inr rs \<longleftrightarrow>
     (\<forall>m \<in> set ms. snd m < 1000000000) \<and>
     sorted (map (\<lambda>m. clock_stamp (fst m) (snd m)) ms) \<and>
     rs = map (\<lambda>m. target w \<le> clock_stamp (fst m) (snd m)) ms"
  proof (cases ms)
    case Nil
    then show ?thesis by auto
  next
    case (Cons m qs)
    let ?w = "w\<lparr>previous := clock_stamp (fst m) (snd m), observed := True\<rparr>"
    show ?thesis using observe_all_after [of ?w qs] w
      unfolding Cons by (cases m) (auto simp: observe_all_Cons result_simps error_defs)
  qed
  show "?thesis" unfolding fresh srt le ..
qed

lemma decimal_12_3: "decimal_seconds ''12.3'' = 123 / 10"
  by (simp add: decimal_seconds_def fraction_value_def digits_val_def digit_val_def)

lemma clockTarget_12_3: "clockTarget ''12.3'' = Inr 12300000000"
  by (simp add: clockTarget_iff decimal_12_3 decimal_syntax_def is_digit_def)

theorem observe_all_monotone_witness:
  "\<exists>w. ClockWait ''12.3'' = Inr w \<and>
     observe_all w [(12, 0), (12, 0), (12, 299999999), (12, 300000000)] =
       Inr [False, False, False, True]"
proof -
  let ?w = "\<lparr>target = 12300000000, previous = 0, observed = False\<rparr>"
  have "ClockWait ''12.3'' = Inr ?w" by (simp add: ClockWait_def clockTarget_12_3)
  moreover from observe_all_monotone [OF this]
  have "observe_all ?w [(12, 0), (12, 0), (12, 299999999), (12, 300000000)] =
      Inr [False, False, False, True]"
    by (simp add: decimal_12_3)
  ultimately show ?thesis by blast
qed

section \<open>The polling loop\<close>

text \<open>
  What the loop keeps: the target never changes, and \<^term>\<open>reached\<close> is backed by a
  delivered message before the deadline.
\<close>

definition reaches :: "int \<Rightarrow> 64 word \<Rightarrow> clock_message \<Rightarrow> bool" where
  "reaches deadline t m \<longleftrightarrow>
     at_ns m < deadline \<and> msg_nsec m < 1000000000 \<and> t \<le> clock_stamp (msg_sec m) (msg_nsec m)"

definition clock_inv :: "int \<Rightarrow> 64 word \<Rightarrow> clock_message set \<Rightarrow> clock_loop \<Rightarrow> bool" where
  "clock_inv deadline t ms l \<longleftrightarrow>
     target (wait l) = t \<and>
     (reached l \<longrightarrow> (\<exists>m \<in> ms. reaches deadline t m \<and>
        stamp_sec l = msg_sec m \<and> stamp_nsec l = msg_nsec m))"

lemma clock_callback_inv:
  assumes "clock_inv deadline t ms l" and "m \<in> ms"
  shows "clock_inv deadline t ms (clock_callback deadline l m)"
proof (cases "observe (wait l) (msg_sec m) (msg_nsec m)")
  case (Pair res w)
  show ?thesis
  proof (cases res)
    case (Inl e)
    with Pair have "w = wait l" using observe_Inl by blast
    with Inl Pair assms show ?thesis by (auto simp: clock_callback_def clock_inv_def)
  next
    case (Inr r)
    with Pair have "msg_nsec m < 1000000000" "target w = target (wait l)"
        "r = (target (wait l) \<le> clock_stamp (msg_sec m) (msg_nsec m))"
      by (simp_all add: observe_Inr)
    with assms show ?thesis
      by (auto simp: clock_callback_def Pair Inr clock_inv_def reaches_def not_le
          intro!: bexI [of _ m])
  qed
qed

lemma clock_callbacks_inv:
  "clock_inv deadline t ms l \<Longrightarrow> set qs \<subseteq> ms \<Longrightarrow>
   clock_inv deadline t ms (foldl (clock_callback deadline) l qs)"
  by (induction qs arbitrary: l) (auto simp: clock_callback_inv)

lemma clock_wait_loop_success:
  assumes "clock_wait_loop deadline l polls = Some (Exit 0 out err)"
    and "clock_inv deadline t ms l" and "(\<Union>p \<in> set polls. set (poll_messages p)) \<subseteq> ms"
  shows "\<exists>m \<in> ms. reaches deadline t m \<and> err = [] \<and>
     (\<exists>l'. stamp_sec l' = msg_sec m \<and> stamp_nsec l' = msg_nsec m \<and> out = clock_report l')"
  using assms
proof (induction polls arbitrary: l)
  case Nil
  then show ?case by simp
next
  case (Cons p ps)
  let ?l = "foldl (clock_callback deadline) l (poll_messages p)"
  show ?case
  proof (cases "poll_stop p \<or> \<not> poll_ok p \<or> reached l \<or> failure l \<noteq> None")
    case True
    with Cons.prems(1) have "reached l" "out = clock_report l" "err = []"
      by (auto simp: clock_finish_def clock_failed_def split: if_splits option.splits)
    then show ?thesis using Cons.prems(2) by (auto simp: clock_inv_def)
  next
    case False
    then have "clock_wait_loop deadline ?l ps = Some (Exit 0 out err)"
      using Cons.prems(1) by (auto simp: clock_failed_def split: if_splits)
    moreover have "clock_inv deadline t ms ?l"
      using Cons.prems by (intro clock_callbacks_inv) auto
    ultimately show ?thesis using Cons.IH Cons.prems(3) by auto
  qed
qed

lemma clock_wait_loop_timeout:
  "p \<in> set polls \<Longrightarrow> deadline \<le> poll_now p \<Longrightarrow>
   \<exists>r. clock_wait_loop deadline l polls = Some r"
  by (induction polls arbitrary: l) auto

text \<open>
  C35. The tool succeeds only on evidence: exit code 0 means that a message was delivered
  before the wall-clock deadline, with valid nanoseconds, whose stamp is at least the
  requested decimal time, and the output reports exactly that message's stamp.
\<close>

theorem clock_wait_main_success:
  assumes "clock_wait_main nv arguments start_ns polls = Some (Exit 0 out err)"
  shows "\<exists>opts w m l. clock_setup nv arguments = Inr (opts, w) \<and>
     m \<in> (\<Union>p \<in> set polls. set (poll_messages p)) \<and>
     at_ns m < start_ns + int (opt_timeout opts) * 1000000000 \<and>
     decimal_seconds (opt_target opts) * 1000000000 \<le>
       of_nat (unat (msg_sec m) * 1000000000 + unat (msg_nsec m)) \<and>
     msg_nsec m < 1000000000 \<and>
     stamp_sec l = msg_sec m \<and> stamp_nsec l = msg_nsec m \<and> out = clock_report l \<and> err = []"
proof -
  let ?ms = "\<Union>p \<in> set polls. set (poll_messages p)"
  obtain opts w where su: "clock_setup nv arguments = Inr (opts, w)"
    using assms by (auto simp: clock_wait_main_def clock_failed_def split: sum.splits)
  let ?d = "start_ns + int (opt_timeout opts) * 1000000000"
  have loop: "clock_wait_loop ?d (clock_loop_start w) polls = Some (Exit 0 out err)"
    using assms su by (simp add: clock_wait_main_def)
  have "clock_inv ?d (target w) ?ms (clock_loop_start w)"
    by (simp add: clock_inv_def clock_loop_start_def)
  from clock_wait_loop_success [OF loop this subset_refl] obtain m l
    where m: "m \<in> ?ms" "reaches ?d (target w) m" "err = []"
      and l: "stamp_sec l = msg_sec m" "stamp_nsec l = msg_nsec m" "out = clock_report l"
    by blast
  have "clockTarget (opt_target opts) = Inr (target w)"
    using su by (auto simp: clock_setup_def ClockWait_def result_simps error_defs split: if_splits)
  then have "uint (target w) = \<lceil>decimal_seconds (opt_target opts) * 1000000000\<rceil>"
    by (simp add: clockTarget_iff)
  moreover have "uint (target w) \<le> int (unat (msg_sec m) * 1000000000 + unat (msg_nsec m))"
    using m(2) unfolding reaches_def unat_clock_stamp [symmetric] by (simp add: word_le_def)
  ultimately have "decimal_seconds (opt_target opts) * 1000000000 \<le>
      of_nat (unat (msg_sec m) * 1000000000 + unat (msg_nsec m))"
    by (simp only: ceiling_le_iff of_int_of_nat_eq)
  then show ?thesis using su m l unfolding reaches_def by blast
qed

definition example_polls :: "clock_poll list" where
  "example_polls =
     [\<lparr>poll_stop = False, poll_ok = True, poll_publishers = 1, poll_stop2 = False,
       poll_ok2 = True, poll_now = 0,
       poll_messages = [\<lparr>at_ns = 5, msg_sec = 12, msg_nsec = 0\<rparr>,
                        \<lparr>at_ns = 6, msg_sec = 12, msg_nsec = 300000000\<rparr>]\<rparr>,
      \<lparr>poll_stop = False, poll_ok = True, poll_publishers = 1, poll_stop2 = False,
       poll_ok2 = True, poll_now = 7, poll_messages = []\<rparr>]"

definition example_end :: clock_loop where
  "example_end =
     \<lparr>wait = \<lparr>target = 12300000000, previous = 12300000000, observed = True\<rparr>,
      reached = True, failure = None, stamp_sec = 12, stamp_nsec = 300000000\<rparr>"

lemma example_setup:
  "clock_setup (\<lambda>_. True) [''--target-seconds'', ''12.3''] =
     Inr (\<lparr>opt_target = ''12.3'', opt_topic = ''/clock'', opt_timeout = 300\<rparr>,
          \<lparr>target = 12300000000, previous = 0, observed = False\<rparr>)"
  by (simp add: clock_setup_def default_clock_options_def ClockWait_def clockTarget_12_3)

lemma example_run:
  "clock_wait_main (\<lambda>_. True) [''--target-seconds'', ''12.3''] 0 example_polls =
     Some (Exit 0 (clock_report example_end) [])"
  by (simp add: clock_wait_main_def example_setup example_polls_def example_end_def
      clock_loop_start_def clock_callback_def observe_def clock_stamp_def clock_finish_def)

theorem clock_wait_main_success_witness:
  "\<exists>opts w m l. clock_setup (\<lambda>_. True) [''--target-seconds'', ''12.3''] = Inr (opts, w) \<and>
     m \<in> (\<Union>p \<in> set example_polls. set (poll_messages p)) \<and>
     decimal_seconds (opt_target opts) * 1000000000 \<le>
       of_nat (unat (msg_sec m) * 1000000000 + unat (msg_nsec m)) \<and>
     clock_report example_end = clock_report l"
  using clock_wait_main_success [OF example_run] by blast

text \<open>
  C36. The wait is bounded: as soon as one iteration reads a steady clock at or past the
  deadline, the tool has returned an exit code, whatever the publishers and messages do.
\<close>

theorem clock_wait_main_terminates:
  assumes "clock_setup nv arguments = Inr (opts, w)" and "p \<in> set polls"
    and "start_ns + int (opt_timeout opts) * 1000000000 \<le> poll_now p"
  shows "\<exists>r. clock_wait_main nv arguments start_ns polls = Some r"
  using assms clock_wait_loop_timeout by (simp add: clock_wait_main_def)

theorem clock_wait_main_terminates_witness:
  "\<exists>r. clock_wait_main (\<lambda>_. True) [''--target-seconds'', ''12.3''] (- 300000000000) example_polls = Some r"
  by (rule clock_wait_main_terminates [OF example_setup, of "hd example_polls"])
    (simp_all add: example_polls_def)

end
