(* ===== verification/Probe.thy ===== *)
theory Probe
  imports Native_Context Clock_Wait Type_Registry
begin

text \<open>
  The questions the graph probe asks (\<^verbatim>\<open>probe_main.cpp\<close>): XML-RPC calls with a deadline, node
  lookup, registered topics, the TCP listener, and the wait for a message. What the XML-RPC
  library, the name service, ROS and the operating system answer is the record \<open>probe_env\<close>, an
  answer for every tick; every observation takes a tick. The world keeps the tick, the calls
  that were issued and the text written to standard output.
\<close>

section \<open>Data\<close>

datatype xmlrpc = XInvalid | XInt int | XString string | XArray "xmlrpc list" | XOther

text \<open>Host, port, method and arguments of a call.\<close>

type_synonym rpc = "string \<times> nat \<times> string \<times> xmlrpc"

text \<open>
  A received message: its publisher, its type, and what the introspection library makes of the
  member \<^verbatim>\<open>connected\<close>.
\<close>

record message_event =
  ev_publisher :: string
  ev_type :: string
  ev_connected :: "bool result"

text \<open>
  \<open>pe_done\<close> is the answer of \<^verbatim>\<open>executeCheckDone\<close>: nothing yet, or the fault flag and the
  value. \<open>pe_connect\<close> is the state of resolving and connecting: pending, connected, or failed
  with a text. \<open>pe_events\<close> are the callbacks one \<^verbatim>\<open>callAvailable\<close> delivers.
\<close>

record probe_env =
  pe_stopped :: "nat \<Rightarrow> bool"
  pe_now :: "nat \<Rightarrow> int"
  pe_splitURI :: "string \<Rightarrow> (string \<times> nat) option"
  pe_execute :: "rpc \<Rightarrow> nat \<Rightarrow> bool"
  pe_done :: "rpc \<Rightarrow> nat \<Rightarrow> (bool \<times> xmlrpc) option"
  pe_valid_name :: "string \<Rightarrow> bool"
  pe_connect :: "string \<Rightarrow> string \<Rightarrow> nat \<Rightarrow> string option option"
  pe_ros_ok :: "nat \<Rightarrow> bool"
  pe_events :: "string \<Rightarrow> nat \<Rightarrow> message_event list"

record probe_world =
  ptick :: nat
  pcalls :: "rpc list"
  pstdout :: string

definition askP :: "(nat \<Rightarrow> 'a) \<Rightarrow> (probe_world, 'a) prog" where
  "askP f = (\<lambda>w. Some (Inr (f (ptick w)), w\<lparr>ptick := Suc (ptick w)\<rparr>))"

section \<open>Calls\<close>

definition checkDeadline :: "'e probe_env_scheme \<Rightarrow> int \<Rightarrow> (probe_world, unit) prog" where
  "checkDeadline E deadline =
     bindP (askP (pe_stopped E)) (\<lambda>stopped.
       if stopped then liftP (stdError ''probe cancelled'')
       else bindP (askP (pe_now E)) (\<lambda>now.
         if now \<ge> deadline then liftP (stdError ''probe timed out'') else returnP ()))"

definition await_answer :: "'e probe_env_scheme \<Rightarrow> rpc \<Rightarrow> int \<Rightarrow> unit \<Rightarrow> (probe_world, (unit, bool \<times> xmlrpc) flow) prog" where
  "await_answer E rpc deadline = (\<lambda>_.
     bindP (askP (pe_done E rpc)) (\<lambda>answer.
       case answer of
         Some reply \<Rightarrow> returnP (Done reply)
       | None \<Rightarrow> thenP (checkDeadline E deadline) (returnP (Again ()))))"

text \<open>The third element of a reply \<^verbatim>\<open>[1, status, value]\<close> without a fault.\<close>

fun rpc_value :: "bool \<times> xmlrpc \<Rightarrow> xmlrpc option" where
  "rpc_value (False, XArray [XInt code, reason, v]) = (if code = 1 then Some v else None)"
| "rpc_value _ = None"

definition rpc_call ::
  "nat \<Rightarrow> 'e probe_env_scheme \<Rightarrow> string \<Rightarrow> string \<Rightarrow> xmlrpc \<Rightarrow> int \<Rightarrow> (probe_world, xmlrpc) prog" where
  "rpc_call fuel E uri method args deadline =
     (case pe_splitURI E uri of
        None \<Rightarrow> liftP (stdError ''invalid ROS XMLRPC URI'')
      | Some (host, port) \<Rightarrow>
          if port = 0 \<or> port > 65535 then liftP (stdError ''invalid ROS XMLRPC URI'')
          else
            let rpc = (host, port, method, args) in
            bindP (askP (pe_execute E rpc)) (\<lambda>accepted.
              if \<not> accepted then liftP (stdError (method @ '' request failed''))
              else
                thenP (modifyP (\<lambda>w. w\<lparr>pcalls := pcalls w @ [rpc]\<rparr>))
                (bindP (iterP fuel (await_answer E rpc deadline) ()) (\<lambda>reply.
                 thenP (checkDeadline E deadline)
                   (case rpc_value reply of
                      None \<Rightarrow> liftP (stdError (method @ '' returned failure''))
                    | Some v \<Rightarrow> returnP v)))))"

definition rpc_arguments :: "string \<Rightarrow> xmlrpc" where
  "rpc_arguments v = XArray (XString ''/xgc_ros1_probe'' # (if v = [] then [] else [XString v]))"

definition lookup ::
  "nat \<Rightarrow> 'e probe_env_scheme \<Rightarrow> string \<Rightarrow> string \<Rightarrow> int \<Rightarrow> (probe_world, string) prog" where
  "lookup fuel E master node deadline =
     bindP (rpc_call fuel E master ''lookupNode'' (rpc_arguments node) deadline) (\<lambda>uri.
       case uri of
         XString s \<Rightarrow> returnP s
       | _ \<Rightarrow> liftP (stdError ''lookupNode did not return a URI''))"

definition absoluteName :: "'e probe_env_scheme \<Rightarrow> string \<Rightarrow> string result" where
  "absoluteName E v =
     (let name = CHR ''/'' # dropWhile (\<lambda>c. c = CHR ''/'') v in
      if name = ''/'' \<or> \<not> pe_valid_name E name then stdError ''invalid ROS graph name'' else Inr name)"

section \<open>Registered topics\<close>

text \<open>\<^verbatim>\<open>setSize(3)\<close> on the arguments, and the protocols in the third place.\<close>

definition topic_arguments :: "string \<Rightarrow> xmlrpc" where
  "topic_arguments topic =
     (case rpc_arguments topic of
        XArray xs \<Rightarrow> XArray (take 2 (xs @ [XInvalid]) @ [XArray [XArray [XString ''TCPROS'']]])
      | v \<Rightarrow> v)"

fun tcpros_endpoint :: "xmlrpc \<Rightarrow> bool" where
  "tcpros_endpoint (XArray [XString protocol, XString host, XInt port]) \<longleftrightarrow> protocol = ''TCPROS'' \<and> port > 0"
| "tcpros_endpoint _ \<longleftrightarrow> False"

fun publishes :: "string \<Rightarrow> xmlrpc \<Rightarrow> bool" where
  "publishes topic (XArray [XString name, XArray nodes]) \<longleftrightarrow> name = topic \<and> length nodes > 0"
| "publishes topic _ \<longleftrightarrow> False"

fun has_publisher :: "string \<Rightarrow> xmlrpc \<Rightarrow> bool" where
  "has_publisher topic (XArray [XArray publishers, subscribers, services]) \<longleftrightarrow> list_ex (publishes topic) publishers"
| "has_publisher topic _ \<longleftrightarrow> False"

definition topicRegistered ::
  "nat \<Rightarrow> 'e probe_env_scheme \<Rightarrow> string \<Rightarrow> string \<Rightarrow> string \<Rightarrow> int \<Rightarrow> (probe_world, unit) prog" where
  "topicRegistered fuel E master node topic deadline =
     (if node \<noteq> [] then
        bindP (lookup fuel E master node deadline) (\<lambda>uri.
        bindP (rpc_call fuel E uri ''requestTopic'' (topic_arguments topic) deadline) (\<lambda>endpoint.
          if \<not> tcpros_endpoint endpoint
          then liftP (stdError ''publisher did not serve the topic over TCPROS'') else returnP ()))
      else
        bindP (rpc_call fuel E master ''getSystemState'' (rpc_arguments []) deadline) (\<lambda>state.
          if has_publisher topic state then returnP ()
          else liftP (stdError ''topic has no registered publisher'')))"

section \<open>The TCP listener\<close>

text \<open>Host and port of \<^verbatim>\<open>host:port\<close>; unspecified addresses mean the loopback.\<close>

definition split_address :: "string \<Rightarrow> (string \<times> string) result" where
  "split_address address =
     (case rfind_char CHR '':'' address of
        None \<Rightarrow> stdError ''invalid verify address''
      | Some colon \<Rightarrow>
          let host = take colon address;
              port = drop (colon + 1) address;
              host = (if length host \<ge> 2 \<and> hd host = CHR ''['' \<and> last host = CHR '']''
                      then take (length host - 2) (drop 1 host) else host);
              host = (if host = [] \<or> host = ''0.0.0.0'' \<or> host = ''::'' then ''127.0.0.1'' else host)
          in Inr (host, port))"

definition await_connection ::
  "'e probe_env_scheme \<Rightarrow> string \<Rightarrow> string \<Rightarrow> int \<Rightarrow> unit \<Rightarrow> (probe_world, (unit, string option) flow) prog" where
  "await_connection E host port deadline = (\<lambda>_.
     thenP (checkDeadline E deadline)
     (bindP (askP (pe_connect E host port)) (\<lambda>state.
       returnP (case state of None \<Rightarrow> Again () | Some problem \<Rightarrow> Done problem))))"

definition verifyTCP ::
  "nat \<Rightarrow> 'e probe_env_scheme \<Rightarrow> string \<Rightarrow> int \<Rightarrow> (probe_world, unit) prog" where
  "verifyTCP fuel E address deadline =
     (if address = [] then returnP ()
      else
        bindP (liftP (split_address address)) (\<lambda>(host, port).
        bindP (iterP fuel (await_connection E host port deadline) ()) (\<lambda>problem.
          case problem of
            Some text \<Rightarrow> liftP (stdError (''verify TCP listener: '' @ text))
          | None \<Rightarrow> returnP ())))"

section \<open>Waiting for a message\<close>

text \<open>
  The subscription callback on the flags \<^verbatim>\<open>received\<close> and \<^verbatim>\<open>failure\<close>. An exception that is
  not derived from \<^verbatim>\<open>std::exception\<close> leaves it.
\<close>

definition judge_message :: "string \<Rightarrow> string \<Rightarrow> message_event \<Rightarrow> unit result" where
  "judge_message mode expectedType event =
     (if expectedType \<noteq> [] \<and> ev_type event \<noteq> expectedType
      then stdError (''expected '' @ expectedType @ '', received '' @ ev_type event)
      else if mode = ''mavros-connected'' then
        if ev_type event \<noteq> ''mavros_msgs/State'' then stdError ''expected mavros_msgs/State''
        else bindE (ev_connected event) (\<lambda>connected.
          if \<not> connected then stdError ''MAVROS reports the FCU as disconnected'' else Inr ())
      else Inr ())"

definition message_callback ::
  "string \<Rightarrow> string \<Rightarrow> string \<Rightarrow> message_event \<Rightarrow> bool \<times> string \<Rightarrow> (bool \<times> string) result" where
  "message_callback mode node expectedType event = (\<lambda>(received, problem).
     if node \<noteq> [] \<and> ev_publisher event \<noteq> node then Inr (received, problem)
     else if received \<or> problem \<noteq> [] then Inr (received, problem)
     else case judge_message mode expectedType event of
       Inr _ \<Rightarrow> Inr (True, problem)
     | Inl e \<Rightarrow> if e = UnknownException then Inl e else Inr (received, what e))"

fun message_callbacks ::
  "string \<Rightarrow> string \<Rightarrow> string \<Rightarrow> message_event list \<Rightarrow> bool \<times> string \<Rightarrow> (bool \<times> string) result" where
  "message_callbacks mode node expectedType [] flags = Inr flags"
| "message_callbacks mode node expectedType (event # rest) flags =
     bindE (message_callback mode node expectedType event flags) (message_callbacks mode node expectedType rest)"

definition message_round ::
  "'e probe_env_scheme \<Rightarrow> string \<Rightarrow> string \<Rightarrow> string \<Rightarrow> string \<Rightarrow> int \<Rightarrow> bool \<times> string \<Rightarrow>
   (probe_world, (bool \<times> string, bool \<times> string) flow) prog" where
  "message_round E mode node expectedType topic deadline = (\<lambda>(received, problem).
     if \<not> (\<not> received \<and> problem = []) then returnP (Done (received, problem))
     else bindP (askP (pe_ros_ok E)) (\<lambda>ok.
       if \<not> ok then returnP (Done (received, problem))
       else thenP (checkDeadline E deadline)
         (bindP (askP (pe_events E topic)) (\<lambda>events.
          bindP (liftP (message_callbacks mode node expectedType events (received, problem))) (\<lambda>flags.
          returnP (Again flags))))))"

definition await_message ::
  "nat \<Rightarrow> 'e probe_env_scheme \<Rightarrow> string \<Rightarrow> string \<Rightarrow> string \<Rightarrow> string \<Rightarrow> int \<Rightarrow> (probe_world, unit) prog" where
  "await_message fuel E mode node expectedType topic deadline =
     bindP (iterP fuel (message_round E mode node expectedType topic deadline) (False, [])) (\<lambda>(received, problem).
     thenP (checkDeadline E deadline)
       (if problem \<noteq> [] then liftP (stdError problem)
        else if \<not> received then liftP (stdError ''ROS shut down before a topic message'')
        else returnP ()))"

section \<open>What the questions establish\<close>

text \<open>
  A program that writes nothing to standard output, and whose value has a property when it
  returns one.
\<close>

definition gives :: "(probe_world, 'a) prog \<Rightarrow> ('a \<Rightarrow> bool) \<Rightarrow> bool" where
  "gives m P \<longleftrightarrow>
     (\<forall>w. wp m (\<lambda>x w'. P x \<and> pstdout w' = pstdout w) (\<lambda>_ w'. pstdout w' = pstdout w) w)"

named_theorems gives_intros

lemma wp_ask [wp_simps]: "wp (askP f) Q X = (\<lambda>w. Q (f (ptick w)) (w\<lparr>ptick := Suc (ptick w)\<rparr>))"
  by (simp add: fun_eq_iff wp_def askP_def)

lemma gives_return [gives_intros]: "P x \<Longrightarrow> gives (returnP x) P"
  by (simp add: gives_def wp_simps)

lemma gives_lift [gives_intros]: "(\<And>x. r = Inr x \<Longrightarrow> P x) \<Longrightarrow> gives (liftP r) P"
  by (auto simp: gives_def wp_simps split: sum.splits)

lemma gives_ask: "(\<And>t. P (f t)) \<Longrightarrow> gives (askP f) P"
  by (simp add: gives_def wp_simps)

lemma gives_asked [gives_intros]: "gives (askP f) (\<lambda>x. \<exists>t. x = f t)"
  by (rule gives_ask) blast

lemma gives_bind [gives_intros]:
  assumes "gives m R" and "\<And>x. R x \<Longrightarrow> gives (f x) P"
  shows "gives (bindP m f) P"
  unfolding gives_def wp_bind
proof
  fix w
  show "wp m (\<lambda>x. wp (f x) (\<lambda>y w'. P y \<and> pstdout w' = pstdout w) (\<lambda>_ w'. pstdout w' = pstdout w))
      (\<lambda>_ w'. pstdout w' = pstdout w) w"
  proof (rule wp_mono [OF spec [OF assms(1) [unfolded gives_def]]])
    show "wp (f x) (\<lambda>y w'. P y \<and> pstdout w' = pstdout w) (\<lambda>_ w'. pstdout w' = pstdout w) v"
      if "R x \<and> pstdout v = pstdout w" for x v
      using spec [OF assms(2) [unfolded gives_def], of x v] that by simp
  qed
qed

lemma gives_then [gives_intros]: "gives m R \<Longrightarrow> gives n P \<Longrightarrow> gives (thenP m n) P"
  unfolding thenP_def by (rule gives_bind)

lemma gives_mono: "gives m P \<Longrightarrow> (\<And>x. P x \<Longrightarrow> Q x) \<Longrightarrow> gives m Q"
  unfolding gives_def by (blast intro: wp_mono)

lemma gives_if [gives_intros]: "(b \<Longrightarrow> gives m P) \<Longrightarrow> (\<not> b \<Longrightarrow> gives n P) \<Longrightarrow> gives (if b then m else n) P"
  by simp

lemma gives_case_option [gives_intros]:
  "(x = None \<Longrightarrow> gives m P) \<Longrightarrow> (\<And>y. x = Some y \<Longrightarrow> gives (f y) P) \<Longrightarrow> gives (case x of None \<Rightarrow> m | Some y \<Rightarrow> f y) P"
  by (cases x) auto

lemma gives_case_prod [gives_intros]:
  "(\<And>a b. x = (a, b) \<Longrightarrow> gives (f a b) P) \<Longrightarrow> gives (case x of (a, b) \<Rightarrow> f a b) P"
  by (cases x) auto

lemma gives_iter:
  assumes "I a" and "\<And>a. I a \<Longrightarrow> gives (f a) (\<lambda>r. case r of Again a' \<Rightarrow> I a' | Done b \<Rightarrow> P b)"
  shows "gives (iterP n f a) P"
  unfolding gives_def
proof
  fix w
  show "wp (iterP n f a) (\<lambda>x w'. P x \<and> pstdout w' = pstdout w) (\<lambda>_ w'. pstdout w' = pstdout w) w"
  proof (rule wp_iter [where I = "\<lambda>a w'. I a \<and> pstdout w' = pstdout w"])
    show "I a \<and> pstdout w = pstdout w" using assms(1) by simp
  next
    fix a and w' :: probe_world
    assume inv: "I a \<and> pstdout w' = pstdout w"
    show "wp (f a) (\<lambda>r w'. case r of Again a' \<Rightarrow> I a' \<and> pstdout w' = pstdout w | Done b \<Rightarrow> P b \<and> pstdout w' = pstdout w)
        (\<lambda>_ w'. pstdout w' = pstdout w) w'"
      by (rule wp_mono [OF spec [OF assms(2) [unfolded gives_def]]]) (use inv in \<open>auto split: flow.splits\<close>)
  qed
qed

lemma gives_checkDeadline [gives_intros]: "gives (checkDeadline E deadline) (\<lambda>_. \<exists>t. pe_now E t < deadline)"
  unfolding checkDeadline_def
  by (intro gives_bind [OF gives_asked] gives_if gives_lift gives_return) (auto simp: stdError_def not_le)

lemma gives_await_answer: "gives (iterP fuel (await_answer E rpc deadline) ()) (\<lambda>reply. \<exists>t. pe_done E rpc t = Some reply)"
  by (rule gives_iter [where I = "\<lambda>_. True"])
    (auto simp: await_answer_def intro!: gives_bind [OF gives_asked] gives_case_option gives_return
      gives_then [OF gives_checkDeadline])

text \<open>The node or master at a URI has answered a call with a value.\<close>

definition answered :: "'e probe_env_scheme \<Rightarrow> string \<Rightarrow> string \<Rightarrow> xmlrpc \<Rightarrow> xmlrpc \<Rightarrow> bool" where
  "answered E uri method args v \<longleftrightarrow>
     (\<exists>host port t reply. pe_splitURI E uri = Some (host, port) \<and> 0 < port \<and> port \<le> 65535 \<and>
        pe_done E (host, port, method, args) t = Some reply \<and> rpc_value reply = Some v)"

lemma gives_rpc_call [gives_intros]: "gives (rpc_call fuel E uri method args deadline) (answered E uri method args)"
proof -
  have "gives (modifyP (\<lambda>w. w\<lparr>pcalls := pcalls w @ [rpc]\<rparr>)) (\<lambda>_. True)" for rpc
    by (simp add: gives_def wp_simps)
  note logged = gives_then [OF this]
  show ?thesis
    unfolding rpc_call_def Let_def
    by (intro gives_case_option gives_case_prod gives_if gives_lift gives_bind [OF gives_asked] logged
        gives_bind [OF gives_await_answer] gives_then [OF gives_checkDeadline] gives_return)
      (auto simp: answered_def stdError_def)
qed

lemma gives_lookup:
  "gives (lookup fuel E master node deadline) (\<lambda>uri. answered E master ''lookupNode'' (rpc_arguments node) (XString uri))"
  unfolding lookup_def
  by (rule gives_bind [OF gives_rpc_call]) (auto intro!: gives_return gives_lift simp: stdError_def split: xmlrpc.split)

text \<open>A publisher of the topic: the given node serves it, or the master knows one.\<close>

definition registered :: "'e probe_env_scheme \<Rightarrow> string \<Rightarrow> string \<Rightarrow> string \<Rightarrow> bool" where
  "registered E master node topic \<longleftrightarrow>
     (if node \<noteq> [] then
        \<exists>uri endpoint. answered E master ''lookupNode'' (rpc_arguments node) (XString uri) \<and>
          answered E uri ''requestTopic'' (topic_arguments topic) endpoint \<and> tcpros_endpoint endpoint
      else \<exists>state. answered E master ''getSystemState'' (rpc_arguments []) state \<and> has_publisher topic state)"

lemma gives_topicRegistered: "gives (topicRegistered fuel E master node topic deadline) (\<lambda>_. registered E master node topic)"
  unfolding topicRegistered_def
  by (intro gives_if gives_bind [OF gives_lookup] gives_bind [OF gives_rpc_call] gives_lift gives_return)
    (auto simp: registered_def stdError_def)

text \<open>Something accepts connections at the address.\<close>

definition listening :: "'e probe_env_scheme \<Rightarrow> string \<Rightarrow> bool" where
  "listening E address \<longleftrightarrow>
     (\<exists>host port t. split_address address = Inr (host, port) \<and> pe_connect E host port t = Some None)"

lemma gives_await_connection:
  "gives (iterP fuel (await_connection E host port deadline) ()) (\<lambda>problem. \<exists>t. pe_connect E host port t = Some problem)"
  by (rule gives_iter [where I = "\<lambda>_. True"])
    (auto simp: await_connection_def intro!: gives_bind [OF gives_asked] gives_return
      gives_then [OF gives_checkDeadline] split: option.split)

lemma gives_verifyTCP: "gives (verifyTCP fuel E address deadline) (\<lambda>_. address = [] \<or> listening E address)"
  unfolding verifyTCP_def
  by (intro gives_if gives_return gives_bind [where R = "\<lambda>x. split_address address = Inr x"] gives_lift gives_case_prod
      gives_bind [OF gives_await_connection] gives_case_option)
    (auto simp: listening_def stdError_def)

text \<open>A message on the topic, of the given node if there is one, that the callback accepted.\<close>

definition message_seen :: "'e probe_env_scheme \<Rightarrow> string \<Rightarrow> string \<Rightarrow> string \<Rightarrow> string \<Rightarrow> bool" where
  "message_seen E mode node expectedType topic \<longleftrightarrow>
     (\<exists>t. \<exists>event \<in> set (pe_events E topic t). (node = [] \<or> ev_publisher event = node) \<and>
        judge_message mode expectedType event = Inr ())"

lemma message_callbacks_received:
  "message_callbacks mode node expectedType events (received, problem) = Inr (True, problem') \<Longrightarrow>
   received \<or> (\<exists>event \<in> set events. (node = [] \<or> ev_publisher event = node) \<and> judge_message mode expectedType event = Inr ())"
proof (induction events arbitrary: received problem)
  case (Cons event rest)
  obtain flags where flags: "message_callback mode node expectedType event (received, problem) = Inr flags"
      "message_callbacks mode node expectedType rest flags = Inr (True, problem')"
    using Cons.prems by (auto simp: bindE_eq_Inr)
  obtain received' problem1 where split: "flags = (received', problem1)" by (cases flags)
  have "received' \<Longrightarrow> received \<or> (node = [] \<or> ev_publisher event = node) \<and> judge_message mode expectedType event = Inr ()"
    using flags(1) split by (auto simp: message_callback_def split: if_splits sum.splits)
  then show ?case using Cons.IH flags(2) split by auto
qed simp

lemma gives_await_message:
  "gives (await_message fuel E mode node expectedType topic deadline) (\<lambda>_. message_seen E mode node expectedType topic)"
proof -
  let ?I = "\<lambda>(received, problem :: string). received \<longrightarrow> message_seen E mode node expectedType topic"
  have events: "gives (liftP (message_callbacks mode node expectedType (pe_events E topic t) flags)) ?I" if "?I flags" for t flags
    using that message_callbacks_received [of mode node expectedType "pe_events E topic t" "fst flags" "snd flags"]
    by (intro gives_lift) (auto simp: message_seen_def)
  have "gives (iterP fuel (message_round E mode node expectedType topic deadline) (False, [])) ?I"
  proof (rule gives_iter [where I = ?I])
    fix flags :: "bool \<times> string"
    assume inv: "?I flags"
    show "gives (message_round E mode node expectedType topic deadline flags)
      (\<lambda>r. case r of Again flags \<Rightarrow> ?I flags | Done flags \<Rightarrow> ?I flags)"
      using inv events [of flags] unfolding message_round_def
      by (auto intro!: gives_case_prod gives_if gives_return gives_bind [OF gives_asked] gives_then [OF gives_checkDeadline]
          intro: gives_bind [of _ ?I])
  qed simp
  then show ?thesis
    unfolding await_message_def
    by (rule gives_bind) (auto intro!: gives_then [OF gives_checkDeadline] gives_lift gives_return simp: stdError_def)
qed

section \<open>The questions end\<close>

text \<open>A program that returns from every world when its loops get enough rounds.\<close>

definition always :: "(nat \<Rightarrow> (probe_world, 'a) prog) \<Rightarrow> bool" where
  "always p \<longleftrightarrow> mono_fuel p \<and> (\<forall>w. returns p w)"

named_theorems always_intros

lemma always_total: "(\<And>w. m w \<noteq> None) \<Longrightarrow> always (\<lambda>n. m)"
  by (simp add: always_def mono_const returns_const)

lemma always_simple [always_intros]:
  "always (\<lambda>n. returnP x)" "always (\<lambda>n. liftP r)" "always (\<lambda>n. askP f)" "always (\<lambda>n. modifyP g)"
  "always (\<lambda>n. checkDeadline E deadline)"
  by (rule always_total; simp add: prog_defs askP_def checkDeadline_def)+

lemma always_bind [always_intros]:
  assumes "always p" and "\<And>x. always (\<lambda>n. q n x)"
  shows "always (\<lambda>n. bindP (p n) (q n))"
  using assms unfolding always_def by (auto intro!: mono_bind returns_bind)

lemma always_then [always_intros]: "always p \<Longrightarrow> always q \<Longrightarrow> always (\<lambda>n. thenP (p n) (q n))"
  unfolding thenP_def by (rule always_bind)

lemma always_if [always_intros]: "(b \<Longrightarrow> always p) \<Longrightarrow> (\<not> b \<Longrightarrow> always q) \<Longrightarrow> always (\<lambda>n. if b then p n else q n)"
  by (cases b) simp_all

lemma always_case_option [always_intros]:
  "always p \<Longrightarrow> (\<And>y. always (\<lambda>n. q n y)) \<Longrightarrow> always (\<lambda>n. case x of None \<Rightarrow> p n | Some y \<Rightarrow> q n y)"
  by (cases x) simp_all

lemma always_case_prod [always_intros]:
  "(\<And>a b. always (\<lambda>n. q n a b)) \<Longrightarrow> always (\<lambda>n. case x of (a, b) \<Rightarrow> q n a b)"
  by (cases x) simp

text \<open>A loop whose rounds advance the tick and go on only before some tick.\<close>

lemma always_loop:
  assumes "\<And>a w. \<exists>r w'. f a w = Some (r, w') \<and> (\<forall>a'. r = Inr (Again a') \<longrightarrow> ptick w < ptick w' \<and> ptick w < T)"
  shows "always (\<lambda>n. iterP n f a)"
  unfolding always_def
proof (intro conjI allI)
  show "mono_fuel (\<lambda>n. iterP n f a)" by (rule mono_iter_const)
  fix w
  show "returns (\<lambda>n. iterP n f a) w"
  proof (rule returns_iter [where I = "\<lambda>_ _. True" and measure_of = "\<lambda>_ w. T - ptick w"])
    fix a s
    show "\<exists>r s'. f a s = Some (r, s') \<and> (\<forall>a'. r = Inr (Again a') \<longrightarrow> True \<and> T - ptick s' < T - ptick s)"
      using assms [of a s] by (metis diff_less_mono2)
  qed simp
qed

lemma passed_deadline:
  assumes "clock_advances (pe_now E)"
  shows "\<exists>T. \<forall>t \<ge> T. \<not> pe_now E t < deadline"
  using assms by (auto simp: clock_advances_def not_less)

lemma checkDeadline_ticks:
  assumes "\<forall>t \<ge> T. \<not> pe_now E t < deadline"
  shows "\<exists>r w'. checkDeadline E deadline w = Some (r, w') \<and> ptick w < ptick w' \<and> (\<forall>x. r = Inr x \<longrightarrow> ptick w < T)"
  using spec [OF assms, of "Suc (ptick w)"]
  by (auto simp: checkDeadline_def askP_def prog_defs stdError_def not_less)

lemma always_rpc_call [always_intros]:
  assumes "clock_advances (pe_now E)"
  shows "always (\<lambda>n. rpc_call n E uri method args deadline)"
proof -
  obtain T where T: "\<forall>t \<ge> T. \<not> pe_now E t < deadline" using passed_deadline [OF assms, of deadline] by blast
  have "always (\<lambda>n. iterP n (await_answer E rpc deadline) ())" for rpc
  proof (rule always_loop [where T = T])
    fix a w
    show "\<exists>r w'. await_answer E rpc deadline a w = Some (r, w') \<and>
      (\<forall>a'. r = Inr (Again a') \<longrightarrow> ptick w < ptick w' \<and> ptick w < T)"
      using checkDeadline_ticks [of T E deadline "w\<lparr>ptick := Suc (ptick w)\<rparr>"] T
      by (cases "pe_done E rpc (ptick w)") (auto simp: await_answer_def askP_def prog_defs split: sum.splits)
  qed
  then show ?thesis unfolding rpc_call_def Let_def by (intro always_intros)
qed

lemma always_lookup [always_intros]:
  "clock_advances (pe_now E) \<Longrightarrow> always (\<lambda>n. lookup n E master node deadline)"
  unfolding lookup_def by (intro always_intros) (auto intro: always_intros split: xmlrpc.split)

lemma always_topicRegistered [always_intros]:
  "clock_advances (pe_now E) \<Longrightarrow> always (\<lambda>n. topicRegistered n E master node topic deadline)"
  unfolding topicRegistered_def by (intro always_intros)

lemma always_verifyTCP [always_intros]:
  assumes "clock_advances (pe_now E)"
  shows "always (\<lambda>n. verifyTCP n E address deadline)"
proof -
  obtain T where T: "\<forall>t \<ge> T. \<not> pe_now E t < deadline" using passed_deadline [OF assms, of deadline] by blast
  have "always (\<lambda>n. iterP n (await_connection E host port deadline) ())" for host port
  proof (rule always_loop [where T = T])
    fix a w
    show "\<exists>r w'. await_connection E host port deadline a w = Some (r, w') \<and>
      (\<forall>a'. r = Inr (Again a') \<longrightarrow> ptick w < ptick w' \<and> ptick w < T)"
      using checkDeadline_ticks [of T E deadline w] T
      by (auto simp: await_connection_def askP_def prog_defs split: sum.splits)
  qed
  then show ?thesis unfolding verifyTCP_def by (intro always_intros)
qed

lemma always_await_message [always_intros]:
  assumes "clock_advances (pe_now E)"
  shows "always (\<lambda>n. await_message n E mode node expectedType topic deadline)"
proof -
  obtain T where T: "\<forall>t \<ge> T. \<not> pe_now E t < deadline" using passed_deadline [OF assms, of deadline] by blast
  have "always (\<lambda>n. iterP n (message_round E mode node expectedType topic deadline) flags)" for flags
  proof (rule always_loop [where T = T])
    fix a w
    show "\<exists>r w'. message_round E mode node expectedType topic deadline a w = Some (r, w') \<and>
      (\<forall>a'. r = Inr (Again a') \<longrightarrow> ptick w < ptick w' \<and> ptick w < T)"
      using checkDeadline_ticks [of T E deadline "w\<lparr>ptick := Suc (ptick w)\<rparr>"] T
      by (auto simp: message_round_def askP_def prog_defs split: sum.splits prod.splits)
  qed
  then show ?thesis unfolding await_message_def by (intro always_intros)
qed

end
