(* ===== verification/Pose_Snapshot.thy ===== *)
theory Pose_Snapshot
  imports Probe
begin

text \<open>
  The pose snapshot of the probe (\<^verbatim>\<open>probe_main.cpp\<close>): the request on standard input, the
  selection of topics for every source, the first valid sample of every topic within the
  deadline, and the request with the samples filled in. Standard input, JsonCpp and the
  received poses extend the environment of the probe.
\<close>

section \<open>Data\<close>

text \<open>What the introspection library makes of a pose message; each access may throw.\<close>

record pose_message =
  po_frame_id :: "string result"
  po_stamp :: "(32 word \<times> 32 word) result"
  po_number :: "string \<Rightarrow> string \<Rightarrow> fp result"

text \<open>A received message: its type, its translation, and the wall time when it is handled.\<close>

record pose_event =
  po_type :: string
  po_message :: "pose_message result"
  po_observed :: "32 word \<times> 32 word"

record snapshot_env = probe_env +
  pe_stdin :: string
  pe_parse :: "string \<Rightarrow> json option"
  pe_numbers :: jsoncpp
  pe_poses :: "nat \<Rightarrow> (string \<times> pose_event) list"

section \<open>Timestamps\<close>

definition leap_year :: "nat \<Rightarrow> bool" where
  "leap_year y \<longleftrightarrow> y mod 4 = 0 \<and> (y mod 100 \<noteq> 0 \<or> y mod 400 = 0)"

definition year_days :: "nat \<Rightarrow> nat" where
  "year_days y = (if leap_year y then 366 else 365)"

definition month_days :: "nat \<Rightarrow> nat list" where
  "month_days y = [31, if leap_year y then 29 else 28, 31, 30, 31, 30, 31, 31, 30, 31, 30, 31]"

text \<open>\<^verbatim>\<open>gmtime_r\<close>: the year and the day in it, the month and the day in it.\<close>

function split_years :: "nat \<Rightarrow> nat \<Rightarrow> nat \<times> nat" where
  "split_years y d = (if d < year_days y then (y, d) else split_years (Suc y) (d - year_days y))"
  by pat_completeness auto
termination
  by (relation "measure snd") (auto simp: year_days_def)

declare split_years.simps [simp del]

fun split_months :: "nat list \<Rightarrow> nat \<Rightarrow> nat \<times> nat" where
  "split_months [] d = (0, d)"
| "split_months (n # rest) d = (if d < n then (0, d) else apfst Suc (split_months rest (d - n)))"

definition two_digits :: "nat \<Rightarrow> string" where
  "two_digits n = pad_left 2 (nat_to_string n)"

definition timestamp :: "32 word \<Rightarrow> 32 word \<Rightarrow> string result" where
  "timestamp sec nsec =
     (if unat nsec \<ge> 1000000000 then stdError ''invalid pose timestamp''
      else
        let (y, day) = split_years 1970 (unat sec div 86400);
            (m, d) = split_months (month_days y) day;
            s = unat sec mod 86400
        in Inr (nat_to_string y @ ''-'' @ two_digits (m + 1) @ ''-'' @ two_digits (d + 1) @ ''T'' @
             two_digits (s div 3600) @ '':'' @ two_digits (s div 60 mod 60) @ '':'' @ two_digits (s mod 60) @ ''.'' @
             pad_left 9 (nat_to_string (unat nsec)) @ ''Z''))"

section \<open>The request\<close>

fun array_items :: "json \<Rightarrow> json list" where
  "array_items (JArray xs) = xs"
| "array_items _ = []"

definition graphNames :: "'e probe_env_scheme \<Rightarrow> json \<Rightarrow> string list result" where
  "graphNames E values =
     (if \<not> isArray values \<or> length (array_items values) > 256
      then stdError ''pose roots/topics must be arrays of at most 256 names''
      else forE (\<lambda>v.
        if \<not> isString v then stdError ''pose roots/topics require absolute ROS names''
        else bindE (absoluteName E (asString v)) (\<lambda>name.
          if asString v \<noteq> name then stdError ''pose roots/topics require absolute ROS names''
          else Inr (asString v))) (array_items values))"

definition nonempty_string :: "json \<Rightarrow> bool" where
  "nonempty_string v \<longleftrightarrow> isString v \<and> asString v \<noteq> []"

definition reject_unknown :: "string list \<Rightarrow> string \<Rightarrow> json \<Rightarrow> unit result" where
  "reject_unknown allowed message v =
     (case find (\<lambda>key. key \<notin> set allowed) (getMemberNames v) of
        Some key \<Rightarrow> stdError (message @ key)
      | None \<Rightarrow> Inr ())"

definition readSnapshotRequest :: "snapshot_env \<Rightarrow> json result" where
  "readSnapshotRequest E =
     (if length (pe_stdin E) > 1024 * 1024 then stdError ''pose snapshot input exceeds 1 MiB''
      else case pe_parse E (pe_stdin E) of
        None \<Rightarrow> stdError ''pose snapshot requires exact Session, commit and 1..258 sources''
      | Some request \<Rightarrow>
          if \<not> isObject request \<or> \<not> nonempty_string (json_get request ''sessionId'') \<or>
             \<not> nonempty_string (json_get request ''experimentCommitId'') \<or>
             \<not> isArray (json_get request ''sources'') \<or> array_items (json_get request ''sources'') = [] \<or>
             length (array_items (json_get request ''sources'')) > 258
          then stdError ''pose snapshot requires exact Session, commit and 1..258 sources''
          else bindE (reject_unknown [''sessionId'', ''experimentCommitId'', ''sources'']
                  ''unknown pose snapshot field: '' request) (\<lambda>_. Inr request))"

section \<open>The selection of topics\<close>

text \<open>Sets of topics are ordered by their bytes.\<close>

fun insert_topic :: "string \<Rightarrow> string list \<Rightarrow> string list" where
  "insert_topic t [] = [t]"
| "insert_topic t (u # us) =
     (if t = u then u # us else if string_less t u then t # u # us else u # insert_topic t us)"

definition below_root :: "string \<Rightarrow> string \<Rightarrow> bool" where
  "below_root topic base \<longleftrightarrow> topic = base \<or> take (length base + 1) topic = base @ ''/''"

fun select_published :: "string list \<Rightarrow> xmlrpc list \<Rightarrow> string list \<Rightarrow> string list result" where
  "select_published roots [] selected = Inr selected"
| "select_published roots (XArray [XString topic, XString type] # rest) selected =
     select_published roots rest
       (if type = ''geometry_msgs/PoseStamped'' \<and> list_ex (below_root topic) roots
        then insert_topic topic selected else selected)"
| "select_published roots (_ # rest) selected = stdError ''invalid published topic entry''"

definition select_topics :: "snapshot_env \<Rightarrow> xmlrpc list \<Rightarrow> json \<Rightarrow> string list result" where
  "select_topics E published source =
     (if \<not> isObject source \<or> \<not> nonempty_string (json_get source ''instanceId'')
      then stdError ''pose source identity is required''
      else
        bindE (reject_unknown [''instanceId'', ''revision'', ''roots'', ''topics''] ''unknown pose source field: '' source) (\<lambda>_.
        if isMember source ''revision'' \<and> \<not> isUInt64 (pe_numbers E) (json_get source ''revision'')
        then stdError ''pose source revision must be an unsigned integer''
        else
          bindE (graphNames E (json_get source ''roots'')) (\<lambda>roots.
          bindE (graphNames E (json_get source ''topics'')) (\<lambda>exact.
          if roots = [] \<and> exact = [] then stdError ''pose source requires roots or exact topics''
          else select_published roots published (fold insert_topic exact [])))))"

text \<open>The loop over the sources: the topics of each, and all of them.\<close>

fun select_sources ::
  "snapshot_env \<Rightarrow> xmlrpc list \<Rightarrow> json list \<Rightarrow> string list \<Rightarrow> (string list list \<times> string list) result" where
  "select_sources E published [] topics = Inr ([], topics)"
| "select_sources E published (source # rest) topics =
     bindE (select_topics E published source) (\<lambda>selected.
       let topics = fold insert_topic selected topics in
       if length topics > 256 then stdError ''pose snapshot exceeds 256 distinct topics''
       else bindE (select_sources E published rest topics) (\<lambda>(sourceTopics, topics).
         Inr (selected # sourceTopics, topics)))"

section \<open>Samples\<close>

definition double_infinity :: fp where
  "double_infinity = Fp False 2047 0"

text \<open>\<^verbatim>\<open>quaternionNorm += number * number\<close>: no operand is negative or not a number.\<close>

definition add_square :: "fp \<Rightarrow> fp \<Rightarrow> fp" where
  "add_square squares number =
     (if isfinite binary64 squares \<and> isfinite binary64 (double_mul number number)
      then double_add_nonneg squares (double_mul number number) else double_infinity)"

text \<open>
  The components of a pose in the order they are read; \<open>None\<close> when one is not finite. The sum
  of squares covers the orientation.
\<close>

fun read_components ::
  "pose_message \<Rightarrow> (string \<times> string) list \<Rightarrow> json \<Rightarrow> fp \<Rightarrow> (json \<times> fp) option result" where
  "read_components m [] sample squares = Inr (Some (sample, squares))"
| "read_components m ((part, axis) # rest) sample squares =
     bindE (po_number m part axis) (\<lambda>number.
       if \<not> isfinite binary64 number then Inr None
       else read_components m rest
              (json_set sample part (json_set (json_get sample part) axis (JReal number)))
              (if part = ''orientation'' then add_square squares number else squares))"

definition pose_components :: "(string \<times> string) list" where
  "pose_components =
     [(''position'', ''x''), (''position'', ''y''), (''position'', ''z''),
      (''orientation'', ''x''), (''orientation'', ''y''), (''orientation'', ''z''), (''orientation'', ''w'')]"

definition double_zero :: fp where "double_zero = Fp False 0 0"

definition pose_sample :: "string \<Rightarrow> pose_event \<Rightarrow> json option result" where
  "pose_sample topic event =
     (if po_type event \<noteq> ''geometry_msgs/PoseStamped'' then Inr None
      else
        bindE (po_message event) (\<lambda>m.
        bindE (po_frame_id m) (\<lambda>frame.
        bindE (po_stamp m) (\<lambda>(sec, nsec).
        bindE (timestamp sec nsec) (\<lambda>stamp.
        bindE (case po_observed event of (sec, nsec) \<Rightarrow> timestamp sec nsec) (\<lambda>observed.
        bindE (read_components m pose_components
            (json_set (json_set (json_set (json_set (JObject []) ''topic'' (JString topic)) ''frameId'' (JString frame))
              ''sourceStamp'' (JString stamp)) ''observedAt'' (JString observed)) double_zero) (\<lambda>components.
          case components of
            None \<Rightarrow> Inr None
          | Some (sample, squares) \<Rightarrow>
              if \<not> isfinite binary64 squares \<or> fp_less binary64 squares double_1e_12 then Inr None
              else Inr (Some sample))))))))"

text \<open>The first valid sample of a topic stays; a message that throws is skipped.\<close>

definition pose_callback ::
  "string \<Rightarrow> pose_event \<Rightarrow> (string \<times> json) list \<Rightarrow> (string \<times> json) list result" where
  "pose_callback topic event samples =
     (if map_of samples topic \<noteq> None then Inr samples
      else case pose_sample topic event of
        Inr (Some sample) \<Rightarrow> Inr (samples @ [(topic, sample)])
      | Inr None \<Rightarrow> Inr samples
      | Inl e \<Rightarrow> if e = UnknownException then Inl e else Inr samples)"

fun pose_callbacks ::
  "string list \<Rightarrow> (string \<times> pose_event) list \<Rightarrow> (string \<times> json) list \<Rightarrow> (string \<times> json) list result" where
  "pose_callbacks topics [] samples = Inr samples"
| "pose_callbacks topics ((topic, event) # rest) samples =
     bindE (if topic \<in> set topics then pose_callback topic event samples else Inr samples)
       (pose_callbacks topics rest)"

definition sample_round ::
  "snapshot_env \<Rightarrow> string list \<Rightarrow> int \<Rightarrow> (string \<times> json) list \<Rightarrow>
   (probe_world, ((string \<times> json) list, (string \<times> json) list) flow) prog" where
  "sample_round E topics deadline samples =
     (if \<not> length samples < length topics then returnP (Done samples)
      else
        bindP (askP (pe_ros_ok E)) (\<lambda>ok.
          if \<not> ok then returnP (Done samples)
          else bindP (askP (pe_now E)) (\<lambda>now.
            if \<not> now < deadline then returnP (Done samples)
            else bindP (askP (pe_stopped E)) (\<lambda>stopped.
              if stopped then returnP (Done samples)
              else bindP (askP (pe_poses E)) (\<lambda>events.
                bindP (liftP (pose_callbacks topics events samples)) (\<lambda>samples.
                returnP (Again samples)))))))"

section \<open>The snapshot\<close>

definition topic_samples :: "(string \<times> json) list \<Rightarrow> string list \<Rightarrow> json list" where
  "topic_samples samples topics = List.map_filter (map_of samples) topics"

definition fill_source :: "(string \<times> json) list \<Rightarrow> json \<Rightarrow> string list \<Rightarrow> json" where
  "fill_source samples source topics = json_set source ''samples'' (JArray (topic_samples samples topics))"

definition poseSnapshot :: "nat \<Rightarrow> snapshot_env \<Rightarrow> string \<Rightarrow> int \<Rightarrow> (probe_world, json) prog" where
  "poseSnapshot fuel E master deadline =
     bindP (liftP (readSnapshotRequest E)) (\<lambda>request.
     bindP (rpc_call fuel E master ''getPublishedTopics'' (rpc_arguments ''/'') deadline) (\<lambda>published.
       case published of
         XArray published \<Rightarrow>
           bindP (liftP (select_sources E published (array_items (json_get request ''sources'')) [])) (\<lambda>(sourceTopics, topics).
           bindP (iterP fuel (sample_round E topics deadline) []) (\<lambda>samples.
           bindP (askP (pe_stopped E)) (\<lambda>stopped.
             if stopped then liftP (stdError ''probe cancelled'')
             else bindP (askP (pe_ros_ok E)) (\<lambda>ok.
               if \<not> ok then liftP (stdError ''ROS shut down before pose snapshot'')
               else returnP (json_set request ''sources''
                 (JArray (map2 (fill_source samples) (array_items (json_get request ''sources'')) sourceTopics)))))))
       | _ \<Rightarrow> liftP (stdError ''getPublishedTopics did not return an array'')))"

section \<open>Lemmas on the selection\<close>

lemma string_less_trans: "string_less a b \<Longrightarrow> string_less b c \<Longrightarrow> string_less a c"
proof (induction a b arbitrary: c rule: string_less.induct)
  case (4 x xs y ys)
  then show ?case by (cases c) auto
qed (auto elim: string_less.elims)

lemma string_less_total: "a \<noteq> b \<Longrightarrow> string_less a b \<or> string_less b a"
  by (induction a b rule: string_less.induct) auto

lemma set_insert_topic [simp]: "set (insert_topic t us) = insert t (set us)"
  by (induction us) auto

lemma sorted_insert_topic: "sorted_wrt string_less us \<Longrightarrow> sorted_wrt string_less (insert_topic t us)"
  by (induction us) (auto dest: string_less_trans string_less_total)

lemma sorted_insert_topics: "sorted_wrt string_less us \<Longrightarrow> sorted_wrt string_less (fold insert_topic ts us)"
  by (induction ts arbitrary: us) (simp_all add: sorted_insert_topic)

lemma set_insert_topics [simp]: "set (fold insert_topic ts us) = set ts \<union> set us"
  by (induction ts arbitrary: us) auto

lemma below_root_iff: "below_root topic base \<longleftrightarrow> topic = base \<or> (\<exists>rest. topic = base @ ''/'' @ rest)"
proof -
  have "take (length base + 1) topic = base @ ''/'' \<longleftrightarrow> (\<exists>rest. topic = base @ ''/'' @ rest)"
  proof
    assume "take (length base + 1) topic = base @ ''/''"
    then have "topic = (base @ ''/'') @ drop (length base + 1) topic" by (metis append_take_drop_id)
    then show "\<exists>rest. topic = base @ ''/'' @ rest" by auto
  qed auto
  then show ?thesis by (simp add: below_root_def)
qed

text \<open>The published pose topics at or below one of the roots.\<close>

definition pose_topics :: "string list \<Rightarrow> xmlrpc list \<Rightarrow> string set" where
  "pose_topics roots published =
     {topic. XArray [XString topic, XString ''geometry_msgs/PoseStamped''] \<in> set published \<and>
        (\<exists>base \<in> set roots. topic = base \<or> (\<exists>rest. topic = base @ ''/'' @ rest))}"

lemma select_published_exact:
  assumes "select_published roots published selected = Inr topics" and "sorted_wrt string_less selected"
  shows "set topics = set selected \<union> pose_topics roots published \<and> sorted_wrt string_less topics"
  using assms
proof (induction roots published selected rule: select_published.induct)
  case (2 roots topic type rest selected)
  then show ?case
    by (auto simp: pose_topics_def list_ex_iff below_root_iff sorted_insert_topic split: if_splits)
qed (auto simp: pose_topics_def stdError_def)

text \<open>The topics of a source: those it names, and the published ones below its roots.\<close>

definition source_topics :: "snapshot_env \<Rightarrow> xmlrpc list \<Rightarrow> json \<Rightarrow> string list \<Rightarrow> bool" where
  "source_topics E published source topics \<longleftrightarrow>
     sorted_wrt string_less topics \<and>
     (\<exists>roots exact. graphNames E (json_get source ''roots'') = Inr roots \<and>
        graphNames E (json_get source ''topics'') = Inr exact \<and> (roots \<noteq> [] \<or> exact \<noteq> []) \<and>
        set topics = set exact \<union> pose_topics roots published)"

lemma select_topics_exact:
  assumes "select_topics E published source = Inr topics"
  shows "source_topics E published source topics"
proof -
  obtain roots exact where names: "graphNames E (json_get source ''roots'') = Inr roots"
      "graphNames E (json_get source ''topics'') = Inr exact" "roots \<noteq> [] \<or> exact \<noteq> []"
      "select_published roots published (fold insert_topic exact []) = Inr topics"
    using assms by (auto simp: select_topics_def bindE_eq_Inr stdError_def split: if_splits)
  from select_published_exact [OF names(4) sorted_insert_topics] names(1-3) show ?thesis
    by (auto simp: source_topics_def)
qed

lemma select_sources_exact:
  assumes "select_sources E published sources topics = Inr (sourceTopics, topics')"
    and "sorted_wrt string_less topics" and "length topics \<le> 256"
  shows "list_all2 (source_topics E published) sources sourceTopics \<and>
    set topics' = set topics \<union> \<Union> (set ` set sourceTopics) \<and> sorted_wrt string_less topics' \<and> length topics' \<le> 256"
  using assms
proof (induction sources arbitrary: topics sourceTopics)
  case Nil
  then show ?case by auto
next
  case (Cons source rest)
  obtain selected more where step: "select_topics E published source = Inr selected"
      "length (fold insert_topic selected topics) \<le> 256"
      "select_sources E published rest (fold insert_topic selected topics) = Inr (more, topics')"
      "sourceTopics = selected # more"
    using Cons.prems(1) by (auto simp: bindE_eq_Inr Let_def stdError_def split: if_splits)
  from Cons.IH [OF step(3) sorted_insert_topics [OF Cons.prems(2)] step(2)] select_topics_exact [OF step(1)] step(4)
  show ?case by auto
qed

section \<open>Lemmas on the samples\<close>

text \<open>The topic has delivered a message that makes this sample.\<close>

definition delivered :: "snapshot_env \<Rightarrow> string \<Rightarrow> json \<Rightarrow> bool" where
  "delivered E topic sample \<longleftrightarrow>
     (\<exists>t event. (topic, event) \<in> set (pe_poses E t) \<and> pose_sample topic event = Inr (Some sample))"

definition samples_ok :: "snapshot_env \<Rightarrow> string list \<Rightarrow> (string \<times> json) list \<Rightarrow> bool" where
  "samples_ok E topics samples \<longleftrightarrow>
     distinct (map fst samples) \<and> (\<forall>(topic, sample) \<in> set samples. topic \<in> set topics \<and> delivered E topic sample)"

lemma pose_callbacks_ok:
  assumes "pose_callbacks topics events samples = Inr samples'" and "samples_ok E topics samples"
    and "set events \<subseteq> set (pe_poses E t)"
  shows "samples_ok E topics samples'"
  using assms
proof (induction topics events samples rule: pose_callbacks.induct)
  case (2 topics topic event rest samples)
  obtain next_samples where step: "(if topic \<in> set topics then pose_callback topic event samples else Inr samples) = Inr next_samples"
      "pose_callbacks topics rest next_samples = Inr samples'"
    using "2.prems"(1) by (auto simp: bindE_eq_Inr)
  have new: "delivered E topic sample" if "pose_sample topic event = Inr (Some sample)" for sample
    using "2.prems"(3) that unfolding delivered_def by auto
  have "samples_ok E topics next_samples"
    using step(1) "2.prems"(2) new
    by (auto simp: pose_callback_def samples_ok_def map_of_eq_None_iff
        split: if_splits sum.splits option.splits)
  with "2.IH" [OF step] "2.prems"(3) show ?case by simp
qed simp

lemma gives_samples:
  "gives (iterP fuel (sample_round E topics deadline) []) (\<lambda>samples. samples_ok E topics samples \<and>
     (length topics \<le> length samples \<or> (\<exists>t. \<not> pe_ros_ok E t) \<or> (\<exists>t. deadline \<le> pe_now E t) \<or> (\<exists>t. pe_stopped E t)))"
proof (rule gives_iter [where I = "samples_ok E topics"])
  show "samples_ok E topics []" by (simp add: samples_ok_def)
next
  fix samples
  assume ok: "samples_ok E topics samples"
  have "gives (liftP (pose_callbacks topics (pe_poses E t) samples)) (samples_ok E topics)" for t
    using pose_callbacks_ok [OF _ ok] by (intro gives_lift) auto
  then show "gives (sample_round E topics deadline samples) (\<lambda>r. case r of Again samples \<Rightarrow> samples_ok E topics samples
      | Done samples \<Rightarrow> samples_ok E topics samples \<and>
     (length topics \<le> length samples \<or> (\<exists>t. \<not> pe_ros_ok E t) \<or> (\<exists>t. deadline \<le> pe_now E t) \<or> (\<exists>t. pe_stopped E t)))"
    unfolding sample_round_def
    by (intro gives_if gives_return gives_bind [OF gives_asked])
      (use ok in \<open>auto simp: not_less intro!: gives_return intro: gives_bind [of _ "samples_ok E topics"]\<close>)
qed

lemma always_sample_loop:
  assumes "clock_advances (pe_now E)"
  shows "always (\<lambda>n. iterP n (sample_round E topics deadline) samples)"
proof -
  obtain T where T: "\<forall>t \<ge> T. \<not> pe_now E t < deadline" using passed_deadline [OF assms, of deadline] by blast
  show ?thesis
  proof (rule always_loop [where T = T])
    fix a w
    show "\<exists>r w'. sample_round E topics deadline a w = Some (r, w') \<and>
      (\<forall>a'. r = Inr (Again a') \<longrightarrow> ptick w < ptick w' \<and> ptick w < T)"
      using T by (auto simp: sample_round_def askP_def prog_defs not_less split: sum.splits)
        (meson le_SucI not_le)+
  qed
qed

lemma always_poseSnapshot [always_intros]:
  assumes "clock_advances (pe_now E)"
  shows "always (\<lambda>n. poseSnapshot n E master deadline)"
proof -
  have array: "always (\<lambda>n. case published of XArray published \<Rightarrow> p n published | _ \<Rightarrow> liftP (stdError message))"
    if "\<And>published. always (\<lambda>n. p n published)" for published message and p :: "nat \<Rightarrow> xmlrpc list \<Rightarrow> (probe_world, json) prog"
    using that by (cases published) (simp_all add: always_simple)
  show ?thesis unfolding poseSnapshot_def by (intro always_intros array always_sample_loop assms)
qed

section \<open>Properties\<close>

text \<open>A request with samples: every source has the samples that its topics delivered.\<close>

definition snapshot_of :: "snapshot_env \<Rightarrow> string \<Rightarrow> int \<Rightarrow> json \<Rightarrow> bool" where
  "snapshot_of E master deadline v \<longleftrightarrow>
     (\<exists>request published sourceTopics samples.
        readSnapshotRequest E = Inr request \<and>
        answered E master ''getPublishedTopics'' (rpc_arguments ''/'') (XArray published) \<and>
        list_all2 (source_topics E published) (array_items (json_get request ''sources'')) sourceTopics \<and>
        card (\<Union> (set ` set sourceTopics)) \<le> 256 \<and>
        (\<forall>topic sample. samples topic = Some sample \<longrightarrow> delivered E topic sample) \<and>
        ((\<forall>topic \<in> \<Union> (set ` set sourceTopics). samples topic \<noteq> None) \<or>
         (\<exists>t. deadline \<le> pe_now E t \<or> \<not> pe_ros_ok E t \<or> pe_stopped E t)) \<and>
        v = json_set request ''sources'' (JArray (map2
          (\<lambda>source topics. json_set source ''samples'' (JArray (List.map_filter samples topics)))
          (array_items (json_get request ''sources'')) sourceTopics)))"

lemma sorted_distinct: "sorted_wrt string_less us \<Longrightarrow> distinct us"
proof (induction us)
  case (Cons u us)
  have "\<not> string_less u u" by (induction u) auto
  then show ?case using Cons by auto
qed simp

lemma samples_complete:
  assumes "samples_ok E topics samples" and "distinct topics" and "length topics \<le> length samples" and "topic \<in> set topics"
  shows "map_of samples topic \<noteq> None"
proof -
  have "card (fst ` set samples) = length samples"
    using assms(1) distinct_card [of "map fst samples"] by (simp add: samples_ok_def)
  moreover have "card (set topics) = length topics" using assms(2) by (rule distinct_card)
  moreover have "fst ` set samples \<subseteq> set topics" using assms(1) by (auto simp: samples_ok_def)
  ultimately have "fst ` set samples = set topics" using assms(3) by (intro card_seteq) auto
  then show ?thesis using assms(4) by (simp add: map_of_eq_None_iff)
qed

lemma snapshot_assembled:
  assumes "readSnapshotRequest E = Inr request"
    and "answered E master ''getPublishedTopics'' (rpc_arguments ''/'') (XArray published)"
    and "select_sources E published (array_items (json_get request ''sources'')) [] = Inr (sourceTopics, topics)"
    and "samples_ok E topics samples \<and>
     (length topics \<le> length samples \<or> (\<exists>t. \<not> pe_ros_ok E t) \<or> (\<exists>t. deadline \<le> pe_now E t) \<or> (\<exists>t. pe_stopped E t))"
  shows "snapshot_of E master deadline (json_set request ''sources''
     (JArray (map2 (fill_source samples) (array_items (json_get request ''sources'')) sourceTopics)))"
proof -
  note selected = select_sources_exact [OF assms(3)]
  then have topics: "list_all2 (source_topics E published) (array_items (json_get request ''sources'')) sourceTopics"
      "set topics = \<Union> (set ` set sourceTopics)" "distinct topics" "length topics \<le> 256"
    by (simp_all add: sorted_distinct)
  have few: "card (\<Union> (set ` set sourceTopics)) \<le> 256"
    using topics(2-4) distinct_card [OF topics(3)] by simp
  have sound: "\<forall>topic sample. map_of samples topic = Some sample \<longrightarrow> delivered E topic sample"
    using assms(4) by (auto simp: samples_ok_def dest!: map_of_SomeD)
  have complete: "(\<forall>topic \<in> \<Union> (set ` set sourceTopics). map_of samples topic \<noteq> None) \<or>
      (\<exists>t. deadline \<le> pe_now E t \<or> \<not> pe_ros_ok E t \<or> pe_stopped E t)"
    using assms(4) samples_complete [OF _ topics(3)] unfolding topics(2) [symmetric] by blast
  have fill: "fill_source samples = (\<lambda>source topics. json_set source ''samples'' (JArray (List.map_filter (map_of samples) topics)))"
    by (simp add: fun_eq_iff fill_source_def topic_samples_def)
  show ?thesis
    unfolding snapshot_of_def fill using assms(1,2) topics(1) few sound complete by blast
qed

lemma gives_poseSnapshot: "gives (poseSnapshot fuel E master deadline) (snapshot_of E master deadline)"
proof -
  have array: "gives (case v of XArray published \<Rightarrow> p published | _ \<Rightarrow> liftP (stdError message)) P"
    if "\<And>published. v = XArray published \<Longrightarrow> gives (p published) P"
    for v message P and p :: "xmlrpc list \<Rightarrow> (probe_world, json) prog"
    using that by (cases v) (auto intro: gives_lift simp: stdError_def)
  have pure: "gives (liftP r) (\<lambda>x. r = Inr x)" for r :: "'b result" by (rule gives_lift)
  show ?thesis
    unfolding poseSnapshot_def
    by (intro gives_bind [OF pure] gives_bind [OF gives_rpc_call] array gives_case_prod gives_bind [OF gives_samples]
        gives_bind [OF gives_asked] gives_if gives_return)
      (auto intro: snapshot_assembled gives_lift simp: stdError_def)
qed

end
