(* ===== verification/Probe_Main.thy ===== *)
theory Probe_Main
  imports Pose_Snapshot
begin

text \<open>
  The command line of the probe and its modes (\<^verbatim>\<open>main\<close> of \<^verbatim>\<open>probe_main.cpp\<close>), and what the exit
  code of the process says about the ROS graph.
\<close>

section \<open>Options\<close>

record probe_main_env = snapshot_env +
  pe_init :: "unit result"
  pe_write :: "json \<Rightarrow> string"

type_synonym options = "(string \<times> string) list"

text \<open>\<^verbatim>\<open>emplace\<close> into the map of options, ordered by name; \<open>None\<close> for a name that is there.\<close>

fun emplace :: "string \<Rightarrow> string \<Rightarrow> options \<Rightarrow> options option" where
  "emplace k v [] = Some [(k, v)]"
| "emplace k v ((k', v') # rest) =
     (if k = k' then None
      else if string_less k k' then Some ((k, v) # (k', v') # rest)
      else map_option ((#) (k', v')) (emplace k v rest))"

fun parse_options :: "string list \<Rightarrow> options \<Rightarrow> options result" where
  "parse_options [] opts = Inr opts"
| "parse_options [k] opts = stdError ''options must be unique name/value pairs''"
| "parse_options (k # v # rest) opts =
     (case emplace k v opts of
        None \<Rightarrow> stdError ''options must be unique name/value pairs''
      | Some opts \<Rightarrow> parse_options rest opts)"

definition known_options :: "string list" where
  "known_options =
     [''--mode'', ''--master-uri'', ''--node'', ''--topic'', ''--verify-address'', ''--timeout-ms'', ''--expected-type'']"

definition reject_options :: "options \<Rightarrow> unit result" where
  "reject_options opts =
     (case find (\<lambda>(k, v). k \<notin> set known_options) opts of
        Some (k, v) \<Rightarrow> stdError (''unknown option: '' @ k)
      | None \<Rightarrow> Inr ())"

definition option_value :: "options \<Rightarrow> string \<Rightarrow> string" where
  "option_value opts k = (case map_of opts k of None \<Rightarrow> [] | Some v \<Rightarrow> v)"

definition expected_type :: "options \<Rightarrow> string result" where
  "expected_type opts =
     (case map_of opts ''--expected-type'' of
        None \<Rightarrow> Inr []
      | Some t \<Rightarrow>
          if t = [] \<or> length t > 256 \<or>
             \<not> regex_match t (Seq identifier_regex (Seq (Literal ''/'') identifier_regex))
          then stdError ''expected type must use pkg/Type syntax'' else Inr t)"

definition timeout_ms :: "options \<Rightarrow> nat result" where
  "timeout_ms opts =
     (let timeout = (case map_of opts ''--timeout-ms'' of None \<Rightarrow> ''1000'' | Some t \<Rightarrow> t) in
      if timeout = [] \<or> \<not> list_all is_digit timeout then stdError ''timeout must be integer milliseconds''
      else case stoull timeout of
        Inl _ \<Rightarrow> stdError ''stoul''
      | Inr (ms, consumed) \<Rightarrow>
          if ms < 1 \<or> ms > 86400000 then stdError ''timeout must be 1..86400000 milliseconds'' else Inr ms)"

definition given_node :: "'e probe_env_scheme \<Rightarrow> options \<Rightarrow> string result" where
  "given_node E opts = (if option_value opts ''--node'' = [] then Inr [] else absoluteName E (option_value opts ''--node''))"

section \<open>Modes\<close>

definition print :: "string \<Rightarrow> (probe_world, unit) prog" where
  "print s = modifyP (\<lambda>w. w\<lparr>pstdout := pstdout w @ s\<rparr>)"

fun positive_pid :: "xmlrpc \<Rightarrow> int result" where
  "positive_pid (XInt pid) = (if pid \<le> 0 then stdError ''getPid did not return a positive PID'' else Inr pid)"
| "positive_pid _ = stdError ''getPid did not return a positive PID''"

text \<open>The process identifier of the master or of a node.\<close>

definition probe_pid :: "nat \<Rightarrow> 'e probe_env_scheme \<Rightarrow> string \<Rightarrow> string \<Rightarrow> string \<Rightarrow> int \<Rightarrow> (probe_world, int) prog" where
  "probe_pid fuel E mode master node deadline =
     (if mode = ''node'' \<and> node = [] then liftP (stdError ''node is required'')
      else
        bindP (if mode = ''master'' then returnP master else lookup fuel E master node deadline) (\<lambda>uri.
        bindP (rpc_call fuel E uri ''getPid'' (rpc_arguments []) deadline) (\<lambda>v.
        liftP (positive_pid v))))"

definition probe_topic ::
  "nat \<Rightarrow> 'e probe_env_scheme \<Rightarrow> string \<Rightarrow> string \<Rightarrow> string \<Rightarrow> string \<Rightarrow> string \<Rightarrow> int \<Rightarrow> (probe_world, unit) prog" where
  "probe_topic fuel E mode master node given expectedType deadline =
     bindP (liftP (absoluteName E given)) (\<lambda>topic.
       if mode = ''topic'' then topicRegistered fuel E master node topic deadline
       else await_message fuel E mode node expectedType topic deadline)"

definition probe_modes ::
  "nat \<Rightarrow> probe_main_env \<Rightarrow> options \<Rightarrow> string \<Rightarrow> int \<Rightarrow> string \<Rightarrow> (probe_world, int) prog" where
  "probe_modes fuel E opts expectedType deadline node =
     (let mode = option_value opts ''--mode''; master = option_value opts ''--master-uri'' in
      if mode = ''pose-snapshot'' then
        bindP (poseSnapshot fuel (snapshot_env.truncate E) master deadline) (\<lambda>v.
        thenP (print (pe_write E v @ ''\<newline>'')) (returnP 0))
      else
        bindP
          (if mode = ''master'' \<or> mode = ''node'' then probe_pid fuel E mode master node deadline
           else if mode = ''topic'' \<or> mode = ''message'' \<or> mode = ''mavros-connected''
           then thenP (probe_topic fuel E mode master node (option_value opts ''--topic'') expectedType deadline) (returnP 0)
           else liftP (stdError ''unsupported probe mode'')) (\<lambda>pid.
        thenP (verifyTCP fuel E (option_value opts ''--verify-address'') deadline)
        (thenP (if pid \<noteq> 0 then print (int_to_string pid @ ''\<newline>'') else returnP ())
          (returnP 0))))"

definition probe_run :: "nat \<Rightarrow> probe_main_env \<Rightarrow> string list \<Rightarrow> (probe_world, int) prog" where
  "probe_run fuel E argv =
     bindP (liftP (parse_options (drop 1 argv) [])) (\<lambda>opts.
     thenP (liftP (reject_options opts))
     (if option_value opts ''--master-uri'' = [] then liftP (stdError ''master URI is required'')
      else
        bindP (liftP (expected_type opts)) (\<lambda>expectedType.
        bindP (liftP (timeout_ms opts)) (\<lambda>ms.
        bindP (askP (pe_now E)) (\<lambda>now.
        bindP (liftP (given_node E opts)) (\<lambda>node.
        thenP (liftP (pe_init E))
          (probe_modes fuel E opts expectedType (now + int ms * 1000000) node)))))))"

definition probe_main :: "nat \<Rightarrow> probe_main_env \<Rightarrow> string list \<Rightarrow> (probe_world, int) prog" where
  "probe_main fuel E argv =
     catchP (probe_run fuel E argv)
       (\<lambda>e. if e = UnknownException then liftP (Inl e)
            else bindP (askP (pe_stopped E)) (\<lambda>stopped. returnP (if stopped then 130 else 1)))"

section \<open>What success means\<close>

text \<open>What a process of the given mode found out, with the process identifier it prints, or zero.\<close>

definition found ::
  "'e probe_env_scheme \<Rightarrow> string \<Rightarrow> string \<Rightarrow> string \<Rightarrow> string \<Rightarrow> string \<Rightarrow> int \<Rightarrow> bool" where
  "found E mode master node given expectedType pid \<longleftrightarrow>
     (mode = ''master'' \<and> 0 < pid \<and> answered E master ''getPid'' (rpc_arguments []) (XInt pid)) \<or>
     (mode = ''node'' \<and> 0 < pid \<and> node \<noteq> [] \<and>
       (\<exists>uri. answered E master ''lookupNode'' (rpc_arguments node) (XString uri) \<and>
          answered E uri ''getPid'' (rpc_arguments []) (XInt pid))) \<or>
     (mode = ''topic'' \<and> pid = 0 \<and> (\<exists>topic. absoluteName E given = Inr topic \<and> registered E master node topic)) \<or>
     (mode \<in> {''message'', ''mavros-connected''} \<and> pid = 0 \<and>
       (\<exists>topic. absoluteName E given = Inr topic \<and> message_seen E mode node expectedType topic))"

lemma gives_positive_pid: "gives (liftP (positive_pid v)) (\<lambda>pid. 0 < pid \<and> v = XInt pid)"
  by (cases v) (auto intro!: gives_lift simp: stdError_def split: if_splits)

lemma gives_probe_pid:
  assumes "mode = ''master'' \<or> mode = ''node''"
  shows "gives (probe_pid fuel E mode master node deadline) (found E mode master node given expectedType)"
proof (cases "mode = ''master''")
  case True
  then show ?thesis
    unfolding probe_pid_def
    by (auto intro!: gives_bind [OF gives_return [of "\<lambda>uri. uri = master"]] gives_bind [OF gives_rpc_call]
        gives_mono [OF gives_positive_pid] simp: found_def)
next
  case False
  then show ?thesis
    using assms unfolding probe_pid_def
    by (auto intro!: gives_bind [OF gives_lookup] gives_bind [OF gives_rpc_call] gives_lift
        gives_mono [OF gives_positive_pid] simp: found_def stdError_def)
qed

lemma gives_probe_topic:
  assumes "mode = ''topic'' \<or> mode = ''message'' \<or> mode = ''mavros-connected''"
  shows "gives (thenP (probe_topic fuel E mode master node given expectedType deadline) (returnP 0))
    (found E mode master node given expectedType)"
proof -
  have "gives (probe_topic fuel E mode master node given expectedType deadline)
      (\<lambda>_. found E mode master node given expectedType 0)"
    unfolding probe_topic_def
    by (rule gives_bind [OF gives_lift [where P = "\<lambda>topic. absoluteName E given = Inr topic"]])
      (use assms in \<open>auto simp: found_def intro!: gives_mono [OF gives_topicRegistered] gives_mono [OF gives_await_message]\<close>)
  then show ?thesis unfolding thenP_def by (rule gives_bind) (rule gives_return)
qed

text \<open>The text a successful probe leaves on standard output, and what it stands for.\<close>

definition probe_shows :: "probe_main_env \<Rightarrow> options \<Rightarrow> string \<Rightarrow> string \<Rightarrow> int \<Rightarrow> string \<Rightarrow> bool" where
  "probe_shows E opts expectedType node deadline out \<longleftrightarrow>
     (let mode = option_value opts ''--mode''; master = option_value opts ''--master-uri'';
          address = option_value opts ''--verify-address'' in
      (mode = ''pose-snapshot'' \<and>
        (\<exists>v. snapshot_of (snapshot_env.truncate E) master deadline v \<and> out = pe_write E v @ ''\<newline>'')) \<or>
      ((address = [] \<or> listening E address) \<and>
        (\<exists>pid. found E mode master node (option_value opts ''--topic'') expectedType pid \<and>
           out = (if pid = 0 then [] else int_to_string pid @ ''\<newline>''))))"

lemma wp_gives:
  assumes "gives m P" and "\<And>x w'. P x \<Longrightarrow> pstdout w' = pstdout w \<Longrightarrow> Q x w'"
  shows "wp m Q (\<lambda>_ _. True) w"
  by (rule wp_mono [OF spec [OF assms(1) [unfolded gives_def]]]) (simp_all add: assms(2))

lemma probe_modes_vc:
  "wp (probe_modes fuel E opts expectedType deadline node)
     (\<lambda>code w'. code = 0 \<and> (\<exists>out. pstdout w' = pstdout w @ out \<and> probe_shows E opts expectedType node deadline out))
     (\<lambda>_ _. True) w"
proof -
  define mode where "mode = option_value opts ''--mode''"
  define master where "master = option_value opts ''--master-uri''"
  define address where "address = option_value opts ''--verify-address''"
  define topic where "topic = option_value opts ''--topic''"
  note names = mode_def [symmetric] master_def [symmetric] address_def [symmetric] topic_def [symmetric]
  define ask where "ask = (if mode = ''master'' \<or> mode = ''node'' then probe_pid fuel E mode master node deadline
    else if mode = ''topic'' \<or> mode = ''message'' \<or> mode = ''mavros-connected''
    then thenP (probe_topic fuel E mode master node topic expectedType deadline) (returnP 0)
    else liftP (stdError ''unsupported probe mode''))"
  have asked: "gives ask (found E mode master node topic expectedType)"
    unfolding ask_def
    by (intro gives_if gives_probe_pid gives_probe_topic gives_lift) (auto simp: stdError_def)
  show ?thesis
  proof (cases "mode = ''pose-snapshot''")
    case True
    have shown: "probe_shows E opts expectedType node deadline (pe_write E v @ ''\<newline>'')"
      if "snapshot_of (snapshot_env.truncate E) master deadline v" for v
      unfolding probe_shows_def Let_def names using True that by blast
    show ?thesis
      unfolding probe_modes_def Let_def names if_P [OF True] wp_bind
      by (rule wp_gives [OF gives_poseSnapshot]) (simp add: wp_then wp_return print_def wp_modify shown)
  next
    case False
    have shown: "probe_shows E opts expectedType node deadline (if pid = 0 then [] else int_to_string pid @ ''\<newline>'')"
      if "found E mode master node topic expectedType pid" "address = [] \<or> listening E address" for pid
      unfolding probe_shows_def Let_def names using that by blast
    have rest: "wp (thenP (verifyTCP fuel E address deadline)
        (thenP (if pid \<noteq> 0 then print (int_to_string pid @ ''\<newline>'') else returnP ()) (returnP 0)))
        (\<lambda>code w'. code = 0 \<and> (\<exists>out. pstdout w' = pstdout w @ out \<and> probe_shows E opts expectedType node deadline out))
        (\<lambda>_ _. True) w1"
      if "found E mode master node topic expectedType pid" "pstdout w1 = pstdout w" for pid w1
      unfolding wp_then
      by (rule wp_gives [OF gives_verifyTCP])
        (use shown [OF that(1)] that(2) in \<open>auto simp: wp_if wp_return print_def wp_modify split: if_splits\<close>)
    show ?thesis
      unfolding probe_modes_def Let_def names if_not_P [OF False] ask_def [symmetric] wp_bind
      by (rule wp_gives [OF asked rest])
  qed
qed

text \<open>The command line of a successful probe.\<close>

definition probe_options ::
  "probe_main_env \<Rightarrow> string list \<Rightarrow> options \<Rightarrow> string \<Rightarrow> nat \<Rightarrow> string \<Rightarrow> bool" where
  "probe_options E argv opts expectedType ms node \<longleftrightarrow>
     parse_options (drop 1 argv) [] = Inr opts \<and> reject_options opts = Inr () \<and>
     option_value opts ''--master-uri'' \<noteq> [] \<and> expected_type opts = Inr expectedType \<and>
     timeout_ms opts = Inr ms \<and> given_node E opts = Inr node"

definition probed :: "probe_main_env \<Rightarrow> string list \<Rightarrow> probe_world \<Rightarrow> probe_world \<Rightarrow> bool" where
  "probed E argv w w' \<longleftrightarrow>
     (\<exists>opts expectedType ms node t out. probe_options E argv opts expectedType ms node \<and>
        pstdout w' = pstdout w @ out \<and> probe_shows E opts expectedType node (pe_now E t + int ms * 1000000) out)"

lemma probe_run_vc:
  "wp (probe_run fuel E argv) (\<lambda>code w'. code = 0 \<and> probed E argv w w') (\<lambda>_ _. True) w"
proof -
  have modes: "wp (probe_modes fuel E opts expectedType (pe_now E t + int ms * 1000000) node)
      (\<lambda>code w'. code = 0 \<and> probed E argv w w') (\<lambda>_ _. True) w1"
    if "probe_options E argv opts expectedType ms node" "pstdout w1 = pstdout w" for opts expectedType ms node t w1
    by (rule wp_mono [OF probe_modes_vc], unfold that(2) probed_def) (use that(1) in blast)+
  show ?thesis
    unfolding probe_run_def
    by (auto simp: wp_bind wp_then wp_lift wp_if wp_ask probe_options_def stdError_def intro!: modes split: sum.split)
qed


section \<open>Properties\<close>

text \<open>
  C31. A probe that ends with exit code 0 has found what its mode asks for. Its options were
  well-formed, and: in the modes \<^verbatim>\<open>master\<close> and \<^verbatim>\<open>node\<close> the master, or the node that the master
  located, told the positive process identifier that is all the probe has printed; in the mode
  \<^verbatim>\<open>topic\<close> the given node serves the topic over TCPROS, or the master knows a publisher; in
  the message modes a message of the expected type arrived on the topic, from the given node
  if there is one, and a MAVROS state said that it is connected; in all of these something
  accepts connections at the address to verify, if one is given; and a pose snapshot was
  printed as requested.
\<close>

theorem probe_success:
  assumes "probe_main fuel E argv w = Some (Inr 0, w')"
  shows "\<exists>opts expectedType ms node t out. probe_options E argv opts expectedType ms node \<and>
    pstdout w' = pstdout w @ out \<and>
    probe_shows E opts expectedType node (pe_now E t + int ms * 1000000) out"
proof -
  have "wp (probe_main fuel E argv)
    (\<lambda>code w'. code = 0 \<longrightarrow> probed E argv w w') (\<lambda>_ _. True) w"
    unfolding probe_main_def wp_catch
    by (rule wp_mono [OF probe_run_vc]) (auto simp: wp_simps)
  from wp_Inr [OF this assms] show ?thesis by (simp add: probed_def)
qed



section \<open>Examples\<close>

text \<open>A master with the process identifier 42 and one robot that publishes its pose.\<close>

definition sample_pose :: pose_event where
  "sample_pose =
     \<lparr>po_type = ''geometry_msgs/PoseStamped'',
      po_message = Inr \<lparr>po_frame_id = Inr ''map'', po_stamp = Inr (86400, 5),
        po_number = (\<lambda>part axis. Inr (if axis = ''w'' then Fp False 1023 0 else double_zero))\<rparr>,
      po_observed = (86401, 0)\<rparr>"

definition sample_request :: json where
  "sample_request =
     JObject [(''experimentCommitId'', JString ''c''), (''sessionId'', JString ''s''),
       (''sources'', JArray [JObject [(''instanceId'', JString ''robot''), (''roots'', JArray [JString ''/robot'']),
          (''topics'', JArray [])]])]"

definition sample_probe_env :: probe_main_env where
  "sample_probe_env =
     \<lparr>pe_stopped = (\<lambda>t. False), pe_now = int, pe_splitURI = (\<lambda>uri. Some (''localhost'', 11311)),
      pe_execute = (\<lambda>rpc t. True),
      pe_done = (\<lambda>(host, port, method, args) t. Some (False, XArray [XInt 1, XString [],
        if method = ''getPid'' then XInt 42
        else XArray [XArray [XString ''/robot/pose'', XString ''geometry_msgs/PoseStamped'']]])),
      pe_valid_name = (\<lambda>name. True), pe_connect = (\<lambda>host port t. Some None), pe_ros_ok = (\<lambda>t. True),
      pe_events = (\<lambda>topic t. []), pe_stdin = ''request'', pe_parse = (\<lambda>text. Some sample_request),
      pe_numbers = jsoncpp_reference, pe_poses = (\<lambda>t. [(''/robot/pose'', sample_pose)]),
      pe_init = Inr (), pe_write = (\<lambda>v. ''{}'')\<rparr>"

definition sample_probe_world :: probe_world where
  "sample_probe_world = \<lparr>ptick = 0, pcalls = [], pstdout = []\<rparr>"

definition sample_probe_argv :: "string list" where
  "sample_probe_argv =
     [''probe'', ''--mode'', ''master'', ''--master-uri'', ''http://localhost:11311'', ''--verify-address'', '':80'']"





definition sample_opts :: options where
  "sample_opts = [(''--master-uri'', ''http://localhost:11311''), (''--mode'', ''master''), (''--verify-address'', '':80'')]"

lemma sample_parsed: "parse_options (drop (Suc 0) sample_probe_argv) [] = Inr sample_opts"
  by code_simp

lemma sample_checked:
  "reject_options sample_opts = Inr ()" "expected_type sample_opts = Inr []" "timeout_ms sample_opts = Inr 1000"
  "given_node sample_probe_env sample_opts = Inr []" "split_address '':80'' = Inr (''127.0.0.1'', ''80'')"
  "option_value sample_opts ''--mode'' = ''master''" "option_value sample_opts ''--verify-address'' = '':80''"
  "option_value sample_opts ''--master-uri'' = ''http://localhost:11311''"
proof -
  show "given_node sample_probe_env sample_opts = Inr []" by (simp add: given_node_def option_value_def sample_opts_def)
  show "timeout_ms sample_opts = Inr 1000"
    by (simp add: timeout_ms_def sample_opts_def stoull_def scan_integer_def is_digit_def is_space_def digits_val_def
        digit_val_def Let_def)
qed (simp_all add: reject_options_def known_options_def sample_opts_def expected_type_def option_value_def split_address_def
    Let_def)

text \<open>Runs in an environment that answers at once.\<close>

lemma prompt_deadline:
  assumes "pe_stopped E = (\<lambda>t. False)" and "pe_now E = int" and "int (ptick w) + 1 < deadline"
  shows "checkDeadline E deadline w = Some (Inr (), w\<lparr>ptick := ptick w + 2\<rparr>)"
  using assms by (simp add: checkDeadline_def askP_def prog_defs)

lemma prompt_call:
  assumes "pe_stopped E = (\<lambda>t. False)" and "pe_now E = int" and "int (ptick w) + 3 < deadline"
    and "pe_splitURI E uri = Some (host, port)" and "0 < port" and "port \<le> 65535"
    and "pe_execute E = (\<lambda>rpc t. True)" and "\<And>t. pe_done E (host, port, method, args) t = Some reply" and "rpc_value reply = Some v"
  shows "rpc_call (Suc n) E uri method args deadline w =
    Some (Inr v, w\<lparr>ptick := ptick w + 4, pcalls := pcalls w @ [(host, port, method, args)]\<rparr>)"
proof -
  have "iterP (Suc n) (await_answer E (host, port, method, args) deadline) () =
      (\<lambda>w. Some (Inr reply, w\<lparr>ptick := Suc (ptick w)\<rparr>))"
    using assms(8) by (simp add: fun_eq_iff await_answer_def askP_def prog_defs)
  then show ?thesis
    unfolding rpc_call_def using assms(3-7,9)
    by (simp add: Let_def askP_def bindP_def thenP_def modifyP_def prompt_deadline [OF assms(1,2)] returnP_def
        del: iterP.simps)
qed

lemma sample_answers:
  "pe_stopped sample_probe_env = (\<lambda>t. False)" "pe_now sample_probe_env = int"
  "pe_splitURI sample_probe_env = (\<lambda>uri. Some (''localhost'', 11311))" "pe_execute sample_probe_env = (\<lambda>rpc t. True)"
  "pe_done sample_probe_env (host, port, ''getPid'', args) t = Some (False, XArray [XInt 1, XString [], XInt 42])"
  "pe_connect sample_probe_env = (\<lambda>host port t. Some None)" "pe_init sample_probe_env = Inr ()"
  by (simp_all add: sample_probe_env_def)

lemma sample_probed:
  "\<exists>w'. probe_main 1 sample_probe_env sample_probe_argv sample_probe_world = Some (Inr 0, w') \<and> pstdout w' = ''42\<newline>''"
proof -
  have digits: "int_to_string 42 = ''42''" by code_simp
  have call: "rpc_call (Suc 0) sample_probe_env uri ''getPid'' args 1000000000 w =
      Some (Inr (XInt 42), w\<lparr>ptick := ptick w + 4, pcalls := pcalls w @ [(''localhost'', 11311, ''getPid'', args)]\<rparr>)"
    if "ptick w \<le> 100" for uri args w
    using that
    by (intro prompt_call [where reply = "(False, XArray [XInt 1, XString [], XInt 42])"]) (simp_all add: sample_answers)
  have "iterP (Suc 0) (await_connection sample_probe_env host port 1000000000) () w =
      Some (Inr None, w\<lparr>ptick := ptick w + 3\<rparr>)" if "ptick w \<le> 100" for host port w
    using that prompt_deadline [OF sample_answers(1,2), of w 1000000000]
    by (simp add: await_connection_def bindP_def thenP_def askP_def returnP_def sample_answers)
  then have tcp: "verifyTCP (Suc 0) sample_probe_env '':80'' 1000000000 w = Some (Inr (), w\<lparr>ptick := ptick w + 3\<rparr>)"
    if "ptick w \<le> 100" for w
    using that by (simp add: verifyTCP_def sample_checked bindP_def liftP_def returnP_def del: iterP.simps)
  have start: "ptick sample_probe_world = 0" "pstdout sample_probe_world = []" by (simp_all add: sample_probe_world_def)
  show ?thesis
    by (simp add: probe_main_def probe_run_def sample_parsed sample_checked sample_answers(2,7) probe_modes_def probe_pid_def
        call tcp digits print_def askP_def prog_defs start)
qed

theorem probe_success_witness:
  "\<exists>w' opts. probe_main 1 sample_probe_env sample_probe_argv sample_probe_world = Some (Inr 0, w') \<and>
     pstdout w' = ''42\<newline>'' \<and> (\<exists>expectedType ms node t.
       probe_options sample_probe_env sample_probe_argv opts expectedType ms node \<and>
       probe_shows sample_probe_env opts expectedType node (pe_now sample_probe_env t + int ms * 1000000) ''42\<newline>'')"
proof -
  obtain w' where run: "probe_main 1 sample_probe_env sample_probe_argv sample_probe_world = Some (Inr 0, w')"
      "pstdout w' = ''42\<newline>''" using sample_probed by blast
  have "pstdout sample_probe_world = []" by (simp add: sample_probe_world_def)
  with probe_success [OF run(1)] run(2) obtain opts expectedType ms node t where
    "probe_options sample_probe_env sample_probe_argv opts expectedType ms node"
    "probe_shows sample_probe_env opts expectedType node (pe_now sample_probe_env t + int ms * 1000000) ''42\<newline>''"
    by (simp only: append_Nil) blast
  with run show ?thesis by blast
qed








end
