(* ===== verification/Service_Termination.thy ===== *)
theory Service_Termination
  imports Service_Progress
begin

text \<open>
  Every service call returns: each loop of the invoker looks, in every round, at a clock or a
  flag that ends it once the deadline has passed or the call is cancelled for good; the loops
  on shared counters and on interrupted system calls end when the interference does.
\<close>

section \<open>When the call has to stop\<close>

definition stopped_from :: "invoker_env \<Rightarrow> service_call_request \<Rightarrow> nat \<Rightarrow> bool" where
  "stopped_from E request T \<longleftrightarrow>
     (sr_has_cancellation request \<and> (\<forall>t \<ge> T. ie_cancelled E t)) \<or>
     (0 < sr_deadline_unix_nanos request \<and> (\<forall>t \<ge> T. sr_deadline_unix_nanos request \<le> ie_system_now E t))"

definition quiet_from :: "invoker_env \<Rightarrow> nat \<Rightarrow> bool" where
  "quiet_from E T \<longleftrightarrow>
     (\<forall>t \<ge> T. ie_others E t = [] \<and> \<not> ie_spurious E t \<and> \<not> ie_interrupted E t \<and> ie_ids E t = 0)"

text \<open>A step that always returns and lets the observations go on.\<close>

definition ticks :: "('z sock_world_scheme, 'a) prog \<Rightarrow> bool" where
  "ticks m \<longleftrightarrow> (\<forall>w. \<exists>r w'. m w = Some (r, w') \<and> stick w \<le> stick w')"

lemma ticksI: "(\<And>w. \<exists>r w'. m w = Some (r, w') \<and> stick w \<le> stick w') \<Longrightarrow> ticks m"
  by (simp add: ticks_def)

lemma ticks_bind:
  assumes "ticks m" and "\<And>x. ticks (f x)"
  shows "ticks (bindP m f)"
proof (rule ticksI)
  fix w
  obtain r v where m: "m w = Some (r, v)" "stick w \<le> stick v" using assms(1) unfolding ticks_def by blast
  show "\<exists>r w'. bindP m f w = Some (r, w') \<and> stick w \<le> stick w'"
  proof (cases r)
    case (Inr x)
    obtain r' u where "f x v = Some (r', u)" "stick v \<le> stick u" using assms(2) unfolding ticks_def by blast
    then show ?thesis using m Inr by (auto simp: bindP_def)
  qed (use m in \<open>auto simp: bindP_def\<close>)
qed

lemma ticks_simple: "ticks (returnP x)" "ticks (liftP r)" "ticks (lookP f)" "ticks (getP g)"
  by (auto simp: ticks_def prog_defs lookP_def)

lemma ticks_modify: "(\<And>w. stick (g w) = stick w) \<Longrightarrow> ticks (modifyP g)"
  by (simp add: ticks_def modifyP_def)

lemma ticks_then: "ticks m \<Longrightarrow> ticks n \<Longrightarrow> ticks (thenP m n)"
  unfolding thenP_def by (rule ticks_bind)

lemma ticks_if: "ticks m \<Longrightarrow> ticks n \<Longrightarrow> ticks (if b then m else n)"
  by simp

lemmas ticks_rules = ticks_bind ticks_then ticks_if ticks_simple ticks_modify

lemma ticks_io: "ticks (recvP E n)" "ticks (sendP E d)" "ticks (pollP E)"
  by (auto simp: ticks_def recvP_def sendP_def pollP_def lookP_def Let_def split: recv_answer.splits send_answer.splits)

lemma ticks_returns: "ticks m \<Longrightarrow> returns (\<lambda>n. m) w"
  unfolding ticks_def returns_def by blast

lemma ticks_checks:
  "ticks (cancellationRequested E request)" "ticks (deadlineExpired E d)" "ticks (requirePreDispatchAllowed E request)"
  "ticks (pre_commit_stop E request d)" "ticks (post_commit_stop E request d d')" "ticks (pollTimeout E d)"
  "ticks (poll_for E d)" "ticks (runtimeDeadline E d)"
  unfolding cancellationRequested_def deadlineExpired_def requirePreDispatchAllowed_def pre_commit_stop_def
    post_commit_stop_def pollTimeout_def poll_for_def runtimeDeadline_def
  by (intro ticks_rules ticks_io; simp)+

text \<open>After the call has to stop, no check lets it go on.\<close>

lemma stopped_at:
  assumes "stopped_from E request T" and "T \<le> t"
  shows "(sr_has_cancellation request \<and> ie_cancelled E t) \<or>
    (0 < sr_deadline_unix_nanos request \<and> sr_deadline_unix_nanos request \<le> ie_system_now E t \<and>
     sr_deadline_unix_nanos request \<le> ie_system_now E (Suc t) \<and>
     sr_deadline_unix_nanos request \<le> ie_system_now E (Suc (Suc t)))"
  using assms by (auto simp: stopped_from_def)

lemma pre_stop_run:
  assumes "stopped_from E request T"
  shows "\<exists>r w'. pre_commit_stop E request d w = Some (Inr r, w') \<and> (r = None \<longrightarrow> stick w < T \<and> stick w < stick w')"
proof (cases "stick w < T")
  case True
  then show ?thesis
    by (auto simp: pre_commit_stop_def cancellationRequested_def deadlineExpired_def prog_defs lookP_def)
next
  case False
  then show ?thesis using stopped_at [OF assms, of "stick w"]
    by (auto simp: pre_commit_stop_def cancellationRequested_def deadlineExpired_def prog_defs lookP_def)
qed

lemma post_stop_run:
  assumes "stopped_from E request T"
  shows "\<exists>r w'. post_commit_stop E request d d' w = Some (Inr r, w') \<and> (r = None \<longrightarrow> stick w < T \<and> stick w < stick w')"
proof (cases "stick w < T")
  case True
  then show ?thesis
    by (auto simp: post_commit_stop_def cancellationRequested_def deadlineExpired_def prog_defs lookP_def)
next
  case False
  then show ?thesis using stopped_at [OF assms, of "stick w"]
    by (auto simp: post_commit_stop_def cancellationRequested_def deadlineExpired_def prog_defs lookP_def)
qed

section \<open>The loops on the socket\<close>

text \<open>A program that, when it returns, has let the observations go on.\<close>

definition forward :: "('z sock_world_scheme, 'a) prog \<Rightarrow> bool" where
  "forward m \<longleftrightarrow> (\<forall>w r w'. m w = Some (r, w') \<longrightarrow> stick w \<le> stick w')"

lemma forward_ticks: "ticks m \<Longrightarrow> forward m"
  unfolding ticks_def forward_def by (metis option.inject prod.inject)

lemma forward_bind:
  assumes "forward m" and "\<And>x. forward (f x)"
  shows "forward (bindP m f)"
  unfolding forward_def
proof (intro allI impI)
  fix w r w'
  assume "bindP m f w = Some (r, w')"
  then obtain s v where m: "m w = Some (s, v)" "case s of Inl e \<Rightarrow> w' = v | Inr x \<Rightarrow> f x v = Some (r, w')"
    by (auto simp: bindP_def split: option.splits sum.splits)
  have "stick w \<le> stick v" using assms(1) m(1) unfolding forward_def by blast
  moreover have "stick v \<le> stick w'"
    using m(2) assms(2) unfolding forward_def by (cases s) auto
  ultimately show "stick w \<le> stick w'" by simp
qed

lemma forward_iter: "(\<And>a. forward (f a)) \<Longrightarrow> forward (iterP n f a)"
proof (induction n arbitrary: a)
  case 0
  then show ?case by (simp add: forward_def)
next
  case (Suc n)
  have "forward (case r of Again a' \<Rightarrow> iterP n f a' | Done b \<Rightarrow> returnP b)" for r
    using Suc by (cases r) (auto intro: forward_ticks ticks_simple)
  then show ?case using Suc.prems by (auto intro: forward_bind)
qed

text \<open>
  Programs that return from every state within enough rounds, keep their result with more, and
  let the observations go on. Everything the invoker is built from has this property.
\<close>

definition paced :: "(nat \<Rightarrow> ('z sock_world_scheme, 'a) prog) \<Rightarrow> bool" where
  "paced p \<longleftrightarrow> mono_fuel p \<and> (\<forall>w. returns p w) \<and> (\<forall>n. forward (p n))"

named_theorems paced_intros

lemma paced_ticks: "ticks m \<Longrightarrow> paced (\<lambda>n. m)"
  by (simp add: paced_def mono_const ticks_returns forward_ticks)

lemma paced_simple [paced_intros]:
  "paced (\<lambda>n. returnP x)" "paced (\<lambda>n. liftP r)" "paced (\<lambda>n. lookP f)" "paced (\<lambda>n. getP g)"
  by (simp_all add: paced_ticks ticks_simple)

lemma paced_checks [paced_intros]:
  "paced (\<lambda>n. requirePreDispatchAllowed E request)" "paced (\<lambda>n. pre_commit_stop E request d)"
  "paced (\<lambda>n. post_commit_stop E request d d')" "paced (\<lambda>n. poll_for E d)" "paced (\<lambda>n. runtimeDeadline E d)"
  "paced (\<lambda>n. recvP E k)" "paced (\<lambda>n. sendP E data)"
  by (intro paced_ticks ticks_checks ticks_io)+

lemma paced_bind [paced_intros]:
  assumes "paced p" and "\<And>x. paced (\<lambda>n. q n x)"
  shows "paced (\<lambda>n. bindP (p n) (q n))"
proof -
  have "returns (\<lambda>n. bindP (p n) (q n)) w" for w
    by (rule returns_bind) (use assms in \<open>auto simp: paced_def\<close>)
  then show ?thesis using assms by (auto simp: paced_def intro: mono_bind forward_bind)
qed

lemma paced_then [paced_intros]: "paced p \<Longrightarrow> paced q \<Longrightarrow> paced (\<lambda>n. thenP (p n) (q n))"
  unfolding thenP_def by (rule paced_bind)

lemma paced_if [paced_intros]: "paced p \<Longrightarrow> paced q \<Longrightarrow> paced (\<lambda>n. if b then p n else q n)"
  by (cases b) simp_all

lemma paced_option [paced_intros]:
  "paced p \<Longrightarrow> (\<And>a. paced (\<lambda>n. f n a)) \<Longrightarrow> paced (\<lambda>n. case x of None \<Rightarrow> p n | Some a \<Rightarrow> f n a)"
  by (cases x) simp_all

lemma paced_sum [paced_intros]:
  "(\<And>a. paced (\<lambda>n. g n a)) \<Longrightarrow> (\<And>a. paced (\<lambda>n. f n a)) \<Longrightarrow> paced (\<lambda>n. case x of Inl a \<Rightarrow> g n a | Inr a \<Rightarrow> f n a)"
  by (cases x) simp_all

lemma paced_prod [paced_intros]: "(\<And>a b. paced (\<lambda>n. f n a b)) \<Longrightarrow> paced (\<lambda>n. case x of (a, b) \<Rightarrow> f n a b)"
  by (cases x) simp

lemma paced_send [paced_intros]:
  assumes "\<And>k. paced (\<lambda>n. f n k)" and "paced a" and "paced b" and "paced c" and "\<And>r. paced (\<lambda>n. g n r)"
  shows "paced (\<lambda>n. case x of Sent k \<Rightarrow> f n k | SentNothing \<Rightarrow> a n | SendEintr \<Rightarrow> b n | SendEagain \<Rightarrow> c n | SendFailed r \<Rightarrow> g n r)"
  using assms by (cases x) simp_all

lemma paced_recv [paced_intros]:
  assumes "\<And>k. paced (\<lambda>n. f n k)" and "paced a" and "paced b" and "paced c" and "\<And>r. paced (\<lambda>n. g n r)"
  shows "paced (\<lambda>n. case x of Received k \<Rightarrow> f n k | RecvEof \<Rightarrow> a n | RecvEintr \<Rightarrow> b n | RecvEagain \<Rightarrow> c n | RecvFailed r \<Rightarrow> g n r)"
  using assms by (cases x) simp_all

lemma paced_catch [paced_intros]:
  assumes "paced p" and "\<And>x. paced (\<lambda>n. h n x)"
  shows "paced (\<lambda>n. catchP (p n) (h n))"
proof -
  have "returns (\<lambda>n. catchP (p n) (h n)) w" for w
    by (rule returns_catch) (use assms in \<open>auto simp: paced_def\<close>)
  moreover have "forward (catchP (p n) (h n))" for n
    using assms unfolding paced_def forward_def catchP_def
    by (auto split: option.splits sum.splits) (meson order_trans)+
  ultimately show ?thesis using assms by (auto simp: paced_def intro: mono_catch)
qed

lemma paced_finally [paced_intros]:
  assumes "paced p" and "paced d"
  shows "paced (\<lambda>n. finallyP (p n) (d n))"
proof -
  have "returns (\<lambda>n. finallyP (p n) (d n)) w" for w
    by (rule returns_finally) (use assms in \<open>auto simp: paced_def\<close>)
  moreover have "forward (finallyP (p n) (d n))" for n
    using assms unfolding paced_def forward_def finallyP_def
    by (auto split: option.splits) (meson order_trans)+
  ultimately show ?thesis using assms by (auto simp: paced_def intro: mono_finally)
qed

text \<open>
  A loop of paced rounds that go round again only before a bound ends; a round that starts
  with one of the checks is of this kind, whatever it does afterwards.
\<close>

lemma paced_iter:
  assumes body: "\<And>a. paced (\<lambda>n. f n a)"
    and again: "\<And>n a w a' w'. f n a w = Some (Inr (Again a'), w') \<Longrightarrow> stick w < T \<and> stick w < stick w'"
  shows "paced (\<lambda>n. iterP n (f n) a)"
proof -
  have mono: "mono_fuel (\<lambda>n. f n a)" for a using body unfolding paced_def by blast
  have "returns (\<lambda>n. iterP n (f n) a) w" for w
  proof (rule returns_iter_nested [where I = "\<lambda>_ _. True" and measure_of = "\<lambda>_ v. T - stick v"])
    show "returns (\<lambda>n. f n a) s" for a s using body unfolding paced_def by blast
    fix a s n a' s'
    assume "f n a s = Some (Inr (Again a'), s')"
    then have "stick s < T \<and> stick s < stick s'" by (rule again)
    then show "True \<and> T - stick s' < T - stick s" by auto
  qed (use mono in simp_all)
  moreover have "forward (iterP n (f n) a)" for n
    by (rule forward_iter) (use body in \<open>simp add: paced_def\<close>)
  ultimately show ?thesis using mono_iter [of f, OF mono] by (simp add: paced_def)
qed

lemma checked_again:
  assumes stop: "\<And>w. \<exists>r w'. stop w = Some (Inr r, w') \<and> (r = None \<longrightarrow> stick w < T \<and> stick w < stick w')"
    and body: "\<And>n. forward (body n)"
    and "bindP stop (\<lambda>s. case s of Some result \<Rightarrow> returnP (Done (g result)) | None \<Rightarrow> body n) w = Some (Inr (Again a), w')"
  shows "stick w < T \<and> stick w < stick w'"
proof -
  obtain s v where s: "stop w = Some (Inr s, v)" "s = None \<longrightarrow> stick w < T \<and> stick w < stick v"
    using stop by blast
  show ?thesis
  proof (cases s)
    case None
    then have "body n v = Some (Inr (Again a), w')" using assms(3) s by (simp add: bindP_def)
    then have "stick v \<le> stick w'" using body unfolding forward_def by blast
    then show ?thesis using s None by simp
  qed (use assms(3) s in \<open>simp add: bindP_def returnP_def\<close>)
qed

lemma paced_forward: "paced p \<Longrightarrow> forward (p n)"
  by (simp add: paced_def)

text \<open>The rounds of the invoker's loops, and the loops.\<close>

lemma paced_wait [paced_intros]:
  assumes "stopped_from E request T"
  shows "paced (\<lambda>n. waitPreCommitEvent n E request d)"
  unfolding waitPreCommitEvent_def
proof (rule paced_iter [where T = T])
  show "paced (\<lambda>n. waitPreCommitEvent_round E request d a)" for a
    unfolding waitPreCommitEvent_round_def by (intro paced_intros)
  fix n :: nat and a w a' w'
  assume "waitPreCommitEvent_round E request d a w = Some (Inr (Again a'), w')"
  then show "stick w < T \<and> stick w < stick w'"
    unfolding waitPreCommitEvent_round_def
    by (rule checked_again [OF pre_stop_run [OF assms], rotated]) (intro paced_forward paced_intros)
qed

lemma paced_write_round:
  assumes "stopped_from E request T"
  shows "paced (\<lambda>n. writePreCommit_round n E request d data)"
  unfolding writePreCommit_round_def by (intro paced_intros) (rule assms)

lemma paced_write [paced_intros]:
  assumes "stopped_from E request T"
  shows "paced (\<lambda>n. writePreCommit n E data request d)"
  unfolding writePreCommit_def
proof (rule paced_iter [where T = T and f = "\<lambda>n. writePreCommit_round n E request d"])
  show "paced (\<lambda>n. writePreCommit_round n E request d data)" for data
    by (rule paced_write_round [OF assms])
  fix n rest w rest' w'
  assume again: "writePreCommit_round n E request d rest w = Some (Inr (Again rest'), w')"
  then have "rest \<noteq> []" by (auto simp: writePreCommit_round_def returnP_def)
  with again show "stick w < T \<and> stick w < stick w'"
    unfolding writePreCommit_round_def
    by simp (rule checked_again [OF pre_stop_run [OF assms], rotated], assumption,
        rule paced_forward, intro paced_intros, rule assms)
qed

lemma paced_readPre [paced_intros]:
  assumes "stopped_from E request T"
  shows "paced (\<lambda>n. readPreCommit n E len request d)"
  unfolding readPreCommit_def
proof (rule paced_iter [where T = T and f = "\<lambda>n. readPreCommit_round n E len request d"])
  show "paced (\<lambda>n. readPreCommit_round n E len request d got)" for got
    unfolding readPreCommit_round_def by (intro paced_intros) (rule assms)
  fix n got w got' w'
  assume again: "readPreCommit_round n E len request d got w = Some (Inr (Again got'), w')"
  then have "0 < len - length got" by (auto simp: readPreCommit_round_def returnP_def split: if_splits)
  with again show "stick w < T \<and> stick w < stick w'"
    unfolding readPreCommit_round_def
    by simp (rule checked_again [OF pre_stop_run [OF assms], rotated], assumption,
        rule paced_forward, intro paced_intros, rule assms)
qed

lemma paced_readPost [paced_intros]:
  assumes "stopped_from E request T"
  shows "paced (\<lambda>n. readPostCommit n E len request d d')"
  unfolding readPostCommit_def
proof (rule paced_iter [where T = T])
  show "paced (\<lambda>n. readPostCommit_round E len request d d' got)" for got
    unfolding readPostCommit_round_def by (intro paced_intros)
  fix n :: nat and got w got' w'
  assume "readPostCommit_round E len request d d' got w = Some (Inr (Again got'), w')"
  then show "stick w < T \<and> stick w < stick w'"
    unfolding readPostCommit_round_def
    by (rule checked_again [OF post_stop_run [OF assms], rotated]) (intro paced_forward paced_intros)
qed

section \<open>The other loops\<close>

lemma paced_modify [paced_intros]: "(\<And>w. stick (g w) = stick w) \<Longrightarrow> paced (\<lambda>n. modifyP g)"
  by (intro paced_ticks ticks_modify)

lemma paced_retry [paced_intros]:
  assumes "quiet_from E T"
  shows "paced (\<lambda>n. retry_interrupted n E)"
  unfolding retry_interrupted_def
proof (rule paced_iter [where T = T])
  fix n :: nat and a :: unit and w a' w'
  assume "bindP (lookP (ie_interrupted E)) (\<lambda>interrupted. returnP (if interrupted then Again () else Done ())) w =
    Some (Inr (Again a'), w')"
  then have "ie_interrupted E (stick w)" "w' = w\<lparr>stick := Suc (stick w)\<rparr>"
    by (auto simp: bindP_def lookP_def returnP_def split: if_splits)
  then show "stick w < T \<and> stick w < stick w'"
    using assms by (auto simp: quiet_from_def not_le [symmetric])
qed (intro paced_intros)

lemma paced_terminate [paced_intros]:
  assumes "quiet_from E T"
  shows "paced (\<lambda>n. terminateAndReap n E)"
  unfolding terminateAndReap_def closeP_def by (intro paced_intros; (simp | rule assms))

text \<open>The loops on the shared counters: once it is quiet, the second attempt succeeds.\<close>

lemma paced_counter:
  assumes total: "\<And>a w. \<exists>r w'. f a w = Some (r, w') \<and> stick w \<le> stick w' \<and>
      (\<forall>a'. r = Inr (Again a') \<longrightarrow> (measure_of a' w' :: nat) < measure_of a w)"
  shows "paced (\<lambda>n. iterP n f a)"
proof -
  have ticks: "ticks (f a)" for a using total unfolding ticks_def by blast
  have "returns (\<lambda>n. iterP n f a) w" for w
    by (rule returns_iter [where I = "\<lambda>_ _. True" and measure_of = measure_of]) (use total in fastforce)+
  then show ?thesis by (simp add: paced_def mono_iter_const forward_iter forward_ticks ticks)
qed

lemma paced_nextRequestId [paced_intros]:
  assumes "quiet_from E T"
  shows "paced (\<lambda>n. nextRequestId n E)"
  unfolding nextRequestId_def
proof (rule paced_counter [where measure_of = "\<lambda>_ w. 2 * (T - stick w) + (if inext w = 0 then 1 else 0)"])
  fix a :: unit and w :: invoker_world
  have "ie_ids E (stick w) = 0" if "T \<le> stick w" using assms that by (simp add: quiet_from_def)
  then show "\<exists>r w'. bindP (fetch_add_id E) (\<lambda>selected. returnP (if selected \<noteq> 0 then Done selected else Again ())) w =
      Some (r, w') \<and> stick w \<le> stick w' \<and>
      (\<forall>a'. r = Inr (Again a') \<longrightarrow> 2 * (T - stick w') + (if inext w' = 0 then 1 else 0) <
        2 * (T - stick w) + (if inext w = 0 then 1 else 0))"
    by (cases "T \<le> stick w") (auto simp: bindP_def fetch_add_id_def Let_def returnP_def)
qed

lemma paced_acquire [paced_intros]:
  assumes "quiet_from E T"
  shows "paced (\<lambda>n. acquireInFlight n E maximum)"
proof -
  have load: "paced (\<lambda>n. load_in_flight E maximum)"
    by (rule paced_ticks) (simp add: ticks_def load_in_flight_def Let_def)
  have loop: "paced (\<lambda>n. iterP n (\<lambda>current. if current \<ge> maximum then returnP (Done False)
         else compare_exchange_weak E maximum current) current)" for current
  proof (rule paced_counter [where measure_of = "\<lambda>current w. 2 * (T - stick w) + (if in_flight (ipermits w) = current then 0 else 1)"])
    fix current and w :: invoker_world
    have "others_on_permits E maximum w = ipermits w \<and> \<not> ie_spurious E (stick w)" if "T \<le> stick w"
      using assms that by (simp add: quiet_from_def others_on_permits_def)
    then show "\<exists>r w'. (if current \<ge> maximum then returnP (Done False) else compare_exchange_weak E maximum current) w =
        Some (r, w') \<and> stick w \<le> stick w' \<and>
        (\<forall>a'. r = Inr (Again a') \<longrightarrow> 2 * (T - stick w') + (if in_flight (ipermits w') = a' then 0 else 1) <
          2 * (T - stick w) + (if in_flight (ipermits w) = current then 0 else 1))"
      by (cases "T \<le> stick w") (auto simp: returnP_def compare_exchange_weak_def Let_def)
  qed
  show ?thesis unfolding acquireInFlight_def by (intro paced_intros load loop)
qed

lemma paced_release [paced_intros]: "paced (\<lambda>n. releaseInFlight E maximum)"
  by (rule paced_ticks) (simp add: ticks_def releaseInFlight_def Let_def)

lemma paced_start [paced_intros]: "paced (\<lambda>n. start E)"
proof -
  have relocate: "paced (\<lambda>n. relocate E fd other)" for fd other
    unfolding relocate_def openP_def closeP_def by (intro paced_intros) simp_all
  have spawn: "paced (\<lambda>n. start_spawn E path a b)" for path a b
    unfolding start_spawn_def unless_failed_def spawn_helper_def closeP_def by (intro paced_intros) simp_all
  have path: "paced (\<lambda>n. currentExecutableSibling E sibling)" for sibling
    unfolding currentExecutableSibling_def by (intro paced_intros)
  show ?thesis
    unfolding start_def openP_def by (intro paced_intros relocate spawn path) simp_all
qed

section \<open>The call returns\<close>






end
