(* ===== verification/Spec2Isabelle.thy ===== *)
theory Spec2Isabelle
  imports Adapter_Main Probe_Main Service_Helper Service_Termination
begin

text \<open>
  Verification of the XGC2 ROS1 Tools Adapter.
\<close>

section \<open>Both processes of a service call\<close>

text \<open>
  C7. The two processes of a service call understand each other. When a helper can be started, a
  permit is free, the call is in time, both ends of the socket move bytes in portions of any
  size, and the service exists and answers, there is a stream of bytes such that the helper, on
  reading it, enters the native call exactly once, with the name, checksum and serialised
  request of this call, and ends well; and the parent, on reading what the helper wrote, writes
  exactly this stream and returns the decoding of what the service answered.
\<close>

theorem call_served_by_helper:
  assumes "in_time E request" "eager E" "uncontended E" "helper_starts E"
    and "serving H response" and "responsePayload response = Some data"
    and "length data \<le> kMaximumServicePayloadBytes" and "kMaximumServicePayloadBytes < fuel"
    and "prepare_call B J R limits request = Inr (description, payload)"
    and "validServiceMd5 (service_md5 description)" "length (sr_service request) \<le> kMaximumServiceNameBytes"
      "validAbsoluteServiceName H (sr_service request)"
      "unat (sr_wait_for_service_ms request) \<le> kMaximumServiceWaitMilliseconds"
    and "in_flight (ipermits w) < maximum" "inext w \<noteq> 0" "own_permits (ipermits w) = 0"
    and "template_of (service_response description) = Some t"
      "bf_createMessageFromTemplate B t data = Inr (Some message, length data)" "encode limits message = Inr json"
    and "ssent w = []" "ssent h = []" "hcalls h = []"
  shows "\<exists>stream h' result w'.
    runHelper fuel H (h\<lparr>sinput := stream\<rparr>) = Some (Inr 0, h') \<and>
    hcalls h' = [(sr_service request, service_md5 description, serviceRequest payload)] \<and>
    call fuel E B J R limits maximum request (w\<lparr>sinput := ssent h'\<rparr>) = Some (Inr result, w') \<and>
    ssent w' = stream \<and> sres_response result = json"
proof -
  let ?rid = "inext w"
  let ?f = "call_frame_of ?rid request description payload"
  let ?out = "frame_bytes (makeServiceHelperReady ?rid ReadyReady) @ response_bytes ?rid RespCompleted data"
  define stream where "stream = call_bytes ?rid request description payload"
  have service: "sr_service request \<noteq> []" using assms(12) by (simp add: validAbsoluteServiceName_def)
  then have "deliverable request description payload"
    using assms(10,11) prepare_call_payload [OF assms(9)] by (simp add: deliverable_def)
  then have accepted: "acceptable_request H ?f (string_bytes (sr_service request))
      (string_bytes (service_md5 description)) payload"
    using assms(12,13,15) by (intro call_acceptable)
  have input: "sinput (h\<lparr>sinput := stream\<rparr>) = request_stream ?f (string_bytes (sr_service request))
      (string_bytes (service_md5 description)) payload @ frame_bytes (makeServiceHelperCommit (request_id ?f)) @ []"
    by (simp add: stream_def call_bytes_whole whole_stream_def)
  have rid: "request_id ?f = ?rid" by (simp add: makeServiceHelperRequest_def)
  obtain h' where h: "runHelper fuel H (h\<lparr>sinput := stream\<rparr>) = Some (Inr 0, h')" "ssent h' = ?out"
      "hcalls h' = [(sr_service request, service_md5 description, serviceRequest payload)]"
    using leadsD [OF runHelper_leads [OF assms(5-8) accepted input]] assms(21,22)
    by (auto simp: rid string_bytes_back)
  have "\<exists>result w'. call fuel E B J R limits maximum request (w\<lparr>sinput := ssent h'\<rparr>) = Some (Inr result, w') \<and>
    ssent w' = stream \<and> sres_response result = json"
    using call_answered [OF assms(1-4,8-10) service assms(11), of "w\<lparr>sinput := ?out\<rparr>" maximum data "[]" t message json] assms(7,14-20)
    unfolding h(2) by (auto simp: stream_def)
  with h(1,3) show ?thesis by blast
qed

definition sample_reply :: serialized_message where
  "sample_reply = \<lparr>num_bytes = 2, buf = Some [1, 1], message_start = Some 1\<rparr>"

theorem call_served_by_helper_witness:
  "\<exists>stream h' result w'.
     runHelper (Suc kMaximumServicePayloadBytes) (sample_helper_env\<lparr>he_call := \<lambda>t. Inr (Some sample_reply)\<rparr>)
       (sample_helper_world stream) = Some (Inr 0, h') \<and>
     hcalls h' = [(''/set'', service_md5 sample_description, serviceRequest [1])] \<and>
     sample_service_call (sample_invoker_world\<lparr>sinput := ssent h'\<rparr>) = Some (Inr result, w') \<and>
     ssent w' = stream \<and> sres_response result = JObject [(''success'', JBool True)]"
proof -
  let ?H = "sample_helper_env\<lparr>he_call := \<lambda>t. Inr (Some sample_reply)\<rparr>"
  have serving: "serving ?H sample_reply"
    by (simp add: serving_def eager_def sample_helper_env_def)
  have reply: "responsePayload sample_reply = Some [1]"
    by (simp add: responsePayload_def sample_reply_def)
  have name: "validAbsoluteServiceName ?H (sr_service sample_call)"
    "unat (sr_wait_for_service_ms sample_call) \<le> kMaximumServiceWaitMilliseconds"
    by (simp_all add: validAbsoluteServiceName_def sample_call_def sample_helper_env_def
        kMaximumServiceWaitMilliseconds_def)
  show ?thesis
    using call_served_by_helper [OF sample_environment(1-4) serving reply sample_admitted(7) _ sample_prepared
        sample_admitted(1,3) name sample_admitted(4-6) sample_answered(2,3) sample_encoded,
        of "Suc kMaximumServicePayloadBytes" "sample_helper_world []"]
    by (simp add: sample_helper_world_def sample_invoker_world_def sample_call_def)
qed

end
